(* ===== verification/Prelude.thy ===== *)
theory Prelude
  imports Main "HOL-Library.Word" "HOL-Library.Sublist"
begin

text \<open>
  Shared vocabulary of the development: the machine integers of the C part, the
  exceptions and results of the Python part, the simplification collections the
  component theories fill, and the list facts that several of them use.
\<close>

section \<open>Simplification collections\<close>

named_theorems text_simps \<open>rendering and reading of numbers and strings\<close>
named_theorems json_simps \<open>rendering and reading of JSON\<close>
named_theorems vmi_simps \<open>field-level effect of the monitor's operations\<close>

section \<open>Machine integers of the C sources\<close>

type_synonym u8 = "8 word"
type_synonym u64 = "64 word"

section \<open>Exceptions and results of the Python sources\<close>

text \<open>One constructor per exception class the sources raise, catch or let escape.\<close>

datatype py_exn =
    RuntimeError string
  | ValueError
  | KeyError string
  | TypeError
  | AttributeError
  | IndexError
  | ZeroDivisionError
  | JSONDecodeError
  | TimeoutError string
  | TimeoutExpired
  | CalledProcessError
  | BrokenPipeError
  | OSError
  | FileNotFoundError
  | GdbError string
  | ConnectionRefusedError
  | KeyboardInterrupt

type_synonym 'a result = "py_exn + 'a"

definition bind_result :: "'a result \<Rightarrow> ('a \<Rightarrow> 'b result) \<Rightarrow> 'b result" where
  "bind_result r f = (case r of Inl e \<Rightarrow> Inl e | Inr x \<Rightarrow> f x)"

lemma bind_result_simps [simp]:
  "bind_result (Inl e) f = Inl e"
  "bind_result (Inr x) f = f x"
  by (simp_all add: bind_result_def)

lemma bind_result_Inr_iff:
  "bind_result r f = Inr y \<longleftrightarrow> (\<exists>x. r = Inr x \<and> f x = Inr y)"
  by (cases r) auto

text \<open>A list comprehension whose element expression may raise.\<close>

fun map_result :: "('a \<Rightarrow> 'b result) \<Rightarrow> 'a list \<Rightarrow> 'b list result" where
  "map_result f [] = Inr []"
| "map_result f (x # xs) =
     bind_result (f x) (\<lambda>y. bind_result (map_result f xs) (\<lambda>ys. Inr (y # ys)))"

lemma map_result_Inr:
  "(\<And>x. x \<in> set xs \<Longrightarrow> f x = Inr (g x)) \<Longrightarrow> map_result f xs = Inr (map g xs)"
  by (induction xs) auto

section \<open>List facts\<close>

lemma filter_list_update_Cons_split:
  "i < length xs \<Longrightarrow>
   filter P (xs[i := x]) = filter P (take i xs) @ (if P x then [x] else []) @ filter P (drop (Suc i) xs)"
  by (simp add: upd_conv_take_nth_drop)

lemma list_split_nth:
  "i < length xs \<Longrightarrow> xs = take i xs @ xs ! i # drop (Suc i) xs"
  by (simp add: id_take_nth_drop)

lemma prefix_snocI [simp]: "prefix xs (xs @ ys)"
  by simp

end
