(* ===== verification/Recorder.thy ===== *)
theory Recorder
  imports Prelude
begin

text \<open>
  The contract every capture back end shares: a step function over trapped events, an
  append-only log, and an invariant. \<open>bounded_recorder\<close> adds how many lines one step
  may append. The back ends (the gdb script and the pending table of the QEMU monitor)
  interpret these locales; runs are left folds of the step function.
\<close>

locale recorder =
  fixes step :: "'s \<Rightarrow> 'e \<Rightarrow> 's"
    and log :: "'s \<Rightarrow> 'l list"
    and inv :: "'s \<Rightarrow> bool"
  assumes step_inv: "inv s \<Longrightarrow> inv (step s e)"
    and step_log: "inv s \<Longrightarrow> prefix (log s) (log (step s e))"
begin

lemma run_inv: "inv s \<Longrightarrow> inv (foldl step s es)"
  by (induction es arbitrary: s) (simp_all add: step_inv)

lemma run_log: "inv s \<Longrightarrow> prefix (log s) (log (foldl step s es))"
proof (induction es arbitrary: s)
  case (Cons e es)
  then have "prefix (log (step s e)) (log (foldl step (step s e) es))"
    using step_inv by blast
  with step_log [OF Cons.prems, of e] show ?case by (simp add: prefix_order.trans)
qed simp

text \<open>What was logged at some point of a run stays there, at the same position.\<close>

lemma run_log_mono: "inv s \<Longrightarrow> prefix (log (foldl step s es)) (log (foldl step s (es @ fs)))"
  using run_log [OF run_inv] by simp

end

locale bounded_recorder = recorder +
  fixes bound :: nat
  assumes step_bound: "inv s \<Longrightarrow> length (log (step s e)) \<le> length (log s) + bound"
begin

lemma run_bound: "inv s \<Longrightarrow> length (log (foldl step s es)) \<le> length (log s) + bound * length es"
proof (induction es arbitrary: s)
  case (Cons e es)
  then have "length (log (foldl step (step s e) es)) \<le> length (log (step s e)) + bound * length es"
    using step_inv by blast
  with step_bound [OF Cons.prems, of e] show ?case by simp
qed simp

end

end
