(* ===== verification/Py_Text.thy ===== *)
theory Py_Text
  imports Prelude
begin

text \<open>
  The text primitives of the two languages that the sources use: Python's \<open>hex\<close>,
  \<open>str\<close>, \<open>int(s, base)\<close>, \<open>str.strip\<close>, \<open>split\<close>,
  \<open>splitlines\<close>, \<open>endswith\<close>, \<open>in\<close>, and C's
  \<open>printf\<close> integer conversions and \<open>strtoull\<close>. A character is one code point
  up to U+00FF.
\<close>

section \<open>Digits\<close>

definition digit_char :: "nat \<Rightarrow> char" where
  "digit_char d = (if d < 10 then char_of (48 + d) else char_of (87 + d))"

definition digit_value :: "char \<Rightarrow> nat option" where
  "digit_value c =
     (let n = of_char c :: nat in
      if 48 \<le> n \<and> n \<le> 57 then Some (n - 48)
      else if 97 \<le> n \<and> n \<le> 122 then Some (n - 87)
      else if 65 \<le> n \<and> n \<le> 90 then Some (n - 55)
      else None)"

text \<open>The value of a character as a digit of base \<open>b\<close>.\<close>

definition digit_in :: "nat \<Rightarrow> char \<Rightarrow> nat option" where
  "digit_in b c = (case digit_value c of None \<Rightarrow> None | Some d \<Rightarrow> if d < b then Some d else None)"

fun nat_digits :: "nat \<Rightarrow> nat \<Rightarrow> string" where
  "nat_digits b n =
     (if b < 2 \<or> n < b then [digit_char n]
      else nat_digits b (n div b) @ [digit_char (n mod b)])"

declare nat_digits.simps [simp del]

lemma digit_value_digit_char: "d < 36 \<Longrightarrow> digit_value (digit_char d) = Some d"
  by (simp add: digit_value_def digit_char_def of_char_of Let_def)

lemma digit_in_digit_char [text_simps]: "d < b \<Longrightarrow> b \<le> 36 \<Longrightarrow> digit_in b (digit_char d) = Some d"
  by (simp add: digit_in_def digit_value_digit_char)

lemma digit_in_Some_code:
  "digit_in b c = Some d \<Longrightarrow>
     48 \<le> (of_char c :: nat) \<and> (of_char c :: nat) \<le> 57 \<or>
     65 \<le> (of_char c :: nat) \<and> (of_char c :: nat) \<le> 90 \<or>
     97 \<le> (of_char c :: nat) \<and> (of_char c :: nat) \<le> 122"
  by (auto simp: digit_in_def digit_value_def Let_def split: option.splits if_splits)

lemma nat_digits_nonempty [simp]: "nat_digits b n \<noteq> []"
  by (subst nat_digits.simps) simp

lemma nat_digits_digits:
  "2 \<le> b \<Longrightarrow> b \<le> 36 \<Longrightarrow> c \<in> set (nat_digits b n) \<Longrightarrow> \<exists>d < b. c = digit_char d"
proof (induction b n rule: nat_digits.induct)
  case (1 b n)
  show ?case
  proof (cases "n < b")
    case True
    with 1(4) show ?thesis by (subst (asm) nat_digits.simps) auto
  next
    case False
    then have split: "nat_digits b n = nat_digits b (n div b) @ [digit_char (n mod b)]"
      using 1(2) by (subst nat_digits.simps) simp
    have small: "n mod b < b" using 1(2) by simp
    from 1(4) split consider "c \<in> set (nat_digits b (n div b))" | "c = digit_char (n mod b)"
      by auto
    then show ?thesis
    proof cases
      case 1
      with "1.IH" "1.prems"(1,2) False show ?thesis by auto
    next
      case 2
      with small show ?thesis by blast
    qed
  qed
qed

lemma nat_digits_Cons:
  "2 \<le> b \<Longrightarrow> b \<le> 36 \<Longrightarrow> nat_digits b n = c # cs \<Longrightarrow> \<exists>d < b. c = digit_char d"
  by (rule nat_digits_digits [of b c n]) simp_all

lemma nat_digits_digit_in:
  "2 \<le> b \<Longrightarrow> b \<le> 36 \<Longrightarrow> c \<in> set (nat_digits b n) \<Longrightarrow> \<exists>d. digit_in b c = Some d"
  using nat_digits_digits digit_in_digit_char by blast

text \<open>No leading zero, except for zero itself.\<close>

lemma hd_nat_digits: "2 \<le> b \<Longrightarrow> 0 < n \<Longrightarrow> \<exists>d. 0 < d \<and> d < b \<and> hd (nat_digits b n) = digit_char d"
proof (induction b n rule: nat_digits.induct)
  case (1 b n)
  show ?case
  proof (cases "n < b")
    case True
    with 1 show ?thesis by (subst nat_digits.simps) auto
  next
    case False
    then have "0 < n div b" using 1(2) by (simp add: div_greater_zero_iff)
    moreover have "nat_digits b n = nat_digits b (n div b) @ [digit_char (n mod b)]"
      using False 1(2) by (subst nat_digits.simps) simp
    ultimately show ?thesis using 1(1) 1(2) False by simp
  qed
qed

section \<open>Reading digits: the digit loop of Python's \<open>int\<close>\<close>

text \<open>
  After the first digit, digits follow, each optionally preceded by one underscore.
\<close>

fun scan_digits :: "nat \<Rightarrow> nat \<Rightarrow> string \<Rightarrow> nat option" where
  "scan_digits b acc [] = Some acc"
| "scan_digits b acc (c # cs) =
     (if c = CHR ''_'' then
        (case cs of
           [] \<Rightarrow> None
         | d # ds \<Rightarrow> (case digit_in b d of None \<Rightarrow> None | Some v \<Rightarrow> scan_digits b (acc * b + v) ds))
      else (case digit_in b c of None \<Rightarrow> None | Some v \<Rightarrow> scan_digits b (acc * b + v) cs))"

definition first_digit :: "nat \<Rightarrow> string \<Rightarrow> nat option" where
  "first_digit b s =
     (case s of [] \<Rightarrow> None
      | c # cs \<Rightarrow> (case digit_in b c of None \<Rightarrow> None | Some v \<Rightarrow> scan_digits b v cs))"

definition digits_val :: "nat \<Rightarrow> string \<Rightarrow> nat" where
  "digits_val b s = foldl (\<lambda>acc c. acc * b + the (digit_in b c)) 0 s"

lemma digit_char_not_underscore [simp]: "d < 36 \<Longrightarrow> digit_char d \<noteq> CHR ''_''"
proof
  assume "d < 36" and "digit_char d = CHR ''_''"
  then have "digit_value (CHR ''_'') = Some d" by (metis digit_value_digit_char)
  then show False by (simp add: digit_value_def Let_def)
qed

lemma scan_digits_append:
  assumes "\<forall>c \<in> set xs. \<exists>d < b. c = digit_char d" and "b \<le> 36"
  shows "scan_digits b acc (xs @ ys) =
    scan_digits b (foldl (\<lambda>acc c. acc * b + the (digit_in b c)) acc xs) ys"
  using assms(1)
proof (induction xs arbitrary: acc)
  case (Cons x xs)
  then obtain d where "d < b" "x = digit_char d" by auto
  with Cons assms(2) show ?case by (simp add: digit_in_digit_char)
qed simp

lemma digits_val_nat_digits:
  "2 \<le> b \<Longrightarrow> b \<le> 36 \<Longrightarrow> digits_val b (nat_digits b n) = n"
proof (induction b n rule: nat_digits.induct)
  case (1 b n)
  show ?case
  proof (cases "n < b")
    case True
    with 1 show ?thesis
      by (subst nat_digits.simps) (simp add: digits_val_def digit_in_digit_char)
  next
    case False
    with 1 have "digits_val b (nat_digits b (n div b)) = n div b" by simp
    with False 1(2,3) show ?thesis
      by (subst nat_digits.simps) (simp add: digits_val_def digit_in_digit_char)
  qed
qed

lemma first_digit_nat_digits [text_simps]:
  assumes "2 \<le> b" "b \<le> 36"
  shows "first_digit b (nat_digits b n) = Some n"
proof -
  obtain c cs where cs: "nat_digits b n = c # cs" by (cases "nat_digits b n") auto
  have digits: "\<forall>x \<in> set (c # cs). \<exists>d < b. x = digit_char d"
    using nat_digits_digits [OF assms] unfolding cs [symmetric] by blast
  then obtain d where d: "d < b" "c = digit_char d" by auto
  have "first_digit b (c # cs) = scan_digits b d (cs @ [])"
    using d assms(2) by (simp add: first_digit_def digit_in_digit_char)
  also have "\<dots> = Some (digits_val b (c # cs))"
    using digits d assms(2) by (subst scan_digits_append) (auto simp: digits_val_def digit_in_digit_char)
  finally show ?thesis using digits_val_nat_digits [OF assms, of n] by (simp only: cs)
qed

section \<open>Integers as text\<close>

definition py_str_int :: "int \<Rightarrow> string" where
  "py_str_int i = (if i < 0 then ''-'' else []) @ nat_digits 10 (nat \<bar>i\<bar>)"

definition py_hex :: "int \<Rightarrow> string" where
  "py_hex i = (if i < 0 then ''-0x'' else ''0x'') @ nat_digits 16 (nat \<bar>i\<bar>)"

text \<open>C: \<open>PRIx64\<close>, \<open>PRIu64\<close>, \<open>PRId64\<close> and \<open>%d\<close>.\<close>

definition c_hex :: "u64 \<Rightarrow> string" where
  "c_hex w = nat_digits 16 (unat w)"

definition c_udec :: "u64 \<Rightarrow> string" where
  "c_udec w = nat_digits 10 (unat w)"

definition c_dec :: "int \<Rightarrow> string" where
  "c_dec i = (if i < 0 then ''-'' else []) @ nat_digits 10 (nat \<bar>i\<bar>)"

text \<open>Width with zero padding, as in \<open>%06ld\<close> and \<open>:03d\<close> (sign first, then zeros).\<close>

definition zero_pad :: "nat \<Rightarrow> int \<Rightarrow> string" where
  "zero_pad w i =
     (let ds = nat_digits 10 (nat \<bar>i\<bar>); sg = (if i < 0 then ''-'' else [])
      in sg @ replicate (w - length sg - length ds) (CHR ''0'') @ ds)"

subsection \<open>Python's \<open>int(s, base)\<close>\<close>

text \<open>\<open>str.isspace\<close> on the code points up to U+00FF.\<close>

definition py_space :: "char \<Rightarrow> bool" where
  "py_space c = (let n = of_char c :: nat in
     9 \<le> n \<and> n \<le> 13 \<or> 28 \<le> n \<and> n \<le> 32 \<or> n = 133 \<or> n = 160)"

definition py_lstrip :: "string \<Rightarrow> string" where
  "py_lstrip s = dropWhile py_space s"

definition py_strip :: "string \<Rightarrow> string" where
  "py_strip s = rev (dropWhile py_space (rev (dropWhile py_space s)))"

definition take_sign :: "string \<Rightarrow> int \<times> string" where
  "take_sign s = (case s of [] \<Rightarrow> (1, [])
     | c # cs \<Rightarrow> if c = CHR ''-'' then (- 1, cs) else if c = CHR ''+'' then (1, cs) else (1, c # cs))"

text \<open>
  A base prefix, with the underscore Python allows after it; \<open>None\<close> when the text
  has no prefix letter of this base.
\<close>

definition skip_prefix :: "char \<Rightarrow> char \<Rightarrow> string \<Rightarrow> string option" where
  "skip_prefix lo up s = (case s of
     z # x # rest \<Rightarrow>
       if z = CHR ''0'' \<and> (x = lo \<or> x = up)
       then Some (case rest of [] \<Rightarrow> [] | u # us \<Rightarrow> if u = CHR ''_'' then us else rest)
       else None
   | _ \<Rightarrow> None)"

definition py_int_unsigned :: "nat \<Rightarrow> string \<Rightarrow> nat option" where
  "py_int_unsigned base s =
     (if base = 16 then
        (case skip_prefix (CHR ''x'') (CHR ''X'') s of Some t \<Rightarrow> first_digit 16 t | None \<Rightarrow> first_digit 16 s)
      else if base = 0 then
        (case skip_prefix (CHR ''x'') (CHR ''X'') s of Some t \<Rightarrow> first_digit 16 t | None \<Rightarrow>
        (case skip_prefix (CHR ''o'') (CHR ''O'') s of Some t \<Rightarrow> first_digit 8 t | None \<Rightarrow>
        (case skip_prefix (CHR ''b'') (CHR ''B'') s of Some t \<Rightarrow> first_digit 2 t | None \<Rightarrow>
        (case first_digit 10 s of None \<Rightarrow> None
         | Some n \<Rightarrow> if 0 < n \<and> hd s = CHR ''0'' then None else Some n))))
      else first_digit base s)"

definition py_int :: "nat \<Rightarrow> string \<Rightarrow> int result" where
  "py_int base s =
     (let (sg, t) = take_sign (py_strip s) in
      case py_int_unsigned base t of None \<Rightarrow> Inl ValueError | Some n \<Rightarrow> Inr (sg * int n))"

subsection \<open>C's \<open>strtoull(s, NULL, 0)\<close>\<close>

definition c_space :: "char \<Rightarrow> bool" where
  "c_space c = (let n = of_char c :: nat in 9 \<le> n \<and> n \<le> 13 \<or> n = 32)"

text \<open>
  The longest run of digits is read and what follows is ignored; a prefix without a digit
  after it reads as 0; a value beyond 64 bits is \<open>ULLONG_MAX\<close> whatever the sign; a
  minus sign negates modulo $2^{64}$.
\<close>

definition c_digits_value :: "nat \<Rightarrow> string \<Rightarrow> nat" where
  "c_digits_value b s = digits_val b (takeWhile (\<lambda>c. digit_in b c \<noteq> None) s)"

definition c_strtoull :: "string \<Rightarrow> u64" where
  "c_strtoull s =
     (let (sg, t) = take_sign (dropWhile c_space s);
          n = (case t of
                 z # x # d # rest \<Rightarrow>
                   if z = CHR ''0'' \<and> (x = CHR ''x'' \<or> x = CHR ''X'') \<and> digit_in 16 d \<noteq> None
                   then c_digits_value 16 (d # rest)
                   else if z = CHR ''0'' then c_digits_value 8 t else c_digits_value 10 t
               | z # rest \<Rightarrow> if z = CHR ''0'' then c_digits_value 8 t else c_digits_value 10 t
               | [] \<Rightarrow> 0)
      in if 2 ^ 64 \<le> n then - 1 else word_of_int (sg * int n))"

subsection \<open>Round trips\<close>

lemma digit_char_code:
  "d < 36 \<Longrightarrow> (of_char (digit_char d) :: nat) = (if d < 10 then 48 + d else 87 + d)"
  by (simp add: digit_char_def of_char_of)

lemma digit_char_not_space [simp]:
  "d < 36 \<Longrightarrow> \<not> py_space (digit_char d)" "d < 36 \<Longrightarrow> \<not> c_space (digit_char d)"
  by (auto simp: py_space_def c_space_def Let_def digit_char_code)

lemma digit_char_eq_iff:
  "d < 36 \<Longrightarrow> digit_char d = c \<longleftrightarrow> (of_char c :: nat) = (if d < 10 then 48 + d else 87 + d)"
  using digit_char_code [of d] by (metis of_char_eq_iff)

lemma digit_char_not_sign [simp]:
  "d < 36 \<Longrightarrow> digit_char d \<noteq> CHR ''-''" "d < 36 \<Longrightarrow> digit_char d \<noteq> CHR ''+''"
  by (auto simp: digit_char_eq_iff)

lemma py_strip_id:
  "s \<noteq> [] \<Longrightarrow> \<not> py_space (hd s) \<Longrightarrow> \<not> py_space (last s) \<Longrightarrow> py_strip s = s"
  by (simp add: py_strip_def dropWhile_eq_self_iff [THEN iffD2] hd_rev)

lemma take_sign_nat_digits:
  assumes "2 \<le> b" "b \<le> 36"
  shows "take_sign (nat_digits b n) = (1, nat_digits b n)"
proof -
  obtain c cs where cs: "nat_digits b n = c # cs" by (cases "nat_digits b n") auto
  with nat_digits_Cons [OF assms cs] assms(2) show ?thesis by (auto simp: take_sign_def)
qed

lemma nat_digits_not_space:
  assumes "2 \<le> b" "b \<le> 36" "c \<in> set (nat_digits b n)"
  shows "\<not> py_space c" "\<not> c_space c"
  using nat_digits_digits [OF assms] assms(2) by auto

lemma last_nat_digits_not_space:
  "2 \<le> b \<Longrightarrow> b \<le> 36 \<Longrightarrow> \<not> py_space (last (nat_digits b n))"
  using nat_digits_not_space(1) last_in_set nat_digits_nonempty by blast

lemma hd_nat_digits_not_space:
  "2 \<le> b \<Longrightarrow> b \<le> 36 \<Longrightarrow> \<not> py_space (hd (nat_digits b n))"
  using nat_digits_not_space(1) hd_in_set nat_digits_nonempty by blast

lemma py_strip_prefixed_digits:
  "2 \<le> b \<Longrightarrow> b \<le> 36 \<Longrightarrow> \<not> py_space c \<Longrightarrow> py_strip (c # p @ nat_digits b n) = c # p @ nat_digits b n"
  by (rule py_strip_id) (simp_all add: last_nat_digits_not_space)

lemma py_strip_nat_digits [simp]:
  "2 \<le> b \<Longrightarrow> b \<le> 36 \<Longrightarrow> py_strip (nat_digits b n) = nat_digits b n"
  by (rule py_strip_id) (simp_all add: last_nat_digits_not_space hd_nat_digits_not_space)

lemma not_space_literals [simp]:
  "\<not> py_space (CHR ''0'')" "\<not> py_space (CHR ''-'')" "\<not> c_space (CHR ''0'')"
  by (simp_all add: py_space_def c_space_def Let_def)

lemma hd_nat_digits_not_underscore: "2 \<le> b \<Longrightarrow> b \<le> 36 \<Longrightarrow> hd (nat_digits b n) \<noteq> CHR ''_''"
  using nat_digits_Cons [of b n] by (cases "nat_digits b n") auto

lemma skip_prefix_hex:
  "skip_prefix (CHR ''x'') up (CHR ''0'' # CHR ''x'' # nat_digits 16 n) = Some (nat_digits 16 n)"
  using hd_nat_digits_not_underscore [of 16 n]
  by (cases "nat_digits 16 n") (simp_all add: skip_prefix_def)

lemma py_int_hex: "base = 16 \<or> base = 0 \<Longrightarrow> py_int base (py_hex i) = Inr i"
proof -
  assume base: "base = 16 \<or> base = 0"
  have unsigned: "py_int_unsigned base (CHR ''0'' # CHR ''x'' # nat_digits 16 n) = Some n" for n
    using base by (auto simp: py_int_unsigned_def skip_prefix_hex first_digit_nat_digits)
  have "take_sign (CHR ''-'' # CHR ''0'' # CHR ''x'' # nat_digits 16 n)
      = (- 1, CHR ''0'' # CHR ''x'' # nat_digits 16 n)"
    and "take_sign (CHR ''0'' # CHR ''x'' # nat_digits 16 n)
      = (1, CHR ''0'' # CHR ''x'' # nat_digits 16 n)" for n
    by (simp_all add: take_sign_def)
  moreover have "py_strip (CHR ''-'' # CHR ''0'' # CHR ''x'' # nat_digits 16 n)
      = CHR ''-'' # CHR ''0'' # CHR ''x'' # nat_digits 16 n"
    and "py_strip (CHR ''0'' # CHR ''x'' # nat_digits 16 n) = CHR ''0'' # CHR ''x'' # nat_digits 16 n"
    for n
    using py_strip_prefixed_digits [of 16 "CHR ''-''" "''0x''" n]
      py_strip_prefixed_digits [of 16 "CHR ''0''" "''x''" n] by simp_all
  ultimately show ?thesis by (simp add: py_int_def py_hex_def unsigned)
qed

lemma py_int_str: "py_int 10 (py_str_int i) = Inr i"
proof (cases "i < 0")
  case True
  have "py_strip (CHR ''-'' # nat_digits 10 n) = CHR ''-'' # nat_digits 10 n" for n
    using py_strip_prefixed_digits [of 10 "CHR ''-''" "[]" n] by simp
  with True show ?thesis
    by (simp add: py_int_def py_str_int_def take_sign_def py_int_unsigned_def first_digit_nat_digits)
next
  case False
  then show ?thesis
    by (simp add: py_int_def py_str_int_def take_sign_nat_digits py_int_unsigned_def
        first_digit_nat_digits)
qed

lemma c_digits_value_nat_digits:
  assumes "2 \<le> b" "b \<le> 36"
  shows "c_digits_value b (nat_digits b n) = n"
proof -
  have "takeWhile (\<lambda>c. digit_in b c \<noteq> None) (nat_digits b n) = nat_digits b n"
    using nat_digits_digit_in [OF assms] by (intro takeWhile_eq_all_conv [THEN iffD2]) blast
  then show ?thesis by (simp only: c_digits_value_def digits_val_nat_digits [OF assms])
qed

text \<open>What Python writes with \<open>hex\<close>, C reads back with \<open>strtoull(_, NULL, 0)\<close>.\<close>

lemma c_strtoull_py_hex:
  assumes "0 \<le> i" "i < 2 ^ 64"
  shows "c_strtoull (py_hex i) = word_of_int i"
proof -
  obtain d ds where ds: "nat_digits 16 (nat i) = d # ds" by (cases "nat_digits 16 (nat i)") auto
  then have hex: "digit_in 16 d \<noteq> None"
    using nat_digits_digit_in [of 16 d "nat i"] by auto
  have val: "c_digits_value 16 (d # ds) = nat i"
    using c_digits_value_nat_digits [of 16 "nat i"] by (simp only: ds)
  have "nat i < 2 ^ 64" using assms by (simp add: nat_less_iff)
  with assms hex show ?thesis
    by (simp add: c_strtoull_def py_hex_def ds take_sign_def val not_le)
qed

section \<open>Splitting and joining\<close>

text \<open>\<open>s.split(c)\<close> for a one-character separator, and \<open>c.join(xs)\<close>.\<close>

fun split_on :: "char \<Rightarrow> string \<Rightarrow> string list" where
  "split_on c [] = [[]]"
| "split_on c (x # xs) =
     (if x = c then [] # split_on c xs
      else (case split_on c xs of [] \<Rightarrow> [[x]] | y # ys \<Rightarrow> (x # y) # ys))"

fun join :: "string \<Rightarrow> string list \<Rightarrow> string" where
  "join sep [] = []"
| "join sep [x] = x"
| "join sep (x # y # ys) = x @ sep @ join sep (y # ys)"

lemma split_on_nonempty [simp]: "split_on c s \<noteq> []"
  by (cases s) (auto split: list.splits)

lemma split_on_no_sep: "c \<notin> set xs \<Longrightarrow> split_on c xs = [xs]"
  by (induction xs) auto

lemma split_on_append: "c \<notin> set xs \<Longrightarrow> split_on c (xs @ c # ys) = xs # split_on c ys"
  by (induction xs) auto

lemma split_on_join:
  "xs \<noteq> [] \<Longrightarrow> (\<And>x. x \<in> set xs \<Longrightarrow> c \<notin> set x) \<Longrightarrow> split_on c (join [c] xs) = xs"
  by (induction "[c]" xs rule: join.induct) (auto simp: split_on_append split_on_no_sep)

text \<open>\<open>s.split()\<close>: the maximal runs of non-blank characters.\<close>

function split_ws :: "string \<Rightarrow> string list" where
  "split_ws [] = []"
| "split_ws (c # cs) =
     (if py_space c then split_ws cs
      else (c # takeWhile (\<lambda>x. \<not> py_space x) cs) # split_ws (dropWhile (\<lambda>x. \<not> py_space x) cs))"
  by pat_completeness auto
termination
  by (relation "measure length") (auto simp: length_dropWhile_le le_imp_less_Suc)

text \<open>\<open>s.endswith(t)\<close>, \<open>s.startswith(t)\<close> and \<open>t in s\<close>.\<close>

definition ends_with :: "string \<Rightarrow> string \<Rightarrow> bool" where
  "ends_with s t = (length t \<le> length s \<and> drop (length s - length t) s = t)"

definition starts_with :: "string \<Rightarrow> string \<Rightarrow> bool" where
  "starts_with s t = (take (length t) s = t)"

fun contains :: "string \<Rightarrow> string \<Rightarrow> bool" where
  "contains [] t = (t = [])"
| "contains (c # cs) t = (starts_with (c # cs) t \<or> contains cs t)"

lemma ends_with_append [simp]: "ends_with (s @ t) t"
  by (simp add: ends_with_def)

lemma ends_with_iff: "ends_with s t \<longleftrightarrow> (\<exists>p. s = p @ t)"
  by (auto simp: ends_with_def) (metis append_take_drop_id)

lemma starts_with_iff: "starts_with s t \<longleftrightarrow> (\<exists>r. s = t @ r)"
  by (auto simp: starts_with_def) (metis append_take_drop_id)

lemma contains_iff: "contains s t \<longleftrightarrow> (\<exists>p r. s = p @ t @ r)"
proof (induction s)
  case (Cons c cs)
  show ?case
  proof
    assume "contains (c # cs) t"
    then consider r where "c # cs = t @ r" | p r where "cs = p @ t @ r"
      using Cons by (auto simp: starts_with_iff)
    then show "\<exists>p r. c # cs = p @ t @ r"
    proof cases
      case (1 r)
      then show ?thesis by (intro exI [of _ "[]"] exI [of _ r]) simp
    next
      case (2 p r)
      then show ?thesis by (intro exI [of _ "c # p"] exI [of _ r]) simp
    qed
  next
    assume "\<exists>p r. c # cs = p @ t @ r"
    then obtain p r where eq: "c # cs = p @ t @ r" by blast
    show "contains (c # cs) t"
    proof (cases p)
      case Nil
      with eq have "starts_with (c # cs) t" by (auto simp: starts_with_iff)
      then show ?thesis by simp
    next
      case (Cons d p')
      with eq have "contains cs t" using Cons.IH by auto
      then show ?thesis by simp
    qed
  qed
qed auto

text \<open>\<open>s.splitlines()\<close>: the line boundaries of \<open>str\<close> up to U+00FF.\<close>

definition line_end :: "char \<Rightarrow> bool" where
  "line_end c = (let n = of_char c :: nat in 10 \<le> n \<and> n \<le> 13 \<or> 28 \<le> n \<and> n \<le> 30 \<or> n = 133)"

definition after_line_end :: "char \<Rightarrow> string \<Rightarrow> string" where
  "after_line_end c cs = (case cs of [] \<Rightarrow> [] | d # ds \<Rightarrow>
     if c = CHR 0x0D \<and> d = CHR 0x0A then ds else cs)"

lemma length_after_line_end: "length (after_line_end c cs) \<le> length cs"
  by (simp add: after_line_end_def split: list.splits)

function splitlines :: "string \<Rightarrow> string list" where
  "splitlines s =
     (if s = [] then []
      else (let l = takeWhile (\<lambda>c. \<not> line_end c) s; r = dropWhile (\<lambda>c. \<not> line_end c) s in
            l # (case r of [] \<Rightarrow> [] | c # cs \<Rightarrow> splitlines (after_line_end c cs))))"
  by pat_completeness auto
termination
proof (relation "measure length", simp)
  fix s l r :: string and c cs
  assume "s \<noteq> []" and r: "r = dropWhile (\<lambda>c. \<not> line_end c) s" "r = c # cs"
  then have "length (c # cs) \<le> length s" using length_dropWhile_le [of _ s] by metis
  then have "length cs < length s" by simp
  then show "(after_line_end c cs, s) \<in> measure length"
    using length_after_line_end [of c cs] by simp
qed

declare splitlines.simps [simp del]

end
