(* ===== verification/Vmi_State.thy ===== *)
theory Vmi_State
  imports Prelude Py_Text
begin

text \<open>
  The data of the QEMU-side monitor (\<open>vmi-syscall-monitor.c\<close>): its static variables as
  one record, the log records it writes, its two diagnostic channels, and the interface of
  the QEMU/KVM functions it calls. Those functions are not part of the repository: they are
  the fields of the record \<open>kvm\<close>, an argument of every operation that calls one, over
  an abstract machine state \<open>'k\<close>.
\<close>

section \<open>CPU, clock and hypervisor\<close>

text \<open>A \<open>CPUState *\<close> is identified with its \<open>cpu_index\<close>.\<close>

type_synonym cpu = nat

record timeval =
  tv_sec :: int
  tv_usec :: int

text \<open>The indices of \<open>env->regs[]\<close> the monitor reads.\<close>

datatype reg = R_EAX | R_ECX | R_EDX | R_ESP | R_ESI | R_EDI | R_8 | R_9 | R_10

record cpu_env =
  env_regs :: "reg \<Rightarrow> u64"
  env_eip :: u64

text \<open>
  \<open>kvm_insert_breakpoint\<close> and \<open>kvm_remove_breakpoint\<close> (length 1, software) with
  their return codes, \<open>kvm_find_sw_breakpoint\<close>, a one-byte read with
  \<open>cpu_memory_rw_debug\<close> (\<open>None\<close>: it returned non-zero), \<open>cpu_single_step\<close>,
  and the registers \<open>cpu_synchronize_state\<close> leaves in \<open>env\<close>.
\<close>

record 'k kvm =
  insert_bp :: "cpu \<Rightarrow> u64 \<Rightarrow> 'k \<Rightarrow> 'k \<times> int"
  remove_bp :: "cpu \<Rightarrow> u64 \<Rightarrow> 'k \<Rightarrow> 'k \<times> int"
  find_bp :: "cpu \<Rightarrow> u64 \<Rightarrow> 'k \<Rightarrow> bool"
  read_byte :: "cpu \<Rightarrow> u64 \<Rightarrow> 'k \<Rightarrow> u8 option"
  single_step :: "cpu \<Rightarrow> bool \<Rightarrow> 'k \<Rightarrow> 'k"
  sync_state :: "cpu \<Rightarrow> 'k \<Rightarrow> cpu_env"

section \<open>Pending syscalls and log records\<close>

record VmiPending =
  p_used :: bool
  p_seq :: u64
  p_rsp :: u64
  p_rcx :: u64
  p_cpu_index :: cpu
  p_num :: u64
  p_argv :: "u64 list"
  p_tv :: timeval

definition VMI_PENDING_MAX :: nat where
  "VMI_PENDING_MAX = 64"

definition VMI_ARM_RETRY_MS :: int where
  "VMI_ARM_RETRY_MS = 200"

definition VMI_ARM_MAX_ATTEMPTS :: int where
  "VMI_ARM_MAX_ATTEMPTS = 100"

text \<open>
  \<open>VmiRetKind\<close>, with the arguments of \<open>vmi_write_event\<close> each kind uses:
  the signed \<open>rax\<close> and the time of return, or the reason it was never seen.
\<close>

datatype VmiRetKind =
    VMI_RET_NONE
  | VMI_RET_VALUE int timeval
  | VMI_RET_UNFINISHED string

text \<open>One call of \<open>vmi_write_event\<close>: its arguments and the \<open>vmi_addr\<close> it prints.\<close>

record VmiEvent =
  e_rip :: u64
  e_cpu :: cpu
  e_num :: u64
  e_argv :: "u64 list"
  e_tv :: timeval
  e_kind :: VmiRetKind

section \<open>The static variables\<close>

datatype VmiState = VMI_NORMAL | VMI_STEPPING

text \<open>A \<open>QEMUTimer\<close>: idle, or scheduled for a time in milliseconds.\<close>

datatype timer = Timer_idle | Timer_at int

datatype report_level = Error_report | Warn_report | Info_report

text \<open>
  Pointers that may be null are options. \<open>state_handler\<close> says whether
  \<open>vmi_vm_state_change\<close> has been registered with QEMU. \<open>bql\<close> is the QEMU global lock as this thread
  sees it; \<open>fault\<close> records a use of a null pointer (undefined behaviour in C).
\<close>

record 'k vmi =
  hyp :: 'k
  vmi_enabled :: bool
  vmi_addr :: u64
  vmi_ret_addr :: u64
  vmi_log_fp :: "VmiEvent list option"
  vmi_debug_fp :: "string list option"
  vmi_reports :: "(report_level \<times> string) list"
  vmi_state_table :: "(cpu \<Rightarrow> VmiState) option"
  vmi_step_addr_table :: "(cpu \<Rightarrow> u64) option"
  vmi_arm_timer :: "timer option"
  vmi_arm_attempts :: int
  vmi_first_hit_seen :: bool
  vmi_boot_sync_ok :: bool
  vmi_pending :: "VmiPending list"
  vmi_pending_seq :: u64
  state_handler :: bool
  bql :: bool
  fault :: bool

text \<open>The lines written so far; none when the file is not open.\<close>

definition vmi_log :: "'k vmi \<Rightarrow> VmiEvent list" where
  "vmi_log s = (case vmi_log_fp s of None \<Rightarrow> [] | Some l \<Rightarrow> l)"

definition vmi_debug_lines :: "'k vmi \<Rightarrow> string list" where
  "vmi_debug_lines s = (case vmi_debug_fp s of None \<Rightarrow> [] | Some l \<Rightarrow> l)"

text \<open>The values the statics have when QEMU starts: zero and null, and no lock held.\<close>

definition pending_zero :: VmiPending where
  "pending_zero = \<lparr>p_used = False, p_seq = 0, p_rsp = 0, p_rcx = 0, p_cpu_index = 0, p_num = 0,
     p_argv = replicate 6 0, p_tv = \<lparr>tv_sec = 0, tv_usec = 0\<rparr>\<rparr>"

definition vmi_zero :: "'k \<Rightarrow> 'k vmi" where
  "vmi_zero k = \<lparr>hyp = k, vmi_enabled = False, vmi_addr = 0, vmi_ret_addr = 0, vmi_log_fp = None,
     vmi_debug_fp = None, vmi_reports = [], vmi_state_table = None, vmi_step_addr_table = None,
     vmi_arm_timer = None, vmi_arm_attempts = 0, vmi_first_hit_seen = False, vmi_boot_sync_ok = False,
     vmi_pending = replicate VMI_PENDING_MAX pending_zero, vmi_pending_seq = 0, state_handler = False, bql = False,
     fault = False\<rparr>"

section \<open>Diagnostics and accessors\<close>

definition vmi_debug :: "string \<Rightarrow> 'k vmi \<Rightarrow> 'k vmi" where
  "vmi_debug msg s =
     (case vmi_debug_fp s of None \<Rightarrow> s | Some l \<Rightarrow> s\<lparr>vmi_debug_fp := Some (l @ [msg])\<rparr>)"

definition report :: "report_level \<Rightarrow> string \<Rightarrow> 'k vmi \<Rightarrow> 'k vmi" where
  "report lv msg s = s\<lparr>vmi_reports := vmi_reports s @ [(lv, msg)]\<rparr>"

definition vmi_monitor_is_enabled :: "'k vmi \<Rightarrow> bool" where
  "vmi_monitor_is_enabled s = vmi_enabled s"

definition vmi_monitor_addr :: "'k vmi \<Rightarrow> u64" where
  "vmi_monitor_addr s = vmi_addr s"

definition vmi_monitor_is_hook_addr :: "u64 \<Rightarrow> 'k vmi \<Rightarrow> bool" where
  "vmi_monitor_is_hook_addr pc s \<longleftrightarrow>
     vmi_enabled s \<and> (pc = vmi_addr s \<or> vmi_ret_addr s \<noteq> 0 \<and> pc = vmi_ret_addr s)"

definition vmi_monitor_get_state :: "cpu \<Rightarrow> 'k vmi \<Rightarrow> VmiState" where
  "vmi_monitor_get_state cs s = (case vmi_state_table s of None \<Rightarrow> VMI_NORMAL | Some t \<Rightarrow> t cs)"

definition vmi_monitor_set_state :: "cpu \<Rightarrow> VmiState \<Rightarrow> 'k vmi \<Rightarrow> 'k vmi" where
  "vmi_monitor_set_state cs st s =
     (case vmi_state_table s of
        None \<Rightarrow> s\<lparr>fault := True\<rparr>
      | Some t \<Rightarrow> s\<lparr>vmi_state_table := Some (t(cs := st))\<rparr>)"

text \<open>\<open>g_hash_table_insert(vmi_step_addr_table, cs, pc)\<close> and its lookup.\<close>

definition set_step_addr :: "cpu \<Rightarrow> u64 \<Rightarrow> 'k vmi \<Rightarrow> 'k vmi" where
  "set_step_addr cs pc s =
     (case vmi_step_addr_table s of
        None \<Rightarrow> s\<lparr>fault := True\<rparr>
      | Some t \<Rightarrow> s\<lparr>vmi_step_addr_table := Some (t(cs := pc))\<rparr>)"

definition get_step_addr :: "cpu \<Rightarrow> 'k vmi \<Rightarrow> u64" where
  "get_step_addr cs s = (case vmi_step_addr_table s of None \<Rightarrow> 0 | Some t \<Rightarrow> t cs)"

text \<open>\<open>0x%" PRIx64\<close>.\<close>

definition hex0x :: "u64 \<Rightarrow> string" where
  "hex0x w = ''0x'' @ c_hex w"

section \<open>Frame facts\<close>

text \<open>The two channels change nothing but themselves.\<close>

lemma vmi_debug_fields [simp]:
  "hyp (vmi_debug m s) = hyp s" "vmi_enabled (vmi_debug m s) = vmi_enabled s"
  "vmi_addr (vmi_debug m s) = vmi_addr s" "vmi_ret_addr (vmi_debug m s) = vmi_ret_addr s"
  "vmi_log_fp (vmi_debug m s) = vmi_log_fp s" "vmi_reports (vmi_debug m s) = vmi_reports s"
  "vmi_state_table (vmi_debug m s) = vmi_state_table s"
  "vmi_step_addr_table (vmi_debug m s) = vmi_step_addr_table s"
  "vmi_arm_timer (vmi_debug m s) = vmi_arm_timer s"
  "vmi_arm_attempts (vmi_debug m s) = vmi_arm_attempts s"
  "vmi_first_hit_seen (vmi_debug m s) = vmi_first_hit_seen s"
  "vmi_boot_sync_ok (vmi_debug m s) = vmi_boot_sync_ok s"
  "vmi_pending (vmi_debug m s) = vmi_pending s"
  "vmi_pending_seq (vmi_debug m s) = vmi_pending_seq s"
  "state_handler (vmi_debug m s) = state_handler s"
  "bql (vmi_debug m s) = bql s" "fault (vmi_debug m s) = fault s"
  by (simp_all add: vmi_debug_def split: option.splits)

lemma report_fields [simp]:
  "hyp (report v m s) = hyp s" "vmi_enabled (report v m s) = vmi_enabled s"
  "vmi_addr (report v m s) = vmi_addr s" "vmi_ret_addr (report v m s) = vmi_ret_addr s"
  "vmi_log_fp (report v m s) = vmi_log_fp s" "vmi_debug_fp (report v m s) = vmi_debug_fp s"
  "vmi_state_table (report v m s) = vmi_state_table s"
  "vmi_step_addr_table (report v m s) = vmi_step_addr_table s"
  "vmi_arm_timer (report v m s) = vmi_arm_timer s"
  "vmi_arm_attempts (report v m s) = vmi_arm_attempts s"
  "vmi_first_hit_seen (report v m s) = vmi_first_hit_seen s"
  "vmi_boot_sync_ok (report v m s) = vmi_boot_sync_ok s"
  "vmi_pending (report v m s) = vmi_pending s"
  "vmi_pending_seq (report v m s) = vmi_pending_seq s"
  "state_handler (report v m s) = state_handler s"
  "bql (report v m s) = bql s" "fault (report v m s) = fault s"
  "vmi_reports (report v m s) = vmi_reports s @ [(v, m)]"
  by (simp_all add: report_def)

lemma vmi_debug_lines_debug: "vmi_debug_fp s = Some l \<Longrightarrow> vmi_debug_fp (vmi_debug m s) = Some (l @ [m])"
  by (simp add: vmi_debug_def)

lemma vmi_log_cong [simp]:
  "vmi_log (vmi_debug m s) = vmi_log s" "vmi_log (report v m s) = vmi_log s"
  by (simp_all add: vmi_log_def)

text \<open>A CPU's state and step-over address: what is written is what is read, per CPU.\<close>

lemma get_set_state:
  "vmi_state_table s \<noteq> None \<Longrightarrow>
   vmi_monitor_get_state c (vmi_monitor_set_state cs st s) =
     (if c = cs then st else vmi_monitor_get_state c s)"
  by (auto simp: vmi_monitor_get_state_def vmi_monitor_set_state_def)

lemma get_set_step_addr:
  "vmi_step_addr_table s \<noteq> None \<Longrightarrow>
   get_step_addr c (set_step_addr cs a s) = (if c = cs then a else get_step_addr c s)"
  by (auto simp: get_step_addr_def set_step_addr_def)

end
