(* ===== verification/Syscall_Table.thy ===== *)
theory Syscall_Table
  imports Py_Text
begin

text \<open>
  The two syscall name tables: the dictionary of \<open>syscall_table.py\<close> and the
  generated C array of \<open>vmi-syscall-table.h\<close> with its binary search. The interface
  the event writers rely on is the locale \<open>name_table\<close>, interpreted on both; the last
  section relates the two lookups.
\<close>

section \<open>The Python dictionary\<close>

text \<open>\<open>SYSCALL_TABLE\<close>, in the order of the source; its two halves are two constants.\<close>

definition SYSCALL_TABLE_low :: "(int \<times> string \<times> nat) list" where
  "SYSCALL_TABLE_low = [
    (0, ''read'', 3), (1, ''write'', 3), (2, ''open'', 3), (3, ''close'', 1), (4, ''stat'', 2),
    (5, ''fstat'', 2), (6, ''lstat'', 2), (7, ''poll'', 3), (8, ''lseek'', 3), (9, ''mmap'', 6),
    (10, ''mprotect'', 3), (11, ''munmap'', 2), (12, ''brk'', 1), (13, ''rt_sigaction'', 4),
    (14, ''rt_sigprocmask'', 4), (16, ''ioctl'', 3), (17, ''pread64'', 4), (18, ''pwrite64'', 4),
    (19, ''readv'', 3), (20, ''writev'', 3), (21, ''access'', 2), (22, ''pipe'', 1),
    (23, ''select'', 5), (24, ''sched_yield'', 0), (26, ''msync'', 3), (28, ''madvise'', 3),
    (32, ''dup'', 1), (33, ''dup2'', 2), (34, ''pause'', 0), (35, ''nanosleep'', 2),
    (37, ''alarm'', 1), (38, ''setitimer'', 3), (39, ''getpid'', 0), (40, ''sendfile'', 4),
    (41, ''socket'', 3), (42, ''connect'', 3), (43, ''accept'', 3), (44, ''sendto'', 6),
    (45, ''recvfrom'', 6), (46, ''sendmsg'', 3), (47, ''recvmsg'', 3), (48, ''shutdown'', 2),
    (49, ''bind'', 3), (50, ''listen'', 2), (51, ''getsockname'', 3), (52, ''getpeername'', 3),
    (53, ''socketpair'', 4), (54, ''setsockopt'', 5), (55, ''getsockopt'', 5), (56, ''clone'', 5),
    (60, ''exit'', 1), (61, ''wait4'', 4), (62, ''kill'', 2), (63, ''uname'', 1),
    (72, ''fcntl'', 3), (73, ''flock'', 2), (74, ''fsync'', 1), (75, ''fdatasync'', 1),
    (76, ''truncate'', 2), (77, ''ftruncate'', 2), (78, ''getdents'', 3), (79, ''getcwd'', 2),
    (80, ''chdir'', 1), (81, ''fchdir'', 1), (82, ''rename'', 2), (83, ''mkdir'', 2),
    (84, ''rmdir'', 1), (85, ''creat'', 2), (86, ''link'', 2), (87, ''unlink'', 1),
    (88, ''symlink'', 2), (89, ''readlink'', 3), (90, ''chmod'', 2), (91, ''fchmod'', 2),
    (92, ''chown'', 3), (93, ''fchown'', 3), (94, ''lchown'', 3), (95, ''umask'', 1),
    (96, ''gettimeofday'', 2), (97, ''getrlimit'', 2), (98, ''getrusage'', 2),
    (99, ''sysinfo'', 1), (100, ''times'', 1), (102, ''getuid'', 0), (104, ''getgid'', 0),
    (105, ''setuid'', 1), (106, ''setgid'', 1), (107, ''geteuid'', 0), (108, ''getegid'', 0),
    (109, ''setpgid'', 2), (110, ''getppid'', 0), (111, ''getpgrp'', 0), (112, ''setsid'', 0)]"

definition SYSCALL_TABLE_high :: "(int \<times> string \<times> nat) list" where
  "SYSCALL_TABLE_high = [
    (113, ''setreuid'', 2), (114, ''setregid'', 2), (115, ''getgroups'', 2),
    (116, ''setgroups'', 2), (117, ''setresuid'', 3), (118, ''getresuid'', 3),
    (119, ''setresgid'', 3), (120, ''getresgid'', 3), (121, ''getpgid'', 1),
    (122, ''setfsuid'', 1), (123, ''setfsgid'', 1), (124, ''getsid'', 1), (125, ''capget'', 2),
    (126, ''capset'', 2), (127, ''rt_sigpending'', 2), (128, ''rt_sigtimedwait'', 4),
    (129, ''rt_sigqueueinfo'', 3), (130, ''rt_sigsuspend'', 2), (131, ''sigaltstack'', 2),
    (132, ''utime'', 2), (133, ''mknod'', 3), (137, ''statfs'', 2), (138, ''fstatfs'', 2),
    (140, ''getpriority'', 2), (141, ''setpriority'', 3), (149, ''mlock'', 2),
    (157, ''prctl'', 5), (158, ''arch_prctl'', 3), (160, ''setrlimit'', 2), (161, ''chroot'', 1),
    (162, ''sync'', 0), (164, ''settimeofday'', 2), (165, ''mount'', 5), (166, ''umount2'', 2),
    (170, ''sethostname'', 2), (186, ''gettid'', 0), (200, ''tkill'', 2), (201, ''time'', 1),
    (202, ''futex'', 6), (203, ''sched_setaffinity'', 3), (204, ''sched_getaffinity'', 3),
    (213, ''epoll_create'', 1), (217, ''getdents64'', 3), (218, ''set_tid_address'', 1),
    (221, ''fadvise64'', 4), (222, ''timer_create'', 3), (223, ''timer_settime'', 4),
    (224, ''timer_gettime'', 2), (225, ''timer_getoverrun'', 1), (226, ''timer_delete'', 1),
    (227, ''clock_settime'', 2), (228, ''clock_gettime'', 2), (229, ''clock_getres'', 2),
    (230, ''clock_nanosleep'', 4), (231, ''exit_group'', 1), (232, ''epoll_wait'', 4),
    (233, ''epoll_ctl'', 4), (234, ''tgkill'', 3), (235, ''utimes'', 2), (247, ''waitid'', 5),
    (257, ''openat'', 4), (258, ''mkdirat'', 3), (261, ''futimesat'', 3),
    (262, ''newfstatat'', 4), (263, ''unlinkat'', 3), (264, ''renameat'', 4),
    (267, ''readlinkat'', 4), (269, ''faccessat'', 4), (270, ''pselect6'', 6),
    (271, ''ppoll'', 5), (280, ''utimensat'', 4), (281, ''epoll_pwait'', 6),
    (283, ''timerfd_create'', 2), (284, ''eventfd'', 1), (285, ''fallocate'', 4),
    (286, ''timerfd_settime'', 4), (287, ''timerfd_gettime'', 2), (288, ''accept4'', 4),
    (290, ''eventfd2'', 2), (291, ''epoll_create1'', 1), (292, ''dup3'', 3), (293, ''pipe2'', 2),
    (295, ''preadv'', 4), (296, ''pwritev'', 4), (297, ''rt_tgsigqueueinfo'', 4),
    (302, ''prlimit64'', 4), (309, ''getcpu'', 3), (318, ''getrandom'', 3),
    (324, ''membarrier'', 3), (327, ''preadv2'', 5), (328, ''pwritev2'', 5),
    (441, ''epoll_pwait2'', 6)]"

definition SYSCALL_TABLE :: "(int \<times> string \<times> nat) list" where
  "SYSCALL_TABLE = SYSCALL_TABLE_low @ SYSCALL_TABLE_high"

text \<open>\<open>SYSCALL_TABLE.get(rax)\<close>: the keys are distinct, so the first match is the entry.\<close>

definition py_table_get :: "int \<Rightarrow> (string \<times> nat) option" where
  "py_table_get n = map_of SYSCALL_TABLE n"

section \<open>The C table and its binary search\<close>

record VmiSyscallInfo =
  info_nr :: int
  info_name :: string
  info_argc :: nat

definition vmi_row :: "int \<Rightarrow> string \<Rightarrow> nat \<Rightarrow> VmiSyscallInfo" where
  "vmi_row n s a = \<lparr>info_nr = n, info_name = s, info_argc = a\<rparr>"

definition vmi_table_low :: "VmiSyscallInfo list" where
  "vmi_table_low = [
    vmi_row 0 ''read'' 3, vmi_row 1 ''write'' 3, vmi_row 2 ''open'' 3, vmi_row 3 ''close'' 1,
    vmi_row 4 ''stat'' 2, vmi_row 5 ''fstat'' 2, vmi_row 6 ''lstat'' 2, vmi_row 7 ''poll'' 3,
    vmi_row 8 ''lseek'' 3, vmi_row 9 ''mmap'' 6, vmi_row 10 ''mprotect'' 3,
    vmi_row 11 ''munmap'' 2, vmi_row 12 ''brk'' 1, vmi_row 13 ''rt_sigaction'' 4,
    vmi_row 14 ''rt_sigprocmask'' 4, vmi_row 16 ''ioctl'' 3, vmi_row 17 ''pread64'' 4,
    vmi_row 18 ''pwrite64'' 4, vmi_row 19 ''readv'' 3, vmi_row 20 ''writev'' 3,
    vmi_row 21 ''access'' 2, vmi_row 22 ''pipe'' 1, vmi_row 23 ''select'' 5,
    vmi_row 24 ''sched_yield'' 0, vmi_row 26 ''msync'' 3, vmi_row 28 ''madvise'' 3,
    vmi_row 32 ''dup'' 1, vmi_row 33 ''dup2'' 2, vmi_row 34 ''pause'' 0,
    vmi_row 35 ''nanosleep'' 2, vmi_row 37 ''alarm'' 1, vmi_row 38 ''setitimer'' 3,
    vmi_row 39 ''getpid'' 0, vmi_row 40 ''sendfile'' 4, vmi_row 41 ''socket'' 3,
    vmi_row 42 ''connect'' 3, vmi_row 43 ''accept'' 3, vmi_row 44 ''sendto'' 6,
    vmi_row 45 ''recvfrom'' 6, vmi_row 46 ''sendmsg'' 3, vmi_row 47 ''recvmsg'' 3,
    vmi_row 48 ''shutdown'' 2, vmi_row 49 ''bind'' 3, vmi_row 50 ''listen'' 2,
    vmi_row 51 ''getsockname'' 3, vmi_row 52 ''getpeername'' 3, vmi_row 53 ''socketpair'' 4,
    vmi_row 54 ''setsockopt'' 5, vmi_row 55 ''getsockopt'' 5, vmi_row 56 ''clone'' 5,
    vmi_row 60 ''exit'' 1, vmi_row 61 ''wait4'' 4, vmi_row 62 ''kill'' 2, vmi_row 63 ''uname'' 1,
    vmi_row 72 ''fcntl'' 3, vmi_row 73 ''flock'' 2, vmi_row 74 ''fsync'' 1,
    vmi_row 75 ''fdatasync'' 1, vmi_row 76 ''truncate'' 2, vmi_row 77 ''ftruncate'' 2,
    vmi_row 78 ''getdents'' 3, vmi_row 79 ''getcwd'' 2, vmi_row 80 ''chdir'' 1,
    vmi_row 81 ''fchdir'' 1, vmi_row 82 ''rename'' 2, vmi_row 83 ''mkdir'' 2,
    vmi_row 84 ''rmdir'' 1, vmi_row 85 ''creat'' 2, vmi_row 86 ''link'' 2,
    vmi_row 87 ''unlink'' 1, vmi_row 88 ''symlink'' 2, vmi_row 89 ''readlink'' 3,
    vmi_row 90 ''chmod'' 2, vmi_row 91 ''fchmod'' 2, vmi_row 92 ''chown'' 3,
    vmi_row 93 ''fchown'' 3, vmi_row 94 ''lchown'' 3, vmi_row 95 ''umask'' 1,
    vmi_row 96 ''gettimeofday'' 2, vmi_row 97 ''getrlimit'' 2, vmi_row 98 ''getrusage'' 2,
    vmi_row 99 ''sysinfo'' 1, vmi_row 100 ''times'' 1, vmi_row 102 ''getuid'' 0,
    vmi_row 104 ''getgid'' 0, vmi_row 105 ''setuid'' 1, vmi_row 106 ''setgid'' 1,
    vmi_row 107 ''geteuid'' 0, vmi_row 108 ''getegid'' 0, vmi_row 109 ''setpgid'' 2,
    vmi_row 110 ''getppid'' 0, vmi_row 111 ''getpgrp'' 0, vmi_row 112 ''setsid'' 0]"

definition vmi_table_high :: "VmiSyscallInfo list" where
  "vmi_table_high = [
    vmi_row 113 ''setreuid'' 2, vmi_row 114 ''setregid'' 2, vmi_row 115 ''getgroups'' 2,
    vmi_row 116 ''setgroups'' 2, vmi_row 117 ''setresuid'' 3, vmi_row 118 ''getresuid'' 3,
    vmi_row 119 ''setresgid'' 3, vmi_row 120 ''getresgid'' 3, vmi_row 121 ''getpgid'' 1,
    vmi_row 122 ''setfsuid'' 1, vmi_row 123 ''setfsgid'' 1, vmi_row 124 ''getsid'' 1,
    vmi_row 125 ''capget'' 2, vmi_row 126 ''capset'' 2, vmi_row 127 ''rt_sigpending'' 2,
    vmi_row 128 ''rt_sigtimedwait'' 4, vmi_row 129 ''rt_sigqueueinfo'' 3,
    vmi_row 130 ''rt_sigsuspend'' 2, vmi_row 131 ''sigaltstack'' 2, vmi_row 132 ''utime'' 2,
    vmi_row 133 ''mknod'' 3, vmi_row 137 ''statfs'' 2, vmi_row 138 ''fstatfs'' 2,
    vmi_row 140 ''getpriority'' 2, vmi_row 141 ''setpriority'' 3, vmi_row 149 ''mlock'' 2,
    vmi_row 157 ''prctl'' 5, vmi_row 158 ''arch_prctl'' 3, vmi_row 160 ''setrlimit'' 2,
    vmi_row 161 ''chroot'' 1, vmi_row 162 ''sync'' 0, vmi_row 164 ''settimeofday'' 2,
    vmi_row 165 ''mount'' 5, vmi_row 166 ''umount2'' 2, vmi_row 170 ''sethostname'' 2,
    vmi_row 186 ''gettid'' 0, vmi_row 200 ''tkill'' 2, vmi_row 201 ''time'' 1,
    vmi_row 202 ''futex'' 6, vmi_row 203 ''sched_setaffinity'' 3,
    vmi_row 204 ''sched_getaffinity'' 3, vmi_row 213 ''epoll_create'' 1,
    vmi_row 217 ''getdents64'' 3, vmi_row 218 ''set_tid_address'' 1, vmi_row 221 ''fadvise64'' 4,
    vmi_row 222 ''timer_create'' 3, vmi_row 223 ''timer_settime'' 4,
    vmi_row 224 ''timer_gettime'' 2, vmi_row 225 ''timer_getoverrun'' 1,
    vmi_row 226 ''timer_delete'' 1, vmi_row 227 ''clock_settime'' 2,
    vmi_row 228 ''clock_gettime'' 2, vmi_row 229 ''clock_getres'' 2,
    vmi_row 230 ''clock_nanosleep'' 4, vmi_row 231 ''exit_group'' 1, vmi_row 232 ''epoll_wait'' 4,
    vmi_row 233 ''epoll_ctl'' 4, vmi_row 234 ''tgkill'' 3, vmi_row 235 ''utimes'' 2,
    vmi_row 247 ''waitid'' 5, vmi_row 257 ''openat'' 4, vmi_row 258 ''mkdirat'' 3,
    vmi_row 261 ''futimesat'' 3, vmi_row 262 ''newfstatat'' 4, vmi_row 263 ''unlinkat'' 3,
    vmi_row 264 ''renameat'' 4, vmi_row 267 ''readlinkat'' 4, vmi_row 269 ''faccessat'' 4,
    vmi_row 270 ''pselect6'' 6, vmi_row 271 ''ppoll'' 5, vmi_row 280 ''utimensat'' 4,
    vmi_row 281 ''epoll_pwait'' 6, vmi_row 283 ''timerfd_create'' 2, vmi_row 284 ''eventfd'' 1,
    vmi_row 285 ''fallocate'' 4, vmi_row 286 ''timerfd_settime'' 4,
    vmi_row 287 ''timerfd_gettime'' 2, vmi_row 288 ''accept4'' 4, vmi_row 290 ''eventfd2'' 2,
    vmi_row 291 ''epoll_create1'' 1, vmi_row 292 ''dup3'' 3, vmi_row 293 ''pipe2'' 2,
    vmi_row 295 ''preadv'' 4, vmi_row 296 ''pwritev'' 4, vmi_row 297 ''rt_tgsigqueueinfo'' 4,
    vmi_row 302 ''prlimit64'' 4, vmi_row 309 ''getcpu'' 3, vmi_row 318 ''getrandom'' 3,
    vmi_row 324 ''membarrier'' 3, vmi_row 327 ''preadv2'' 5, vmi_row 328 ''pwritev2'' 5,
    vmi_row 441 ''epoll_pwait2'' 6]"

definition vmi_syscall_table :: "VmiSyscallInfo list" where
  "vmi_syscall_table = vmi_table_low @ vmi_table_high"

text \<open>The \<open>while (lo < hi)\<close> loop of \<open>vmi_syscall_lookup\<close>.\<close>

function vmi_search :: "VmiSyscallInfo list \<Rightarrow> int \<Rightarrow> nat \<Rightarrow> nat \<Rightarrow> VmiSyscallInfo option" where
  "vmi_search tab n lo hi =
     (if lo < hi then
        (let mid = (lo + hi) div 2 in
         if info_nr (tab ! mid) = n then Some (tab ! mid)
         else if info_nr (tab ! mid) < n then vmi_search tab n (mid + 1) hi
         else vmi_search tab n lo mid)
      else None)"
  by pat_completeness auto
termination
  by (relation "measure (\<lambda>(tab, n, lo, hi). hi - lo)") auto

declare vmi_search.simps [simp del]

definition vmi_syscall_lookup :: "int \<Rightarrow> VmiSyscallInfo option" where
  "vmi_syscall_lookup n = vmi_search vmi_syscall_table n 0 (length vmi_syscall_table)"

text \<open>The \<open>(int)num\<close> of the caller: the low 32 bits, read as a signed integer.\<close>

definition c_int_of_u64 :: "u64 \<Rightarrow> int" where
  "c_int_of_u64 w = sint (ucast w :: 32 word)"

definition c_table_get :: "u64 \<Rightarrow> (string \<times> nat) option" where
  "c_table_get w =
     map_option (\<lambda>r. (info_name r, info_argc r)) (vmi_syscall_lookup (c_int_of_u64 w))"

subsection \<open>The search is right on every sorted table\<close>

definition sorted_rows :: "VmiSyscallInfo list \<Rightarrow> bool" where
  "sorted_rows tab \<longleftrightarrow> sorted_wrt (<) (map info_nr tab)"

lemma sorted_rows_nth_less:
  "sorted_rows tab \<Longrightarrow> i < j \<Longrightarrow> j < length tab \<Longrightarrow> info_nr (tab ! i) < info_nr (tab ! j)"
  by (auto simp: sorted_rows_def sorted_wrt_iff_nth_less)

lemma vmi_search_Some:
  assumes "vmi_search tab n lo hi = Some r" and "hi \<le> length tab"
  shows "\<exists>i. lo \<le> i \<and> i < hi \<and> tab ! i = r \<and> info_nr r = n"
  using assms
proof (induction tab n lo hi rule: vmi_search.induct)
  case (1 tab n lo hi)
  let ?m = "(lo + hi) div 2"
  from 1(3) have lohi: "lo < hi" by (subst (asm) vmi_search.simps) (auto split: if_splits)
  then have m: "lo \<le> ?m" "?m < hi" by auto
  consider "info_nr (tab ! ?m) = n" | "info_nr (tab ! ?m) < n" | "n < info_nr (tab ! ?m)"
    by linarith
  then show ?case
  proof cases
    case 1
    with "1.prems" lohi m show ?thesis
      by (intro exI [of _ ?m]) (simp add: vmi_search.simps [of tab n lo hi] Let_def)
  next
    case 2
    with "1.prems" lohi have "vmi_search tab n (?m + 1) hi = Some r"
      by (simp add: vmi_search.simps [of tab n lo hi] Let_def)
    with "1.IH"(1) [OF lohi refl] 2 "1.prems"(2)
    obtain i where "?m + 1 \<le> i" "i < hi" "tab ! i = r" "info_nr r = n" by auto
    with m show ?thesis by (intro exI [of _ i]) simp
  next
    case 3
    with "1.prems" lohi have "vmi_search tab n lo ?m = Some r"
      by (simp add: vmi_search.simps [of tab n lo hi] Let_def)
    with "1.IH"(2) [OF lohi refl] 3 "1.prems"(2) m
    obtain i where "lo \<le> i" "i < ?m" "tab ! i = r" "info_nr r = n" by auto
    with m show ?thesis by (intro exI [of _ i]) simp
  qed
qed

lemma vmi_search_finds:
  assumes "sorted_rows tab" "hi \<le> length tab" "lo \<le> i" "i < hi" "info_nr (tab ! i) = n"
  shows "vmi_search tab n lo hi = Some (tab ! i)"
  using assms
proof (induction tab n lo hi rule: vmi_search.induct)
  case (1 tab n lo hi)
  let ?m = "(lo + hi) div 2"
  from 1 have lohi: "lo < hi" by simp
  then have m: "lo \<le> ?m" "?m < hi" by auto
  consider "i = ?m" | "?m < i" | "i < ?m" by linarith
  then show ?case
  proof cases
    case 1
    with "1.prems" lohi show ?thesis by (simp add: vmi_search.simps [of tab n lo hi] Let_def)
  next
    case 2
    then have less: "info_nr (tab ! ?m) < n"
      using sorted_rows_nth_less [OF "1.prems"(1) 2] "1.prems" by simp
    with "1.IH"(1) [OF lohi refl] 2 "1.prems" have "vmi_search tab n (?m + 1) hi = Some (tab ! i)"
      by simp
    with less lohi show ?thesis by (simp add: vmi_search.simps [of tab n lo hi] Let_def)
  next
    case 3
    then have gt: "n < info_nr (tab ! ?m)"
      using sorted_rows_nth_less [OF "1.prems"(1) 3] "1.prems" m by simp
    with "1.IH"(2) [OF lohi refl] 3 "1.prems" m have "vmi_search tab n lo ?m = Some (tab ! i)"
      by simp
    with gt lohi show ?thesis by (simp add: vmi_search.simps [of tab n lo hi] Let_def)
  qed
qed

definition row_pair :: "VmiSyscallInfo \<Rightarrow> int \<times> string \<times> nat" where
  "row_pair r = (info_nr r, info_name r, info_argc r)"

lemma sorted_rows_distinct: "sorted_rows tab \<Longrightarrow> distinct (map info_nr tab)"
  unfolding sorted_rows_def using strict_sorted_iff by blast

lemma map_of_row_pair:
  assumes "distinct (map info_nr tab)"
  shows "i < length tab \<Longrightarrow> map_of (map row_pair tab) (info_nr (tab ! i)) =
    Some (info_name (tab ! i), info_argc (tab ! i))"
  using assms
  by (intro map_of_is_SomeI) (auto simp: row_pair_def comp_def in_set_conv_nth intro!: exI [of _ i])

text \<open>On a sorted table the search computes the association-list lookup.\<close>

lemma vmi_search_map_of:
  assumes "sorted_rows tab"
  shows "map_option (\<lambda>r. (info_name r, info_argc r)) (vmi_search tab n 0 (length tab)) =
    map_of (map row_pair tab) n"
proof (cases "\<exists>i < length tab. info_nr (tab ! i) = n")
  case True
  then obtain i where i: "i < length tab" "info_nr (tab ! i) = n" by auto
  with vmi_search_finds [OF assms order_refl, of 0 i n]
    map_of_row_pair [OF sorted_rows_distinct [OF assms] i(1)]
  show ?thesis by simp
next
  case False
  then have "vmi_search tab n 0 (length tab) = None"
    using vmi_search_Some [of tab n 0 "length tab"] by (cases "vmi_search tab n 0 (length tab)") auto
  moreover from False have "n \<notin> fst ` set (map row_pair tab)"
    by (auto simp: row_pair_def in_set_conv_nth image_iff)
  then have "map_of (map row_pair tab) n = None" by (rule map_of_eq_None_iff [THEN iffD2])
  ultimately show ?thesis by simp
qed

subsection \<open>The two tables\<close>

lemma sorted_vmi_syscall_table: "sorted_rows vmi_syscall_table"
  by (simp add: sorted_rows_def vmi_syscall_table_def vmi_table_low_def vmi_table_high_def
      vmi_row_def sorted_wrt2 sorted_wrt1 del: sorted_wrt.simps(2))

lemma row_pair_vmi_syscall_table: "map row_pair vmi_syscall_table = SYSCALL_TABLE"
  by (simp add: vmi_syscall_table_def SYSCALL_TABLE_def vmi_table_low_def vmi_table_high_def
      SYSCALL_TABLE_low_def SYSCALL_TABLE_high_def row_pair_def vmi_row_def)

lemma c_table_get_eq: "c_table_get w = py_table_get (c_int_of_u64 w)"
  using vmi_search_map_of [OF sorted_vmi_syscall_table, of "c_int_of_u64 w"]
  by (simp add: c_table_get_def vmi_syscall_lookup_def py_table_get_def row_pair_vmi_syscall_table)

text \<open>The characters of a syscall name: what needs no escape inside a JSON string.\<close>

definition name_char :: "char \<Rightarrow> bool" where
  "name_char c = (let n = of_char c :: nat in
     48 \<le> n \<and> n \<le> 57 \<or> 65 \<le> n \<and> n \<le> 90 \<or> 97 \<le> n \<and> n \<le> 122 \<or> n = 95 \<or> n = 45)"

definition row_ok :: "int \<times> string \<times> nat \<Rightarrow> bool" where
  "row_ok r = (0 \<le> fst r \<and> list_all name_char (fst (snd r)) \<and> snd (snd r) \<le> 6)"

lemma SYSCALL_TABLE_ok: "list_all row_ok SYSCALL_TABLE"
  by code_simp

lemma py_table_get_ok: "py_table_get n = Some (s, a) \<Longrightarrow> row_ok (n, s, a)"
  using SYSCALL_TABLE_ok map_of_SomeD [of SYSCALL_TABLE n "(s, a)"]
  by (auto simp: py_table_get_def list_all_iff)

section \<open>The interface of the event writers\<close>

text \<open>
  \<open>SYSCALL_TABLE.get(rax, (f"syscall_{rax}", 6))\<close> in \<open>monitor.py\<close>, and the
  same fallback (\<open>snprintf "syscall_%PRIu64"\<close>, \<open>argc = 6\<close>) in
  \<open>vmi_write_event\<close>: the name and the number of arguments to log.
\<close>

definition describe :: "('n \<Rightarrow> (string \<times> nat) option) \<Rightarrow> ('n \<Rightarrow> string) \<Rightarrow> 'n \<Rightarrow> string \<times> nat" where
  "describe lookup num n =
     (case lookup n of Some p \<Rightarrow> p | None \<Rightarrow> (''syscall_'' @ num n, 6))"

locale name_table =
  fixes lookup :: "'n \<Rightarrow> (string \<times> nat) option"
    and num :: "'n \<Rightarrow> string"
  assumes lookup_argc: "lookup n = Some (s, a) \<Longrightarrow> a \<le> 6"
    and lookup_name: "lookup n = Some (s, a) \<Longrightarrow> list_all name_char s"
    and num_name: "list_all name_char (num n)"
begin

lemma describe_argc: "snd (describe lookup num n) \<le> 6"
  using lookup_argc by (auto simp: describe_def split: option.splits)

lemma describe_name: "list_all name_char (fst (describe lookup num n))"
proof (cases "lookup n")
  case None
  have "list_all name_char ''syscall_''" by code_simp
  with None num_name show ?thesis by (simp add: describe_def)
next
  case (Some p)
  with lookup_name show ?thesis by (cases p) (simp add: describe_def)
qed

lemma args_logged: "length (take (snd (describe lookup num n)) args) \<le> 6"
  using describe_argc [of n] by simp

end

lemma digit_char_name_char: "d < 36 \<Longrightarrow> name_char (digit_char d)"
  by (auto simp: name_char_def digit_char_code Let_def)

lemma nat_digits_name_char: "2 \<le> b \<Longrightarrow> b \<le> 36 \<Longrightarrow> list_all name_char (nat_digits b n)"
  using nat_digits_digits [of b _ n] digit_char_name_char
  by (fastforce simp: list_all_iff)

lemma py_str_int_name_char: "list_all name_char (py_str_int i)"
  by (simp add: py_str_int_def nat_digits_name_char name_char_def)

interpretation py_names: name_table py_table_get py_str_int
  by unfold_locales (auto dest: py_table_get_ok simp: row_ok_def py_str_int_name_char)

interpretation c_names: name_table c_table_get c_udec
  by unfold_locales
    (auto dest: py_table_get_ok simp: row_ok_def c_table_get_eq c_udec_def nat_digits_name_char)

end
