(* ===== verification/Json.thy ===== *)
theory Json
  imports Py_Text
begin

text \<open>
  The part of Python's \<open>json\<close> module the tools rest on: \<open>json.dumps\<close>
  with its default separators, and \<open>json.loads\<close>. A float is kept as the decimal
  numeral of its text (\<open>JDec m k\<close> is $m \cdot 10^{-k}$): the tools print floats and
  read them back but compute nothing from them that the properties need. Characters are
  code points up to U+00FF; a \<open>\u\<close> escape beyond is outside the model.
\<close>

section \<open>Values\<close>

datatype json =
    JNull
  | JBool bool
  | JInt int
  | JDec int nat
  | JSpecial string
  | JStr string
  | JArr "json list"
  | JObj "(string \<times> json) list"

text \<open>\<open>d.get(key)\<close> on the parsed dictionary: of equal keys the last one counts.\<close>

definition jget :: "(string \<times> json) list \<Rightarrow> string \<Rightarrow> json option" where
  "jget kvs k = map_of (rev kvs) k"

text \<open>Python's truth value of a parsed document.\<close>

fun json_truthy :: "json \<Rightarrow> bool" where
  "json_truthy JNull = False"
| "json_truthy (JBool b) = b"
| "json_truthy (JInt i) = (i \<noteq> 0)"
| "json_truthy (JDec m k) = (m \<noteq> 0)"
| "json_truthy (JSpecial s) = True"
| "json_truthy (JStr s) = (s \<noteq> [])"
| "json_truthy (JArr xs) = (xs \<noteq> [])"
| "json_truthy (JObj kvs) = (kvs \<noteq> [])"

section \<open>Rendering: \<open>json.dumps\<close>\<close>

definition quote :: char where
  "quote = CHR 0x22"

definition backslash :: char where
  "backslash = CHR 0x5C"

definition escape_char :: "char \<Rightarrow> string" where
  "escape_char c =
     (if c = quote then [backslash, quote]
      else if c = backslash then [backslash, backslash]
      else if c = CHR 0x0A then [backslash, CHR ''n'']
      else if c = CHR 0x0D then [backslash, CHR ''r'']
      else if c = CHR 0x09 then [backslash, CHR ''t'']
      else if c = CHR 0x0C then [backslash, CHR ''f'']
      else if c = CHR 0x08 then [backslash, CHR ''b'']
      else let n = of_char c :: nat in
        if 32 \<le> n \<and> n \<le> 126 then [c]
        else backslash # ''u00'' @ [digit_char (n div 16), digit_char (n mod 16)])"

definition json_str :: "string \<Rightarrow> string" where
  "json_str s = quote # concat (map escape_char s) @ [quote]"

definition dec_text :: "int \<Rightarrow> nat \<Rightarrow> string" where
  "dec_text m k =
     (if m < 0 then ''-'' else []) @ nat_digits 10 (nat \<bar>m\<bar> div 10 ^ k) @ ''.'' @
     (let f = nat_digits 10 (nat \<bar>m\<bar> mod 10 ^ k) in replicate (k - length f) (CHR ''0'') @ f)"

fun json_dumps :: "json \<Rightarrow> string" where
  "json_dumps JNull = ''null''"
| "json_dumps (JBool b) = (if b then ''true'' else ''false'')"
| "json_dumps (JInt i) = py_str_int i"
| "json_dumps (JDec m k) = dec_text m k"
| "json_dumps (JSpecial s) = s"
| "json_dumps (JStr s) = json_str s"
| "json_dumps (JArr xs) = ''['' @ join '', '' (map json_dumps xs) @ '']''"
| "json_dumps (JObj kvs) =
     ''{'' @ join '', '' (map (\<lambda>(k, v). json_str k @ '': '' @ json_dumps v) kvs) @ ''}''"

section \<open>Reading: \<open>json.loads\<close>\<close>

definition json_ws :: "char \<Rightarrow> bool" where
  "json_ws c = (c = CHR '' '' \<or> c = CHR 0x09 \<or> c = CHR 0x0A \<or> c = CHR 0x0D)"

definition skip_ws :: "string \<Rightarrow> string" where
  "skip_ws s = dropWhile json_ws s"

definition is_digit :: "char \<Rightarrow> bool" where
  "is_digit c = (let n = of_char c :: nat in 48 \<le> n \<and> n \<le> 57)"

definition json_unescape :: "char \<Rightarrow> char option" where
  "json_unescape e =
     (if e = quote then Some quote else if e = backslash then Some backslash
      else if e = CHR ''/'' then Some (CHR ''/'')
      else if e = CHR ''b'' then Some (CHR 0x08) else if e = CHR ''f'' then Some (CHR 0x0C)
      else if e = CHR ''n'' then Some (CHR 0x0A) else if e = CHR ''r'' then Some (CHR 0x0D)
      else if e = CHR ''t'' then Some (CHR 0x09) else None)"

definition hex4 :: "char \<Rightarrow> char \<Rightarrow> char \<Rightarrow> char \<Rightarrow> nat option" where
  "hex4 a b c d =
     (case (digit_in 16 a, digit_in 16 b, digit_in 16 c, digit_in 16 d) of
        (Some x, Some y, Some z, Some w) \<Rightarrow> Some (((x * 16 + y) * 16 + z) * 16 + w)
      | _ \<Rightarrow> None)"

definition cons_fst :: "'a \<Rightarrow> ('a list \<times> 'b) option \<Rightarrow> ('a list \<times> 'b) option" where
  "cons_fst x r = (case r of None \<Rightarrow> None | Some (xs, y) \<Rightarrow> Some (x # xs, y))"

text \<open>The rest of a string literal after its opening quote (strict mode).\<close>

fun scan_str :: "string \<Rightarrow> (string \<times> string) option" where
  "scan_str [] = None"
| "scan_str (c # cs) =
     (if c = quote then Some ([], cs)
      else if c = backslash then
        (case cs of
           [] \<Rightarrow> None
         | e # ds \<Rightarrow>
             if e = CHR ''u'' then
               (case ds of
                  h1 # h2 # h3 # h4 # rest \<Rightarrow>
                    (case hex4 h1 h2 h3 h4 of
                       None \<Rightarrow> None
                     | Some n \<Rightarrow> if n < 256 then cons_fst (char_of n) (scan_str rest) else None)
                | _ \<Rightarrow> None)
             else (case json_unescape e of None \<Rightarrow> None | Some d \<Rightarrow> cons_fst d (scan_str ds)))
      else if (of_char c :: nat) < 32 then None
      else cons_fst c (scan_str cs))"

text \<open>
  A number: an integer part without superfluous leading zero, then optionally a fraction
  and an exponent, each taken only when at least one digit follows.
\<close>

definition scan_int_part :: "string \<Rightarrow> (string \<times> string) option" where
  "scan_int_part s = (case s of
     [] \<Rightarrow> None
   | c # cs \<Rightarrow> if c = CHR ''0'' then Some ([c], cs)
       else if is_digit c then Some (takeWhile is_digit s, dropWhile is_digit s) else None)"

definition scan_frac :: "string \<Rightarrow> string \<times> string" where
  "scan_frac s = (case s of
     p # d # cs \<Rightarrow> if p = CHR ''.'' \<and> is_digit d
       then (takeWhile is_digit (d # cs), dropWhile is_digit (d # cs)) else ([], s)
   | _ \<Rightarrow> ([], s))"

definition scan_exp :: "string \<Rightarrow> (int option) \<times> string" where
  "scan_exp s = (case s of
     e # cs \<Rightarrow> if e = CHR ''e'' \<or> e = CHR ''E'' then
         (let (sg, ds) = take_sign cs in
          if takeWhile is_digit ds \<noteq> []
          then (Some (sg * int (digits_val 10 (takeWhile is_digit ds))), dropWhile is_digit ds)
          else (None, s))
       else (None, s)
   | [] \<Rightarrow> (None, s))"

definition json_number :: "string \<Rightarrow> (json \<times> string) option" where
  "json_number s =
     (let neg = (s \<noteq> [] \<and> hd s = CHR ''-''); sg = (if neg then - 1 else 1 :: int) in
      case scan_int_part (if neg then tl s else s) of
        None \<Rightarrow> None
      | Some (ip, s1) \<Rightarrow>
          (let (fr, s2) = scan_frac s1; (ex, s3) = scan_exp s2 in
           if fr = [] \<and> ex = None then Some (JInt (sg * int (digits_val 10 ip)), s3)
           else
             (let m = sg * int (digits_val 10 (ip @ fr));
                  e = (case ex of None \<Rightarrow> 0 | Some e \<Rightarrow> e) - int (length fr)
              in Some (if 0 \<le> e then JDec (m * 10 ^ nat e) 0 else JDec m (nat (- e)), s3))))"

text \<open>Drops a given word from the front of the text.\<close>

fun eat :: "string \<Rightarrow> string \<Rightarrow> string option" where
  "eat [] s = Some s"
| "eat (p # ps) [] = None"
| "eat (p # ps) (c # cs) = (if p = c then eat ps cs else None)"

definition json_word :: "string \<Rightarrow> (json \<times> string) option" where
  "json_word s =
     (case eat ''null'' s of Some r \<Rightarrow> Some (JNull, r) | None \<Rightarrow>
     (case eat ''true'' s of Some r \<Rightarrow> Some (JBool True, r) | None \<Rightarrow>
     (case eat ''false'' s of Some r \<Rightarrow> Some (JBool False, r) | None \<Rightarrow>
     (case eat ''NaN'' s of Some r \<Rightarrow> Some (JSpecial ''NaN'', r) | None \<Rightarrow>
     (case eat ''Infinity'' s of Some r \<Rightarrow> Some (JSpecial ''Infinity'', r) | None \<Rightarrow>
     (case eat ''-Infinity'' s of Some r \<Rightarrow> Some (JSpecial ''-Infinity'', r) | None \<Rightarrow>
      json_number s))))))"

text \<open>
  The scanner. The first argument is fuel, one unit per nesting level or list element;
  \<open>json_loads\<close> gives it one more than the length of the text, and every call consumes
  a character before it recurs.
\<close>

fun json_value :: "nat \<Rightarrow> string \<Rightarrow> (json \<times> string) option"
and json_elems :: "nat \<Rightarrow> string \<Rightarrow> (json list \<times> string) option"
and json_members :: "nat \<Rightarrow> string \<Rightarrow> ((string \<times> json) list \<times> string) option" where
  "json_value 0 s = None"
| "json_value (Suc f) s = (case s of
     [] \<Rightarrow> None
   | c # cs \<Rightarrow>
       if c = quote then map_option (apfst JStr) (scan_str cs)
       else if c = CHR ''['' then
         (case skip_ws cs of
            [] \<Rightarrow> None
          | d # ds \<Rightarrow> if d = CHR '']'' then Some (JArr [], ds)
              else map_option (apfst JArr) (json_elems f (d # ds)))
       else if c = CHR ''{'' then
         (case skip_ws cs of
            [] \<Rightarrow> None
          | d # ds \<Rightarrow> if d = CHR ''}'' then Some (JObj [], ds)
              else map_option (apfst JObj) (json_members f (d # ds)))
       else json_word s)"
| "json_elems 0 s = None"
| "json_elems (Suc f) s = (case json_value f s of
     None \<Rightarrow> None
   | Some (v, r) \<Rightarrow> (case skip_ws r of
       [] \<Rightarrow> None
     | d # ds \<Rightarrow> if d = CHR '']'' then Some ([v], ds)
         else if d = CHR '','' then cons_fst v (json_elems f (skip_ws ds))
         else None))"
| "json_members 0 s = None"
| "json_members (Suc f) s = (case s of
     [] \<Rightarrow> None
   | c # cs \<Rightarrow> if c \<noteq> quote then None else (case scan_str cs of
       None \<Rightarrow> None
     | Some (k, r) \<Rightarrow> (case skip_ws r of
         [] \<Rightarrow> None
       | d # ds \<Rightarrow> if d \<noteq> CHR '':'' then None else (case json_value f (skip_ws ds) of
           None \<Rightarrow> None
         | Some (v, r') \<Rightarrow> (case skip_ws r' of
             [] \<Rightarrow> None
           | e # es \<Rightarrow> if e = CHR ''}'' then Some ([(k, v)], es)
               else if e = CHR '','' then cons_fst (k, v) (json_members f (skip_ws es))
               else None)))))"

definition json_loads :: "string \<Rightarrow> json result" where
  "json_loads s = (case json_value (Suc (length s)) (skip_ws s) of
     None \<Rightarrow> Inl JSONDecodeError
   | Some (v, r) \<Rightarrow> if skip_ws r = [] then Inr v else Inl JSONDecodeError)"

section \<open>Reading back what was rendered\<close>

lemma scan_str_escape_char:
  "scan_str (escape_char c @ t) = cons_fst c (scan_str t)"
proof -
  let ?n = "of_char c :: nat"
  have small: "?n < 256" by simp
  show ?thesis
  proof (cases "c = quote \<or> c = backslash \<or> c = CHR 0x0A \<or> c = CHR 0x0D \<or> c = CHR 0x09
      \<or> c = CHR 0x0C \<or> c = CHR 0x08")
    case True
    then show ?thesis
      by (elim disjE) (simp_all add: escape_char_def json_unescape_def quote_def backslash_def)
  next
    case no_short: False
    show ?thesis
    proof (cases "32 \<le> ?n \<and> ?n \<le> 126")
      case True
      with no_short show ?thesis by (simp add: escape_char_def)
    next
      case False
      have "hex4 (CHR ''0'') (CHR ''0'') (digit_char (?n div 16)) (digit_char (?n mod 16))
          = Some ?n"
      proof -
        have "digit_in 16 (CHR ''0'') = Some 0" by code_simp
        moreover have "?n div 16 < 16" "?n mod 16 < 16"
          using small by (simp_all add: div_less_iff_less_mult)
        ultimately show ?thesis by (simp add: hex4_def digit_in_digit_char)
      qed
      with False no_short small show ?thesis
        by (auto simp: escape_char_def Let_def backslash_def quote_def)
    qed
  qed
qed

lemma scan_str_json_str:
  "scan_str (concat (map escape_char s) @ quote # rest) = Some (s, rest)"
proof (induction s)
  case (Cons c s)
  then show ?case by (simp add: scan_str_escape_char cons_fst_def)
qed simp

text \<open>What may follow a number so that the number ends there.\<close>

definition ends_number :: "string \<Rightarrow> bool" where
  "ends_number r = (case r of [] \<Rightarrow> True | c # _ \<Rightarrow>
     \<not> is_digit c \<and> c \<noteq> CHR ''.'' \<and> c \<noteq> CHR ''e'' \<and> c \<noteq> CHR ''E'')"

lemma is_digit_digit_char: "d < 10 \<Longrightarrow> is_digit (digit_char d)"
  by (simp add: is_digit_def digit_char_code Let_def)

lemma nat_digits_is_digit: "c \<in> set (nat_digits 10 n) \<Longrightarrow> is_digit c"
  using nat_digits_digits [of 10 c n] is_digit_digit_char by auto

lemma takeWhile_digits:
  assumes "\<forall>c \<in> set ds. is_digit c" and "r = [] \<or> \<not> is_digit (hd r)"
  shows "takeWhile is_digit (ds @ r) = ds" and "dropWhile is_digit (ds @ r) = r"
  using assms by (cases r; simp add: takeWhile_append dropWhile_append)+

lemma ends_number_hd: "ends_number r \<Longrightarrow> r = [] \<or> \<not> is_digit (hd r)"
  by (cases r) (auto simp: ends_number_def)

lemma digit_char_zero: "digit_char 0 = CHR ''0''"
  by code_simp

lemma nat_digits_zero: "2 \<le> b \<Longrightarrow> nat_digits b 0 = [CHR ''0'']"
  by (subst nat_digits.simps) (simp add: digit_char_zero)

lemma scan_int_part_nat_digits:
  assumes "r = [] \<or> \<not> is_digit (hd r)"
  shows "scan_int_part (nat_digits 10 n @ r) = Some (nat_digits 10 n, r)"
proof (cases "n = 0")
  case True
  then show ?thesis by (simp add: scan_int_part_def nat_digits_zero)
next
  case False
  then obtain d where d: "0 < d" "d < 10" "hd (nat_digits 10 n) = digit_char d"
    using hd_nat_digits [of 10 n] by auto
  obtain c cs where cs: "nat_digits 10 n = c # cs" by (cases "nat_digits 10 n") auto
  have "c \<noteq> CHR ''0''" using d cs by (auto simp: digit_char_eq_iff)
  moreover have "is_digit c" using nat_digits_is_digit [of c n] by (simp add: cs)
  moreover have "\<forall>x \<in> set (c # cs). is_digit x"
    using nat_digits_is_digit [of _ n] unfolding cs by blast
  ultimately show ?thesis
    using takeWhile_digits [of "c # cs" r] assms by (simp add: scan_int_part_def cs)
qed

lemma ends_number_scans:
  "ends_number r \<Longrightarrow> scan_frac r = ([], r)" "ends_number r \<Longrightarrow> scan_exp r = (None, r)"
  by (auto simp: ends_number_def scan_frac_def scan_exp_def split: list.splits)

lemma hd_nat_digits_not_minus: "2 \<le> b \<Longrightarrow> b \<le> 36 \<Longrightarrow> hd (nat_digits b n @ r) \<noteq> CHR ''-''"
  using nat_digits_Cons [of b n] by (cases "nat_digits b n") auto

lemma json_number_int:
  assumes "ends_number r"
  shows "json_number (py_str_int i @ r) = Some (JInt i, r)"
  using assms hd_nat_digits_not_minus [of 10 "nat i" r]
  by (simp add: json_number_def py_str_int_def scan_int_part_nat_digits ends_number_hd
      ends_number_scans digits_val_nat_digits)

lemma digits_val_append:
  "digits_val b (xs @ ys) = digits_val b xs * b ^ length ys + digits_val b ys"
proof (induction ys rule: rev_induct)
  case (snoc y ys)
  then show ?case by (simp add: digits_val_def algebra_simps)
qed (simp add: digits_val_def)

lemma digits_val_zeros:
  assumes "0 < b"
  shows "digits_val b (replicate n (CHR ''0'') @ ds) = digits_val b ds"
proof (induction n)
  case (Suc n)
  have "digit_value (CHR ''0'') = Some 0" by code_simp
  with assms have "digit_in b (CHR ''0'') = Some 0" by (simp add: digit_in_def)
  with Suc show ?case by (simp add: digits_val_def)
qed simp

lemma length_nat_digits_less: "m < 10 ^ k \<Longrightarrow> 0 < k \<Longrightarrow> length (nat_digits 10 m) \<le> k"
proof (induction k arbitrary: m)
  case (Suc k)
  show ?case
  proof (cases "m < 10")
    case True
    then show ?thesis by (subst nat_digits.simps) simp
  next
    case False
    with Suc.prems have "m div 10 < 10 ^ k" and "0 < k" by (cases k; auto)+
    with Suc.IH False show ?thesis by (subst nat_digits.simps) simp
  qed
qed simp

text \<open>The fraction part of a rendered decimal: exactly \<open>k\<close> digits.\<close>

definition frac_digits :: "nat \<Rightarrow> nat \<Rightarrow> string" where
  "frac_digits k n = replicate (k - length (nat_digits 10 n)) (CHR ''0'') @ nat_digits 10 n"

lemma frac_digits:
  assumes "n < 10 ^ k" "0 < k"
  shows "length (frac_digits k n) = k" "\<forall>c \<in> set (frac_digits k n). is_digit c"
    "digits_val 10 (frac_digits k n) = n" "frac_digits k n \<noteq> []"
proof -
  show len: "length (frac_digits k n) = k"
    using length_nat_digits_less [OF assms] by (simp add: frac_digits_def)
  have "is_digit (CHR ''0'')" by code_simp
  then show "\<forall>c \<in> set (frac_digits k n). is_digit c"
    by (auto simp: frac_digits_def nat_digits_is_digit)
  show "digits_val 10 (frac_digits k n) = n"
    by (simp add: frac_digits_def digits_val_zeros digits_val_nat_digits)
  show "frac_digits k n \<noteq> []" using len assms(2) by auto
qed

lemma scan_frac_point:
  assumes "\<forall>c \<in> set ds. is_digit c" "ds \<noteq> []" "ends_number r"
  shows "scan_frac (CHR ''.'' # ds @ r) = (ds, r)"
  using assms takeWhile_digits [OF assms(1) ends_number_hd [OF assms(3)]]
  by (cases ds) (auto simp: scan_frac_def)

lemma json_number_parts:
  assumes fr: "\<forall>c \<in> set fr. is_digit c" "fr \<noteq> []" and r: "ends_number r"
  shows "json_number ((if neg then ''-'' else []) @ nat_digits 10 i @ CHR ''.'' # fr @ r) =
    Some (JDec ((if neg then - 1 else 1) * int (digits_val 10 (nat_digits 10 i @ fr))) (length fr), r)"
proof -
  have "\<not> is_digit (CHR ''.'')" by code_simp
  then have "scan_int_part (nat_digits 10 i @ CHR ''.'' # fr @ r)
      = Some (nat_digits 10 i, CHR ''.'' # fr @ r)"
    by (intro scan_int_part_nat_digits) simp
  then show ?thesis
    using hd_nat_digits_not_minus [of 10 i "CHR ''.'' # fr @ r"] fr(2)
    by (simp add: json_number_def scan_frac_point [OF fr r] ends_number_scans [OF r])
qed

lemma json_number_dec:
  assumes "0 < k" "ends_number r"
  shows "json_number (dec_text m k @ r) = Some (JDec m k, r)"
proof -
  define i f where "i = nat \<bar>m\<bar> div 10 ^ k" and "f = nat \<bar>m\<bar> mod 10 ^ k"
  then have "f < 10 ^ k" by simp
  note fr = frac_digits [OF this assms(1)]
  have sum: "i * 10 ^ k + f = nat \<bar>m\<bar>" by (simp only: i_def f_def div_mult_mod_eq)
  have "digits_val 10 (nat_digits 10 i @ frac_digits k f) = nat \<bar>m\<bar>"
    by (simp add: digits_val_append fr(1,3) digits_val_nat_digits sum)
  then have "(if m < 0 then - 1 else 1) * int (digits_val 10 (nat_digits 10 i @ frac_digits k f)) = m"
    by simp
  moreover have "dec_text m k @ r
      = (if m < 0 then ''-'' else []) @ nat_digits 10 i @ CHR ''.'' # frac_digits k f @ r"
    by (simp add: dec_text_def frac_digits_def i_def f_def Let_def)
  ultimately show ?thesis
    using json_number_parts [OF fr(2,4) assms(2), of "m < 0" i] fr(1) by simp
qed

subsection \<open>Documents\<close>

text \<open>
  The documents \<open>json.dumps\<close> renders without loss: a float has at least one digit
  after the point (as \<open>repr\<close> gives it), and the special floats are the three names.
\<close>

fun json_ok :: "json \<Rightarrow> bool" where
  "json_ok (JDec m k) = (0 < k)"
| "json_ok (JSpecial s) = (s \<in> {''NaN'', ''Infinity'', ''-Infinity''})"
| "json_ok (JArr xs) = list_all json_ok xs"
| "json_ok (JObj kvs) = list_all (\<lambda>(k, v). json_ok v) kvs"
| "json_ok _ = True"

text \<open>The fuel a document needs.\<close>

fun json_fuel :: "json \<Rightarrow> nat" where
  "json_fuel (JArr xs) = Suc (sum_list (map (\<lambda>x. Suc (json_fuel x)) xs))"
| "json_fuel (JObj kvs) = Suc (sum_list (map (\<lambda>(k, v). Suc (json_fuel v)) kvs))"
| "json_fuel _ = 1"

lemma length_join: "length (join sep xs) = sum_list (map length xs) + (length xs - 1) * length sep"
  by (induction sep xs rule: join.induct) (simp_all add: algebra_simps)

lemma length_dec_text: "0 < length (dec_text m k)"
  by (simp add: dec_text_def Let_def)

lemma sum_list_Suc_mono:
  "(\<And>x. x \<in> set xs \<Longrightarrow> f x \<le> g x) \<Longrightarrow>
   sum_list (map (\<lambda>x. Suc (f x)) xs) \<le> sum_list (map g xs) + length xs" for f g :: "'a \<Rightarrow> nat"
proof (induction xs)
  case (Cons x xs)
  then have "f x \<le> g x"
    and "sum_list (map (\<lambda>x. Suc (f x)) xs) \<le> sum_list (map g xs) + length xs" by simp_all
  then show ?case by simp
qed simp

lemma length_str_bounds: "0 < length (json_str s)" "0 < length (py_str_int i)"
  by (simp_all add: json_str_def py_str_int_def)

lemma json_fuel_le: "json_ok j \<Longrightarrow> json_fuel j \<le> length (json_dumps j)"
proof (induction j rule: json_fuel.induct)
  case (1 xs)
  have "sum_list (map (\<lambda>x. Suc (json_fuel x)) xs)
      \<le> sum_list (map (\<lambda>x. length (json_dumps x)) xs) + length xs"
    using 1 by (intro sum_list_Suc_mono) (simp add: list_all_iff)
  then show ?case by (cases xs) (simp_all add: length_join comp_def)
next
  case (2 kvs)
  let ?g = "\<lambda>(k, v). length (json_str k @ '': '' @ json_dumps v)"
  have "sum_list (map (\<lambda>x. Suc (json_fuel (snd x))) kvs) \<le> sum_list (map ?g kvs) + length kvs"
    using 2 by (intro sum_list_Suc_mono) (fastforce simp: list_all_iff)
  then show ?case
    by (cases kvs) (simp_all add: length_join comp_def case_prod_unfold)
qed (use length_str_bounds length_dec_text in \<open>auto simp: Suc_le_eq\<close>)

lemma json_word_eat:
  "json_word (''null'' @ r) = Some (JNull, r)"
  "json_word (''true'' @ r) = Some (JBool True, r)"
  "json_word (''false'' @ r) = Some (JBool False, r)"
  "json_word (''NaN'' @ r) = Some (JSpecial ''NaN'', r)"
  "json_word (''Infinity'' @ r) = Some (JSpecial ''Infinity'', r)"
  "json_word (''-Infinity'' @ r) = Some (JSpecial ''-Infinity'', r)"
  by (simp_all add: json_word_def)

text \<open>A text that starts like a number is scanned as one.\<close>

definition starts_number :: "string \<Rightarrow> bool" where
  "starts_number s = (case s of [] \<Rightarrow> False
     | c # cs \<Rightarrow> is_digit c \<or> c = CHR ''-'' \<and> (case cs of [] \<Rightarrow> False | d # _ \<Rightarrow> is_digit d))"

lemma not_digit_letters:
  "\<not> is_digit (CHR ''n'')" "\<not> is_digit (CHR ''t'')" "\<not> is_digit (CHR ''f'')" "\<not> is_digit (CHR ''N'')"
  "\<not> is_digit (CHR ''I'')" "\<not> is_digit (CHR ''-'')" "\<not> is_digit (CHR ''['')" "\<not> is_digit (CHR ''{'')"
  "\<not> is_digit quote" "\<not> is_digit (CHR '']'')" "\<not> is_digit (CHR ''}'')" "\<not> is_digit (CHR '','')"
  by code_simp+

lemma starts_number_word:
  assumes "starts_number s"
  shows "json_word s = json_number s"
proof -
  obtain c cs where s: "s = c # cs" using assms by (cases s) (auto simp: starts_number_def)
  with assms consider "is_digit c" | d ds where "c = CHR ''-''" "cs = d # ds" "is_digit d"
    by (auto simp: starts_number_def split: list.splits)
  then show ?thesis
  proof cases
    case 1
    then have "c \<noteq> CHR ''n''" "c \<noteq> CHR ''t''" "c \<noteq> CHR ''f''" "c \<noteq> CHR ''N''" "c \<noteq> CHR ''I''"
      "c \<noteq> CHR ''-''" using not_digit_letters by auto
    then show ?thesis by (simp add: json_word_def s)
  next
    case 2
    then have "d \<noteq> CHR ''I''" using not_digit_letters by auto
    with 2 show ?thesis by (simp add: json_word_def s)
  qed
qed

lemma starts_number_texts:
  "starts_number (py_str_int i @ r)" "starts_number (dec_text m k @ r)"
proof -
  have dig: "\<exists>c cs. nat_digits 10 n = c # cs \<and> is_digit c" for n
    using nat_digits_is_digit [of _ n] by (cases "nat_digits 10 n") auto
  show "starts_number (py_str_int i @ r)"
    using dig [of "nat \<bar>i\<bar>"] by (auto simp: starts_number_def py_str_int_def)
  show "starts_number (dec_text m k @ r)"
    using dig [of "nat \<bar>m\<bar> div 10 ^ k"] by (auto simp: starts_number_def dec_text_def Let_def)
qed

lemma starts_number_value:
  "starts_number s \<Longrightarrow> json_value (Suc f) s = json_number s"
proof -
  assume "starts_number s"
  moreover then obtain c cs where "s = c # cs" "c \<noteq> quote" "c \<noteq> CHR ''[''" "c \<noteq> CHR ''{''"
    using not_digit_letters by (auto simp: starts_number_def quote_def split: list.splits)
  ultimately show ?thesis by (simp add: starts_number_word)
qed

lemma ends_number_bracket [simp]:
  "ends_number (CHR '','' # r)" "ends_number (CHR '']'' # r)" "ends_number (CHR ''}'' # r)"
  "ends_number []" "ends_number (CHR 0x0A # r)"
  by (simp_all add: ends_number_def is_digit_def Let_def)

lemma skip_ws_simps [simp]:
  "skip_ws [] = []"
  "skip_ws (c # cs) = (if json_ws c then skip_ws cs else c # cs)"
  by (simp_all add: skip_ws_def)

lemma json_ws_simps [simp]:
  "json_ws (CHR '' '')" "\<not> json_ws quote" "\<not> json_ws (CHR '','')" "\<not> json_ws (CHR '':'')"
  "\<not> json_ws (CHR '']'')" "\<not> json_ws (CHR ''}'')" "\<not> json_ws (CHR ''['')" "\<not> json_ws (CHR ''{'')"
  "\<not> json_ws (CHR ''-'')" "\<not> json_ws (CHR ''n'')" "\<not> json_ws (CHR ''t'')" "\<not> json_ws (CHR ''f'')"
  "\<not> json_ws (CHR ''N'')" "\<not> json_ws (CHR ''I'')" "json_ws (CHR 0x0A)"
  by (simp_all add: json_ws_def quote_def)

lemma not_ws_digit: "is_digit c \<Longrightarrow> \<not> json_ws c"
  by (auto simp: is_digit_def json_ws_def Let_def)

lemma starts_number_not_ws: "starts_number s \<Longrightarrow> skip_ws s = s"
  by (auto simp: starts_number_def not_ws_digit split: list.splits)

text \<open>A rendered document starts with no blank and with none of the closing brackets.\<close>

lemma json_dumps_start:
  assumes "json_ok j"
  shows "skip_ws (json_dumps j @ r) = json_dumps j @ r"
    and "\<exists>c cs. json_dumps j @ r = c # cs \<and> c \<noteq> CHR '']'' \<and> c \<noteq> CHR ''}''"
proof -
  have num: "\<exists>c cs. s = c # cs \<and> c \<noteq> CHR '']'' \<and> c \<noteq> CHR ''}''" if "starts_number s" for s
    using that not_digit_letters by (auto simp: starts_number_def split: list.splits)
  show "skip_ws (json_dumps j @ r) = json_dumps j @ r"
    using assms starts_number_texts [THEN starts_number_not_ws]
    by (cases j) (auto simp: json_str_def)
  show "\<exists>c cs. json_dumps j @ r = c # cs \<and> c \<noteq> CHR '']'' \<and> c \<noteq> CHR ''}''"
    using assms starts_number_texts [THEN num]
    by (cases j) (auto simp: json_str_def quote_def)
qed

lemma json_value_str: "json_value (Suc f) (json_str s @ r) = Some (JStr s, r)"
  by (simp add: json_str_def scan_str_json_str)

text \<open>Elements and members, given that the fuel suffices for each of them.\<close>

lemma json_elems_join:
  assumes "xs \<noteq> []"
    and "\<And>x f r. x \<in> set xs \<Longrightarrow> json_fuel x \<le> f \<Longrightarrow> ends_number r \<Longrightarrow>
           json_value f (json_dumps x @ r) = Some (x, r)"
    and "\<And>x. x \<in> set xs \<Longrightarrow> json_ok x"
    and "sum_list (map (\<lambda>x. Suc (json_fuel x)) xs) \<le> f"
  shows "json_elems f (join '', '' (map json_dumps xs) @ CHR '']'' # r) = Some (xs, r)"
  using assms
proof (induction xs arbitrary: f)
  case (Cons x xs)
  then obtain g where g: "f = Suc g" by (cases f) auto
  with Cons.prems(4) have fuel: "json_fuel x \<le> g"
    "sum_list (map (\<lambda>x. Suc (json_fuel x)) xs) \<le> g" by auto
  note val = Cons.prems(2) [of x g, OF _ fuel(1)]
  show ?case
  proof (cases xs)
    case Nil
    with val show ?thesis by (simp add: g)
  next
    case (Cons y ys)
    have "json_elems g (join '', '' (map json_dumps xs) @ CHR '']'' # r) = Some (xs, r)"
      using Cons.prems(2,3) Cons fuel(2) by (intro Cons.IH) auto
    moreover have "skip_ws (join '', '' (map json_dumps xs) @ CHR '']'' # r)
        = join '', '' (map json_dumps xs) @ CHR '']'' # r"
      using Cons Cons.prems(3) [of y] by (cases ys) (simp_all add: json_dumps_start(1))
    ultimately show ?thesis using val Cons by (simp add: g cons_fst_def)
  qed
qed simp

definition member_text :: "string \<times> json \<Rightarrow> string" where
  "member_text kv = json_str (fst kv) @ '': '' @ json_dumps (snd kv)"

lemma json_dumps_JObj:
  "json_dumps (JObj kvs) = ''{'' @ join '', '' (map member_text kvs) @ ''}''"
proof -
  have "(\<lambda>(k, v). json_str k @ '': '' @ json_dumps v) = member_text"
    by (simp add: fun_eq_iff member_text_def)
  then show ?thesis by (simp only: json_dumps.simps)
qed

lemma quote_neq [simp]:
  "CHR ''{'' \<noteq> quote" "CHR ''['' \<noteq> quote" "quote \<noteq> CHR ''}''" "quote \<noteq> CHR '']''"
  by (simp_all add: quote_def)

lemma member_text_scan:
  "\<exists>cs. member_text kv @ r = quote # cs \<and>
     scan_str cs = Some (fst kv, CHR '':'' # CHR '' '' # json_dumps (snd kv) @ r)"
  by (simp add: member_text_def json_str_def scan_str_json_str)

lemma json_members_join:
  assumes "kvs \<noteq> []"
    and "\<And>k v f r. (k, v) \<in> set kvs \<Longrightarrow> json_fuel v \<le> f \<Longrightarrow> ends_number r \<Longrightarrow>
           json_value f (json_dumps v @ r) = Some (v, r)"
    and "\<And>k v. (k, v) \<in> set kvs \<Longrightarrow> json_ok v"
    and "sum_list (map (\<lambda>(k, v). Suc (json_fuel v)) kvs) \<le> f"
  shows "json_members f (join '', '' (map member_text kvs) @ CHR ''}'' # r) = Some (kvs, r)"
  using assms
proof (induction kvs arbitrary: f)
  case (Cons kv kvs)
  obtain k v where kv: "kv = (k, v)" by (cases kv)
  with Cons.prems(4) obtain g where g: "f = Suc g" by (cases f) auto
  with Cons.prems(4) kv have fuel: "json_fuel v \<le> g"
    "sum_list (map (\<lambda>(k, v). Suc (json_fuel v)) kvs) \<le> g" by auto
  note val = Cons.prems(2) [of k v g, OF _ fuel(1)]
  have start: "skip_ws (json_dumps v @ t) = json_dumps v @ t" for t
    using Cons.prems(3) [of k v] kv by (simp add: json_dumps_start(1))
  show ?case
  proof (cases kvs)
    case Nil
    obtain cs where "member_text kv @ CHR ''}'' # r = quote # cs"
      "scan_str cs = Some (k, CHR '':'' # CHR '' '' # json_dumps v @ CHR ''}'' # r)"
      using member_text_scan [of kv "CHR ''}'' # r"] kv by auto
    with Nil val kv start show ?thesis by (simp add: g)
  next
    case (Cons y ys)
    let ?rest = "join '', '' (map member_text kvs) @ CHR ''}'' # r"
    have IH: "json_members g ?rest = Some (kvs, r)"
    proof (rule Cons.IH)
      show "kvs \<noteq> []" using Cons by simp
      show "json_value f (json_dumps v @ r) = Some (v, r)"
        if "(k, v) \<in> set kvs" "json_fuel v \<le> f" "ends_number r" for k v f r
        using that by (intro Cons.prems(2)) auto
      show "json_ok v" if "(k, v) \<in> set kvs" for k v
        using that by (intro Cons.prems(3)) auto
    qed (rule fuel(2))
    obtain cs where "member_text kv @ CHR '','' # CHR '' '' # ?rest = quote # cs"
      "scan_str cs = Some (k, CHR '':'' # CHR '' '' # json_dumps v @ CHR '','' # CHR '' '' # ?rest)"
      using member_text_scan [of kv "CHR '','' # CHR '' '' # ?rest"] kv by auto
    moreover have "skip_ws ?rest = ?rest"
      using Cons by (cases ys) (simp_all add: member_text_def json_str_def)
    ultimately show ?thesis using val kv start IH Cons by (simp add: g cons_fst_def)
  qed
qed simp

lemma json_value_dumps:
  "json_ok j \<Longrightarrow> json_fuel j \<le> f \<Longrightarrow> ends_number r \<Longrightarrow>
   json_value f (json_dumps j @ r) = Some (j, r)"
proof (induction j arbitrary: f r)
  case (JInt i)
  then obtain g where "f = Suc g" by (cases f) auto
  with JInt show ?case by (simp add: starts_number_value starts_number_texts json_number_int
        del: json_value.simps)
next
  case (JDec m k)
  then obtain g where "f = Suc g" by (cases f) auto
  with JDec show ?case by (simp add: starts_number_value starts_number_texts json_number_dec
        del: json_value.simps)
next
  case (JStr s)
  then obtain g where "f = Suc g" by (cases f) auto
  then show ?case by (simp add: json_value_str del: json_value.simps)
next
  case (JArr xs)
  then obtain g where g: "f = Suc g" by (cases f) auto
  show ?case
  proof (cases "xs = []")
    case False
    then obtain x ys where xs: "xs = x # ys" by (cases xs) auto
    have "json_elems g (join '', '' (map json_dumps xs) @ CHR '']'' # r) = Some (xs, r)"
      using JArr False g by (intro json_elems_join) (auto simp: list_all_iff)
    moreover have "\<exists>c cs. join '', '' (map json_dumps xs) @ CHR '']'' # r = c # cs \<and> c \<noteq> CHR '']''"
      and "skip_ws (join '', '' (map json_dumps xs) @ CHR '']'' # r)
        = join '', '' (map json_dumps xs) @ CHR '']'' # r"
      using json_dumps_start [of x] JArr.prems(1) xs by (cases ys; fastforce)+
    ultimately show ?thesis by (auto simp: g quote_def)
  qed (simp add: g quote_def)
next
  case (JObj kvs)
  then obtain g where g: "f = Suc g" by (cases f) auto
  show ?case
  proof (cases "kvs = []")
    case False
    then obtain x ys where xs: "kvs = x # ys" by (cases kvs) auto
    have "json_members g (join '', '' (map member_text kvs) @ CHR ''}'' # r) = Some (kvs, r)"
      using JObj False g by (intro json_members_join) (auto simp: list_all_iff)
    moreover have "\<exists>cs. join '', '' (map member_text kvs) @ CHR ''}'' # r = quote # cs"
      using xs by (cases ys) (simp_all add: member_text_def json_str_def)
    ultimately show ?thesis
      by (auto simp: g json_dumps_JObj simp del: json_dumps.simps)
  qed (simp add: g quote_def)
next
  case JNull
  then obtain g where "f = Suc g" by (cases f) auto
  then show ?case using json_word_eat(1) [of r] by (simp add: quote_def)
next
  case (JBool b)
  then obtain g where "f = Suc g" by (cases f) auto
  then show ?case using json_word_eat(2,3) [of r] by (simp add: quote_def)
next
  case (JSpecial s)
  then obtain g where "f = Suc g" by (cases f) auto
  with JSpecial show ?case using json_word_eat(4,5,6) [of r] by (auto simp: quote_def)
qed

text \<open>The round trip, with blanks (a newline, say) after the document.\<close>

lemma json_loads_dumps:
  assumes "json_ok j" "skip_ws r = []" "ends_number r"
  shows "json_loads (json_dumps j @ r) = Inr j"
proof -
  have "json_fuel j \<le> Suc (length (json_dumps j @ r))"
    using json_fuel_le [OF assms(1)] by simp
  then show ?thesis
    using json_value_dumps [OF assms(1) _ assms(3)] json_dumps_start(1) [OF assms(1), of r] assms(2)
    by (simp add: json_loads_def del: json_value.simps)
qed

text \<open>A rendered document is one line.\<close>

lemma digit_char_neq_newline: "d < 36 \<Longrightarrow> digit_char d \<noteq> CHR 0x0A"
  by (simp add: digit_char_eq_iff)

lemma nat_digits_one_line: "CHR 0x0A \<notin> set (nat_digits 10 n)"
proof
  assume "CHR 0x0A \<in> set (nat_digits 10 n)"
  then obtain d where "d < 10" "CHR 0x0A = digit_char d"
    using nat_digits_digits [of 10 _ n] by auto
  then show False using digit_char_neq_newline [of d] by simp
qed

lemma escape_char_one_line: "CHR 0x0A \<notin> set (escape_char c)"
proof -
  have "(of_char c :: nat) div 16 < 16"
    by (simp add: div_less_iff_less_mult)
  then have "digit_char (of_char c div 16) \<noteq> CHR 0x0A" "digit_char (of_char c mod 16) \<noteq> CHR 0x0A"
    by (simp_all add: digit_char_neq_newline)
  then show ?thesis by (auto simp: escape_char_def Let_def quote_def backslash_def)
qed

lemma json_str_one_line: "CHR 0x0A \<notin> set (json_str s)"
  using escape_char_one_line by (auto simp: json_str_def quote_def)

lemma set_join: "set (join sep xs) \<subseteq> set sep \<union> (\<Union>x \<in> set xs. set x)"
  by (induction sep xs rule: join.induct) auto

lemma json_dumps_one_line: "json_ok j \<Longrightarrow> CHR 0x0A \<notin> set (json_dumps j)"
proof (induction j)
  case (JArr xs)
  then show ?case using set_join [of "'', ''" "map json_dumps xs"] by (force simp: list_all_iff)
next
  case (JObj kvs)
  have "CHR 0x0A \<notin> set (member_text kv)" if "kv \<in> set kvs" for kv
    using JObj that json_str_one_line by (cases kv) (fastforce simp: member_text_def list_all_iff)
  then show ?case
    using set_join [of "'', ''" "map member_text kvs"]
    by (force simp: json_dumps_JObj simp del: json_dumps.simps)
qed (use nat_digits_one_line json_str_one_line in
    \<open>auto simp: py_str_int_def dec_text_def Let_def\<close>)

end
