(* ===== verification/Vmi_Log.thy ===== *)
theory Vmi_Log
  imports Vmi_State Syscall_Table Json
begin

text \<open>
  \<open>vmi_write_event\<close>: the line of the JSONL capture file one syscall becomes. The line
  is built piece by piece as the \<open>fprintf\<close> calls do; the theorems relate it to the
  JSON document a Python reader gets from it. \<open>strerrorname_np\<close> is the parameter
  \<open>ename\<close> (glibc's table of errno names).
\<close>

section \<open>The line\<close>

text \<open>A text between double quotes, with no escaping, as the format strings have it.\<close>

definition quoted :: "string \<Rightarrow> string" where
  "quoted s = quote # s @ [quote]"

definition nl :: string where
  "nl = [CHR 0x0A]"

text \<open>The argument loop \<open>for (i = 0; i < argc && i < 6; i++)\<close>.\<close>

definition args_text :: "nat \<Rightarrow> u64 list \<Rightarrow> string" where
  "args_text argc argv =
     concat (map (\<lambda>i. (if i = 0 then [] else '', '') @ quoted (hex0x (argv ! i))) [0..<min argc 6])"

definition dur_us :: "timeval \<Rightarrow> timeval \<Rightarrow> int" where
  "dur_us tv ret_tv = (tv_sec ret_tv - tv_sec tv) * 1000000 + (tv_usec ret_tv - tv_usec tv)"

text \<open>The error name of a return value, present for \<open>-4095..-1\<close> only.\<close>

definition err_name :: "(int \<Rightarrow> string option) \<Rightarrow> int \<Rightarrow> string option" where
  "err_name ename ret =
     (if ret < 0 \<and> - 4095 \<le> ret
      then Some (case ename (- ret) of Some s \<Rightarrow> s | None \<Rightarrow> ''E'' @ c_dec (- ret))
      else None)"

definition kind_text :: "(int \<Rightarrow> string option) \<Rightarrow> timeval \<Rightarrow> VmiRetKind \<Rightarrow> string" where
  "kind_text ename tv k = (case k of
     VMI_RET_NONE \<Rightarrow> []
   | VMI_RET_VALUE ret ret_tv \<Rightarrow>
       '', '' @ quoted ''ret'' @ '': '' @ c_dec ret @
       (case err_name ename ret of None \<Rightarrow> []
        | Some s \<Rightarrow> '', '' @ quoted ''err'' @ '': '' @ quoted s) @
       '', '' @ quoted ''dur_us'' @ '': '' @ c_dec (dur_us tv ret_tv)
   | VMI_RET_UNFINISHED why \<Rightarrow>
       '', '' @ quoted ''ret'' @ '': null, '' @ quoted ''unfinished'' @ '': '' @ quoted why)"

definition vmi_event_line :: "(int \<Rightarrow> string option) \<Rightarrow> VmiEvent \<Rightarrow> string" where
  "vmi_event_line ename e =
     (let (name, argc) = describe c_table_get c_udec (e_num e) in
      ''{'' @ quoted ''ts'' @ '': '' @ c_dec (tv_sec (e_tv e)) @ ''.'' @ zero_pad 6 (tv_usec (e_tv e)) @
      '', '' @ quoted ''cpu'' @ '': '' @ c_dec (int (e_cpu e)) @
      '', '' @ quoted ''rip'' @ '': '' @ quoted (hex0x (e_rip e)) @
      '', '' @ quoted ''num'' @ '': '' @ c_udec (e_num e) @
      '', '' @ quoted ''syscall'' @ '': '' @ quoted name @
      '', '' @ quoted ''args'' @ '': ['' @ args_text argc (e_argv e) @ '']'' @
      kind_text ename (e_tv e) (e_kind e) @ ''}'' @ nl)"

text \<open>\<open>vmi_write_event\<close> on the monitor's state; a null \<open>vmi_log_fp\<close> is a fault.\<close>

definition vmi_write_event :: "VmiEvent \<Rightarrow> 'k vmi \<Rightarrow> 'k vmi" where
  "vmi_write_event e s =
     (case vmi_log_fp s of
        None \<Rightarrow> s\<lparr>fault := True\<rparr>
      | Some l \<Rightarrow> s\<lparr>vmi_log_fp := Some (l @ [e])\<rparr>)"

text \<open>The characters of the capture file.\<close>

definition capture_file :: "(int \<Rightarrow> string option) \<Rightarrow> 'k vmi \<Rightarrow> string" where
  "capture_file ename s = concat (map (vmi_event_line ename) (vmi_log s))"

section \<open>The document a reader gets\<close>

definition kind_json :: "(int \<Rightarrow> string option) \<Rightarrow> timeval \<Rightarrow> VmiRetKind \<Rightarrow> (string \<times> json) list" where
  "kind_json ename tv k = (case k of
     VMI_RET_NONE \<Rightarrow> []
   | VMI_RET_VALUE ret ret_tv \<Rightarrow>
       (''ret'', JInt ret) #
       (case err_name ename ret of None \<Rightarrow> [] | Some s \<Rightarrow> [(''err'', JStr s)]) @
       [(''dur_us'', JInt (dur_us tv ret_tv))]
   | VMI_RET_UNFINISHED why \<Rightarrow> [(''ret'', JNull), (''unfinished'', JStr why)])"

definition vmi_event_json :: "(int \<Rightarrow> string option) \<Rightarrow> VmiEvent \<Rightarrow> (string \<times> json) list" where
  "vmi_event_json ename e =
     (let (name, argc) = describe c_table_get c_udec (e_num e) in
      [(''ts'', JDec (tv_sec (e_tv e) * 1000000 + tv_usec (e_tv e)) 6),
       (''cpu'', JInt (int (e_cpu e))),
       (''rip'', JStr (hex0x (e_rip e))),
       (''num'', JInt (int (unat (e_num e)))),
       (''syscall'', JStr name),
       (''args'', JArr (map (\<lambda>a. JStr (hex0x a)) (take argc (e_argv e))))] @
      kind_json ename (e_tv e) (e_kind e))"

text \<open>
  What the C code guarantees of an event: six argument slots, a normalised time of day, and
  plain texts (errno names and the constants passed as \<open>why\<close>).
\<close>

definition timeval_ok :: "timeval \<Rightarrow> bool" where
  "timeval_ok tv \<longleftrightarrow> 0 \<le> tv_sec tv \<and> 0 \<le> tv_usec tv \<and> tv_usec tv < 1000000"

definition plain_ename :: "(int \<Rightarrow> string option) \<Rightarrow> bool" where
  "plain_ename ename \<longleftrightarrow> (\<forall>n s. ename n = Some s \<longrightarrow> list_all name_char s)"

definition event_ok :: "VmiEvent \<Rightarrow> bool" where
  "event_ok e \<longleftrightarrow> length (e_argv e) = 6 \<and> timeval_ok (e_tv e) \<and>
     (case e_kind e of VMI_RET_UNFINISHED why \<Rightarrow> list_all name_char why | _ \<Rightarrow> True)"

section \<open>The line is the rendering of the document\<close>

lemma name_char_escape:
  assumes "name_char c"
  shows "escape_char c = [c]"
proof -
  have "c \<noteq> x" if "\<not> name_char x" for x using assms that by auto
  moreover have "\<not> name_char quote" "\<not> name_char backslash" "\<not> name_char (CHR 0x0A)"
    "\<not> name_char (CHR 0x0D)" "\<not> name_char (CHR 0x09)" "\<not> name_char (CHR 0x0C)"
    "\<not> name_char (CHR 0x08)"
    by code_simp+
  moreover have "32 \<le> (of_char c :: nat) \<and> (of_char c :: nat) \<le> 126"
    using assms unfolding name_char_def Let_def by linarith
  ultimately show ?thesis by (simp add: escape_char_def)
qed

lemma plain_json_str: "list_all name_char s \<Longrightarrow> json_str s = quoted s"
proof -
  assume "list_all name_char s"
  then have "concat (map escape_char s) = s"
    by (induction s) (simp_all add: name_char_escape)
  then show ?thesis by (simp add: json_str_def quoted_def)
qed

lemma hex0x_plain: "list_all name_char (hex0x w)"
  by (simp add: hex0x_def c_hex_def nat_digits_name_char name_char_def)

lemma c_texts: "c_dec i = py_str_int i" "c_udec w = py_str_int (int (unat w))"
  by (simp_all add: c_dec_def c_udec_def py_str_int_def)

lemma ts_text:
  assumes "timeval_ok tv"
  shows "c_dec (tv_sec tv) @ ''.'' @ zero_pad 6 (tv_usec tv) =
    dec_text (tv_sec tv * 1000000 + tv_usec tv) 6"
proof -
  define a b where "a = nat (tv_sec tv)" and "b = nat (tv_usec tv)"
  with assms have ab: "tv_sec tv = int a" "tv_usec tv = int b" "b < 1000000"
    by (auto simp: timeval_ok_def)
  have "(a * 1000000 + b) div 1000000 = a" "(a * 1000000 + b) mod 1000000 = b"
    using ab(3) by simp_all
  moreover have "nat \<bar>int a * 1000000 + int b\<bar> = a * 1000000 + b"
    by (simp add: nat_add_distrib nat_mult_distrib)
  ultimately show ?thesis
    by (simp add: ab(1,2) dec_text_def c_dec_def zero_pad_def Let_def)
qed

text \<open>A field list rendered: the text between the braces, field by field.\<close>

lemma join_Cons: "join sep (x # xs) = x @ (if xs = [] then [] else sep @ join sep xs)"
  by (cases xs) simp_all

lemma join_append:
  "xs \<noteq> [] \<Longrightarrow> join sep (xs @ ys) = join sep xs @ concat (map (\<lambda>y. sep @ y) ys)"
proof (induction xs rule: induct_list012)
  case (2 x)
  then show ?case by (induction ys arbitrary: x) (auto simp: join_Cons)
qed auto

lemma concat_upt_join:
  "concat (map (\<lambda>i. (if i = 0 then [] else sep) @ f i) [0..<n]) = join sep (map f [0..<n])"
proof -
  have tail: "concat (map (\<lambda>x. sep @ x) ys) = (if ys = [] then [] else sep @ join sep ys)" for ys
    by (induction ys rule: induct_list012) auto
  show ?thesis
  proof (cases n)
    case (Suc m)
    have "[0..<Suc m] = 0 # map Suc [0..<m]" by (simp add: upt_conv_Cons map_Suc_upt)
    moreover have "concat (map (\<lambda>i. sep @ f (Suc i)) [0..<m])
        = concat (map (\<lambda>x. sep @ x) (map (f \<circ> Suc) [0..<m]))" by (simp add: comp_def)
    ultimately show ?thesis
      using tail [of "map (f \<circ> Suc) [0..<m]"] Suc
      by (cases "m = 0") (simp_all add: join_Cons comp_def del: upt_Suc)
  qed simp
qed

lemma map_nth_take: "n \<le> length xs \<Longrightarrow> map (\<lambda>i. f (xs ! i)) [0..<n] = map f (take n xs)"
  by (simp add: list_eq_iff_nth_eq)

lemma args_text_join:
  assumes "length argv = 6" "argc \<le> 6"
  shows "args_text argc argv = join '', '' (map (\<lambda>a. json_dumps (JStr (hex0x a))) (take argc argv))"
proof -
  have "map (\<lambda>i. quoted (hex0x (argv ! i))) [0..<argc]
      = map (\<lambda>a. json_dumps (JStr (hex0x a))) (take argc argv)"
    using map_nth_take [of argc argv "\<lambda>a. quoted (hex0x a)"] assms
    by (simp add: plain_json_str hex0x_plain)
  then show ?thesis
    using concat_upt_join [of "'', ''" "\<lambda>i. quoted (hex0x (argv ! i))" argc] assms(2)
    by (simp add: args_text_def min_absorb1)
qed

lemma err_name_plain:
  "plain_ename ename \<Longrightarrow> err_name ename ret = Some s \<Longrightarrow> list_all name_char s"
  by (auto simp: err_name_def plain_ename_def c_texts py_str_int_name_char name_char_def
      split: if_splits option.splits)

lemma join_Cons_concat: "join sep (x # ys) = x @ concat (map (\<lambda>y. sep @ y) ys)"
  using join_append [of "[x]" sep ys] by simp

lemma key_text: "list_all name_char k \<Longrightarrow> member_text (k, v) = quoted k @ '': '' @ json_dumps v"
  by (simp add: member_text_def plain_json_str)

lemma name_char_keys:
  "list_all name_char ''ts''" "list_all name_char ''cpu''" "list_all name_char ''rip''"
  "list_all name_char ''num''" "list_all name_char ''syscall''" "list_all name_char ''args''"
  "list_all name_char ''ret''" "list_all name_char ''err''" "list_all name_char ''dur_us''"
  "list_all name_char ''unfinished''"
  by code_simp+

lemmas key_texts = name_char_keys [THEN key_text]

lemma kind_text_json:
  assumes "plain_ename ename"
    and "case k of VMI_RET_UNFINISHED why \<Rightarrow> list_all name_char why | _ \<Rightarrow> True"
  shows "kind_text ename tv k = concat (map (\<lambda>m. '', '' @ member_text m) (kind_json ename tv k))"
proof (cases k)
  case (VMI_RET_VALUE ret ret_tv)
  then show ?thesis
    using err_name_plain [OF assms(1), of ret]
    by (cases "err_name ename ret")
      (simp_all add: kind_text_def kind_json_def key_texts plain_json_str c_texts)
next
  case (VMI_RET_UNFINISHED why)
  with assms(2) show ?thesis
    by (simp add: kind_text_def kind_json_def key_texts plain_json_str)
qed (simp add: kind_text_def kind_json_def)

lemma vmi_event_line_dumps:
  assumes "event_ok e" "plain_ename ename"
  shows "vmi_event_line ename e = json_dumps (JObj (vmi_event_json ename e)) @ nl"
proof -
  obtain name argc where d: "describe c_table_get c_udec (e_num e) = (name, argc)" by fastforce
  have name: "list_all name_char name" and argc: "argc \<le> 6"
    using c_names.describe_name [of "e_num e"] c_names.describe_argc [of "e_num e"] by (simp_all add: d)
  from assms(1) have ok: "length (e_argv e) = 6" "timeval_ok (e_tv e)"
    "case e_kind e of VMI_RET_UNFINISHED why \<Rightarrow> list_all name_char why | _ \<Rightarrow> True"
    by (simp_all add: event_ok_def)
  have args: "args_text argc (e_argv e)
      = join '', '' (map (\<lambda>a. json_str (hex0x a)) (take argc (e_argv e)))"
    using args_text_join [OF ok(1) argc] by simp
  note ts = ts_text [OF ok(2)]
  let ?ts = "(''ts'', JDec (tv_sec (e_tv e) * 1000000 + tv_usec (e_tv e)) 6)"
  have "member_text ?ts = quoted ''ts'' @ '': '' @ c_dec (tv_sec (e_tv e)) @ ''.'' @ zero_pad 6 (tv_usec (e_tv e))"
    using ts by (simp add: key_texts)
  then show ?thesis
    using kind_text_json [OF assms(2) ok(3), of "e_tv e"]
    by (simp add: vmi_event_line_def vmi_event_json_def d json_dumps_JObj join_Cons_concat key_texts
        plain_json_str hex0x_plain name args c_texts comp_def
        del: json_dumps.simps(8) json_dumps.simps(4) join.simps(3))
qed

lemma json_ok_event: "json_ok (JObj (vmi_event_json ename e))"
  by (auto simp: vmi_event_json_def kind_json_def list_all_iff
      split: prod.splits VmiRetKind.splits option.splits)

lemma nl_ends: "skip_ws nl = []" "ends_number nl"
  by (simp_all add: nl_def)

lemma vmi_event_line_one_line:
  assumes "event_ok e" "plain_ename ename"
  shows "\<exists>body. vmi_event_line ename e = body @ nl \<and> CHR 0x0A \<notin> set body"
  using vmi_event_line_dumps [OF assms] json_dumps_one_line [OF json_ok_event] by blast

text \<open>
  C12: Every line the monitor writes is one JSON document: what a Python reader gets from
  \<open>json.loads\<close> on the line is the event's fields, unaltered, under the documented keys.
\<close>

theorem vmi_event_line_loads:
  assumes "event_ok e" "plain_ename ename"
  shows "json_loads (vmi_event_line ename e) = Inr (JObj (vmi_event_json ename e))"
  using json_loads_dumps [OF json_ok_event nl_ends] vmi_event_line_dumps [OF assms] by simp

definition sample_event :: VmiEvent where
  "sample_event = \<lparr>e_rip = 0x101000, e_cpu = 0, e_num = 257,
     e_argv = [0xffffff9c, 0x1000181de0, 0x80000, 0, 0, 0],
     e_tv = \<lparr>tv_sec = 1791770511, tv_usec = 400000\<rparr>,
     e_kind = VMI_RET_VALUE (- 2) \<lparr>tv_sec = 1791770511, tv_usec = 400058\<rparr>\<rparr>"

definition sample_ename :: "int \<Rightarrow> string option" where
  "sample_ename n = (if n = 2 then Some ''ENOENT'' else None)"

lemma sample_ok: "event_ok sample_event" "plain_ename sample_ename"
  by (simp_all add: event_ok_def sample_event_def timeval_ok_def plain_ename_def sample_ename_def
      name_char_def)

theorem vmi_event_line_loads_witness:
  "json_loads (vmi_event_line sample_ename sample_event) =
     Inr (JObj (vmi_event_json sample_ename sample_event))"
  by (rule vmi_event_line_loads [OF sample_ok])

end
