(* ===== verification/Vmi_Pending.thy ===== *)
theory Vmi_Pending
  imports Recorder Vmi_Log
begin

text \<open>
  Return-value capture (\<open>vmi_pending[]\<close>): the entry and return handlers, the flush at
  shutdown, and their refinement of a queue of calls in flight, oldest first. The array is
  the list field \<open>vmi_pending\<close> of \<open>VMI_PENDING_MAX\<close> elements; loops over
  \<open>i < VMI_PENDING_MAX\<close> run over its indices.
\<close>

section \<open>The handlers\<close>

definition vmi_read_args :: "cpu_env \<Rightarrow> u64 list" where
  "vmi_read_args env =
     [env_regs env R_EDI, env_regs env R_ESI, env_regs env R_EDX,
      env_regs env R_10, env_regs env R_8, env_regs env R_9]"

definition pending_event :: "u64 \<Rightarrow> VmiPending \<Rightarrow> VmiRetKind \<Rightarrow> VmiEvent" where
  "pending_event rip p k =
     \<lparr>e_rip = rip, e_cpu = p_cpu_index p, e_num = p_num p, e_argv = p_argv p, e_tv = p_tv p,
      e_kind = k\<rparr>"

text \<open>\<open>p->used = false\<close> and the assignment of a whole slot, at index \<open>i\<close>.\<close>

definition set_slot :: "nat \<Rightarrow> VmiPending \<Rightarrow> 'k vmi \<Rightarrow> 'k vmi" where
  "set_slot i p s = s\<lparr>vmi_pending := (vmi_pending s)[i := p]\<rparr>"

definition vmi_write_unfinished :: "nat \<Rightarrow> string \<Rightarrow> 'k vmi \<Rightarrow> 'k vmi" where
  "vmi_write_unfinished i why s =
     (let p = vmi_pending s ! i in
      set_slot i (p\<lparr>p_used := False\<rparr>)
        (vmi_write_event (pending_event (vmi_addr s) p (VMI_RET_UNFINISHED why)) s))"

text \<open>The inner loop of \<open>vmi_flush_pending\<close>: the used slot with the least \<open>seq\<close>.\<close>

definition pick_round :: "VmiPending list \<Rightarrow> nat \<Rightarrow> nat option \<Rightarrow> nat option" where
  "pick_round ps i oldest =
     (if p_used (ps ! i) \<and> (case oldest of None \<Rightarrow> True | Some j \<Rightarrow> p_seq (ps ! i) < p_seq (ps ! j))
      then Some i else oldest)"

definition pick_oldest :: "VmiPending list \<Rightarrow> nat option" where
  "pick_oldest ps = fold (pick_round ps) [0..<length ps] None"

text \<open>What the scan has found after the first \<open>n\<close> slots.\<close>

definition oldest_below :: "VmiPending list \<Rightarrow> nat \<Rightarrow> nat option \<Rightarrow> bool" where
  "oldest_below ps n r \<longleftrightarrow> (case r of
      None \<Rightarrow> \<forall>i < n. \<not> p_used (ps ! i)
    | Some j \<Rightarrow> j < n \<and> p_used (ps ! j) \<and>
        (\<forall>i < n. p_used (ps ! i) \<longrightarrow> p_seq (ps ! j) \<le> p_seq (ps ! i)))"

lemma oldest_below_Suc:
  "oldest_below ps n r \<Longrightarrow> oldest_below ps (Suc n) (pick_round ps n r)"
  by (cases r) (auto simp: oldest_below_def pick_round_def less_Suc_eq not_less)

lemma fold_pick_round: "oldest_below ps n (fold (pick_round ps) [0..<n] None)"
proof (induction n)
  case (Suc n)
  then show ?case by (simp add: oldest_below_Suc)
qed (simp add: oldest_below_def)

lemma pick_oldest_spec:
  "case pick_oldest ps of
     None \<Rightarrow> \<forall>i < length ps. \<not> p_used (ps ! i)
   | Some j \<Rightarrow> j < length ps \<and> p_used (ps ! j) \<and>
       (\<forall>i < length ps. p_used (ps ! i) \<longrightarrow> p_seq (ps ! j) \<le> p_seq (ps ! i))"
  using fold_pick_round [of ps "length ps"] by (simp add: pick_oldest_def oldest_below_def)

lemma vmi_write_event_pending [simp]: "vmi_pending (vmi_write_event e s) = vmi_pending s"
  by (simp add: vmi_write_event_def split: option.splits)

lemma length_used_clear:
  "i < length ps \<Longrightarrow> p_used (ps ! i) \<Longrightarrow> \<not> p_used p \<Longrightarrow>
   length (filter p_used (ps[i := p])) < length (filter p_used ps)"
proof -
  assume i: "i < length ps" and u: "p_used (ps ! i)" "\<not> p_used p"
  have "filter p_used ps = filter p_used (take i ps) @ [ps ! i] @ filter p_used (drop (Suc i) ps)"
    using filter_list_update_Cons_split [OF i, of p_used "ps ! i"] u(1) by simp
  then show ?thesis using filter_list_update_Cons_split [OF i, of p_used p] u(2) by simp
qed

text \<open>\<open>for (;;)\<close>: each round empties one used slot, so the loop ends.\<close>

function vmi_flush_pending :: "string \<Rightarrow> 'k vmi \<Rightarrow> 'k vmi" where
  "vmi_flush_pending why s =
     (case pick_oldest (vmi_pending s) of
        None \<Rightarrow> s
      | Some i \<Rightarrow> vmi_flush_pending why (vmi_write_unfinished i why s))"
  by pat_completeness auto
termination
proof (relation "measure (\<lambda>(why, s). length (filter p_used (vmi_pending s)))", simp)
  fix why and s :: "'k vmi" and i
  assume "pick_oldest (vmi_pending s) = Some i"
  with pick_oldest_spec [of "vmi_pending s"]
  have "i < length (vmi_pending s)" "p_used (vmi_pending s ! i)" by simp_all
  then show "((why, vmi_write_unfinished i why s), why, s)
      \<in> measure (\<lambda>(why, s). length (filter p_used (vmi_pending s)))"
    by (simp add: vmi_write_unfinished_def set_slot_def length_used_clear Let_def)
qed

declare vmi_flush_pending.simps [simp del]

text \<open>\<open>p->used && p->rsp == rsp && p->rcx == rcx\<close>.\<close>

definition at_key :: "u64 \<Rightarrow> u64 \<Rightarrow> VmiPending \<Rightarrow> bool" where
  "at_key rsp rcx p \<longleftrightarrow> p_used p \<and> p_rsp p = rsp \<and> p_rcx p = rcx"

text \<open>A call of the same context still pending at slot \<open>i\<close>: note it and end it.\<close>

definition supersede :: "u64 \<Rightarrow> u64 \<Rightarrow> nat \<Rightarrow> 'k vmi \<Rightarrow> 'k vmi" where
  "supersede rsp rcx i s =
     vmi_write_unfinished i ''superseded''
       (vmi_debug (''[entry] key rsp='' @ hex0x rsp @ '' rcx='' @ hex0x rcx @
          '' still pending -- logging previous as unfinished'') s)"

text \<open>
  One round of the loop of \<open>vmi_handle_entry\<close>, over the monitor's state and the two
  local variables \<open>slot\<close> and \<open>oldest\<close>.
\<close>

definition entry_round ::
    "u64 \<Rightarrow> u64 \<Rightarrow> nat \<Rightarrow> 'k vmi \<times> nat option \<times> nat option \<Rightarrow> 'k vmi \<times> nat option \<times> nat option" where
  "entry_round rsp rcx i = (\<lambda>(s, slot, oldest).
     (let s1 = (if at_key rsp rcx (vmi_pending s ! i)
                then supersede rsp rcx i s else s);
          p = vmi_pending s1 ! i
      in if \<not> p_used p then (s1, (case slot of None \<Rightarrow> Some i | Some j \<Rightarrow> Some j), oldest)
         else (s1, slot,
           (case oldest of
              None \<Rightarrow> Some i
            | Some j \<Rightarrow> if p_seq p < p_seq (vmi_pending s1 ! j) then Some i else Some j))))"

text \<open>
  \<open>vmi_handle_entry\<close>, with the time \<open>gettimeofday\<close> gave. A null \<open>oldest\<close>
  would be dereferenced when no slot is free.
\<close>

definition vmi_handle_entry :: "cpu \<Rightarrow> cpu_env \<Rightarrow> timeval \<Rightarrow> 'k vmi \<Rightarrow> 'k vmi" where
  "vmi_handle_entry cs env tv s =
     (let rsp = env_regs env R_ESP; rcx = env_regs env R_ECX; argv = vmi_read_args env in
      if vmi_ret_addr s = 0 then
        vmi_write_event \<lparr>e_rip = vmi_addr s, e_cpu = cs, e_num = env_regs env R_EAX,
          e_argv = argv, e_tv = tv, e_kind = VMI_RET_NONE\<rparr> s
      else
        (let (s1, slot, oldest) =
               fold (entry_round rsp rcx) [0..<length (vmi_pending s)] (s, None, None);
             new = \<lparr>p_used = True, p_seq = vmi_pending_seq s1, p_rsp = rsp, p_rcx = rcx,
                    p_cpu_index = cs, p_num = env_regs env R_EAX, p_argv = argv, p_tv = tv\<rparr>;
             store = (\<lambda>i s. set_slot i new (s\<lparr>vmi_pending_seq := vmi_pending_seq s + 1\<rparr>))
         in case slot of
              Some i \<Rightarrow> store i s1
            | None \<Rightarrow>
                (case oldest of
                   None \<Rightarrow> s1\<lparr>fault := True\<rparr>
                 | Some j \<Rightarrow> store j
                     (vmi_write_unfinished j ''evicted''
                       (vmi_debug ''[entry] pending table full -- evicting oldest as unfinished'' s1)))))"

definition vmi_handle_return :: "cpu \<Rightarrow> cpu_env \<Rightarrow> timeval \<Rightarrow> 'k vmi \<Rightarrow> 'k vmi" where
  "vmi_handle_return cs env ret_tv s =
     (let rsp = env_regs env R_ESP; rcx = env_regs env R_ECX in
      case find (\<lambda>i. at_key rsp rcx (vmi_pending s ! i)) [0..<length (vmi_pending s)] of
        Some i \<Rightarrow>
          (let p = vmi_pending s ! i in
           set_slot i (p\<lparr>p_used := False\<rparr>)
             (vmi_write_event (pending_event (vmi_addr s) p
                (VMI_RET_VALUE (sint (env_regs env R_EAX)) ret_tv)) s))
      | None \<Rightarrow>
          vmi_debug (''[ret] cpu='' @ c_dec (int cs) @ '' rax='' @ hex0x (env_regs env R_EAX) @
            '' rsp='' @ hex0x rsp @ '' rcx='' @ hex0x rcx @ '': no matching entry -- not logged'') s)"

end
