(* ===== verification/Pending_Refine.thy ===== *)
theory Pending_Refine
  imports Vmi_Pending "HOL-Library.Multiset"
begin

text \<open>
  The pending table implements a queue. \<open>inflight\<close> reads the calls in flight off the
  array, oldest first; \<open>spec_entry\<close>, \<open>spec_return\<close> and \<open>spec_flush\<close>
  say what an entry, a return and a flush do to that queue and to the log. The refinement
  lemmas show that the array code computes exactly this.
\<close>

section \<open>The abstract queue\<close>

definition inflight :: "VmiPending list \<Rightarrow> VmiPending list" where
  "inflight ps = sort_key p_seq (filter p_used ps)"

definition pend_ok :: "VmiPending list \<Rightarrow> u64 \<Rightarrow> bool" where
  "pend_ok ps sq \<longleftrightarrow>
     length ps = VMI_PENDING_MAX \<and>
     distinct (map (\<lambda>p. (p_rsp p, p_rcx p)) (filter p_used ps)) \<and>
     distinct (map p_seq (filter p_used ps)) \<and>
     (\<forall>p \<in> set ps. p_used p \<longrightarrow> p_seq p < sq)"

definition unfinished :: "u64 \<Rightarrow> string \<Rightarrow> VmiPending \<Rightarrow> VmiEvent" where
  "unfinished rip why p = pending_event rip p (VMI_RET_UNFINISHED why)"

definition returned :: "u64 \<Rightarrow> u64 \<Rightarrow> timeval \<Rightarrow> VmiPending \<Rightarrow> VmiEvent" where
  "returned rip rax tv p = pending_event rip p (VMI_RET_VALUE (sint rax) tv)"

type_synonym pend_spec = "VmiPending list \<times> VmiEvent list"

text \<open>
  A new call first ends an earlier one with its key, then, if 64 calls are still in flight,
  the oldest of them; it goes to the end of the queue.
\<close>

definition spec_entry :: "u64 \<Rightarrow> VmiPending \<Rightarrow> pend_spec \<Rightarrow> pend_spec" where
  "spec_entry rip new = (\<lambda>(q, l).
     (let sup = filter (at_key (p_rsp new) (p_rcx new)) q;
          q1 = filter (\<lambda>p. \<not> at_key (p_rsp new) (p_rcx new) p) q;
          full = (length q1 = VMI_PENDING_MAX)
      in ((if full then tl q1 else q1) @ [new],
          l @ map (unfinished rip ''superseded'') sup @
          (if full then [unfinished rip ''evicted'' (hd q1)] else []))))"

definition spec_return :: "u64 \<Rightarrow> u64 \<Rightarrow> u64 \<Rightarrow> u64 \<Rightarrow> timeval \<Rightarrow> pend_spec \<Rightarrow> pend_spec" where
  "spec_return rip rsp rcx rax tv = (\<lambda>(q, l).
     (filter (\<lambda>p. \<not> at_key rsp rcx p) q, l @ map (returned rip rax tv) (filter (at_key rsp rcx) q)))"

definition spec_flush :: "u64 \<Rightarrow> string \<Rightarrow> pend_spec \<Rightarrow> pend_spec" where
  "spec_flush rip why = (\<lambda>(q, l). ([], l @ map (unfinished rip why) q))"

section \<open>Array updates as queue updates\<close>

lemma inflight_used: "p \<in> set (inflight ps) \<longleftrightarrow> p \<in> set ps \<and> p_used p"
  by (auto simp: inflight_def)

lemma inflight_nth: "p \<in> set (inflight ps) \<longleftrightarrow> (\<exists>j < length ps. p = ps ! j \<and> p_used p)"
  by (auto simp: inflight_def in_set_conv_nth)

text \<open>The used slots around a used slot, when a projection is distinct on the used ones.\<close>

lemma used_split:
  assumes "i < length ps" "p_used (ps ! i)"
  shows "filter p_used ps = filter p_used (take i ps) @ ps ! i # filter p_used (drop (Suc i) ps)"
  using filter_list_update_Cons_split [OF assms(1), of p_used "ps ! i"] assms(2) by simp

lemma used_others:
  assumes "i < length ps" "p_used (ps ! i)" "distinct (map f (filter p_used ps))"
    and "q \<in> set (take i ps) \<or> q \<in> set (drop (Suc i) ps)" "p_used q"
  shows "f q \<noteq> f (ps ! i)"
  using assms(3-5) unfolding used_split [OF assms(1,2)] by (auto simp: image_iff)

lemma inj_on_used_seq: "distinct (map p_seq (filter p_used ps)) \<Longrightarrow> inj_on p_seq (set (filter p_used ps))"
  by (simp add: distinct_map)

lemma filter_clear_slot:
  assumes "i < length ps" "p_used (ps ! i)" "distinct (map p_seq (filter p_used ps))"
  shows "filter p_used (ps[i := (ps ! i)\<lparr>p_used := False\<rparr>]) =
    filter (\<lambda>q. p_seq q \<noteq> p_seq (ps ! i)) (filter p_used ps)"
proof -
  define xs ys x where "xs = take i ps" and "ys = drop (Suc i) ps" and "x = ps ! i"
  have ps: "ps = xs @ x # ys" using list_split_nth [OF assms(1)] by (simp add: xs_def ys_def x_def)
  have upd: "ps[i := x\<lparr>p_used := False\<rparr>] = xs @ (x\<lparr>p_used := False\<rparr>) # ys"
    using assms(1) by (simp add: upd_conv_take_nth_drop xs_def ys_def)
  have "\<forall>q \<in> set (filter p_used xs) \<union> set (filter p_used ys). p_seq q \<noteq> p_seq x"
    using used_others [OF assms] by (auto simp: xs_def ys_def x_def)
  then have "filter (\<lambda>q. p_seq q \<noteq> p_seq x) (filter p_used zs) = filter p_used zs"
    if "zs \<in> {xs, ys}" for zs using that by (intro filter_True) auto
  then show ?thesis
    unfolding x_def [symmetric] upd by (subst ps) simp
qed

lemma inflight_clear:
  assumes "i < length ps" "p_used (ps ! i)" "distinct (map p_seq (filter p_used ps))"
  shows "inflight (ps[i := (ps ! i)\<lparr>p_used := False\<rparr>]) =
    filter (\<lambda>q. p_seq q \<noteq> p_seq (ps ! i)) (inflight ps)"
  by (simp only: inflight_def filter_clear_slot [OF assms] filter_sort)

lemma inflight_store:
  assumes "i < length ps" "\<not> p_used (ps ! i)" "p_used new"
    and "\<forall>p \<in> set ps. p_used p \<longrightarrow> p_seq p < p_seq new"
    and "distinct (map p_seq (filter p_used ps))"
  shows "inflight (ps[i := new]) = inflight ps @ [new]"
proof -
  have old: "filter p_used ps = filter p_used (take i ps) @ filter p_used (drop (Suc i) ps)"
    using filter_list_update_Cons_split [OF assms(1), of p_used "ps ! i"] assms(2) by simp
  have upd: "filter p_used (ps[i := new])
      = filter p_used (take i ps) @ [new] @ filter p_used (drop (Suc i) ps)"
    using filter_list_update_Cons_split [OF assms(1), of p_used new] assms(3) by simp
  show ?thesis
    unfolding inflight_def
  proof (rule sort_key_inj_key_eq)
    show "mset (filter p_used (ps[i := new])) = mset (sort_key p_seq (filter p_used ps) @ [new])"
      by (simp add: upd old)
    have "set (filter p_used (ps[i := new])) = insert new (set (filter p_used ps))"
      by (auto simp: upd old)
    moreover have "\<forall>p \<in> set (filter p_used ps). p_seq p \<noteq> p_seq new" using assms(4) by auto
    ultimately show "inj_on p_seq (set (filter p_used (ps[i := new])))"
      using inj_on_used_seq [OF assms(5)] by (auto simp: inj_on_insert)
    show "sorted (map p_seq (sort_key p_seq (filter p_used ps) @ [new]))"
      using assms(4) by (auto simp: sorted_append less_imp_le)
  qed
qed

text \<open>Distinct keys: the slots with one key are one slot.\<close>

lemma used_index_unique:
  assumes "distinct (map f (filter p_used ps))" "i < length ps" "j < length ps"
    "p_used (ps ! i)" "p_used (ps ! j)" "f (ps ! i) = f (ps ! j)"
  shows "i = j"
proof (rule ccontr)
  assume "i \<noteq> j"
  then obtain a b where ab: "a < b" "b < length ps" "p_used (ps ! a)" "p_used (ps ! b)"
    "f (ps ! a) = f (ps ! b)"
    using assms(2-6) by (metis nat_neq_iff)
  have "ps ! a \<in> set (take b ps)" using ab by (auto simp: in_set_conv_nth intro!: exI [of _ a])
  with used_others [OF ab(2,4) assms(1)] ab show False by blast
qed

lemma pend_ok_key_unique:
  "pend_ok ps sq \<Longrightarrow> i < length ps \<Longrightarrow> j < length ps \<Longrightarrow> at_key a b (ps ! i) \<Longrightarrow> at_key a b (ps ! j) \<Longrightarrow> i = j"
  using used_index_unique [of "\<lambda>p. (p_rsp p, p_rcx p)" ps i j] by (simp add: pend_ok_def at_key_def)

lemma pend_ok_key_seq:
  assumes "pend_ok ps sq" "i < length ps" "at_key a b (ps ! i)" "q \<in> set (inflight ps)"
  shows "p_seq q \<noteq> p_seq (ps ! i) \<longleftrightarrow> \<not> at_key a b q"
proof -
  from assms(4) obtain j where j: "j < length ps" "q = ps ! j" "p_used q"
    by (auto simp: inflight_nth)
  have "p_used (ps ! i)" using assms(3) by (simp add: at_key_def)
  then have "p_seq q = p_seq (ps ! i) \<longleftrightarrow> j = i"
    using used_index_unique [of p_seq ps j i] assms(1,2) j by (auto simp: pend_ok_def)
  moreover have "at_key a b q \<longleftrightarrow> j = i"
    using pend_ok_key_unique [OF assms(1) j(1) assms(2)] assms(3) j by auto
  ultimately show ?thesis by simp
qed

lemma inflight_clear_key:
  assumes "pend_ok ps sq" "i < length ps" "at_key a b (ps ! i)"
  shows "inflight (ps[i := (ps ! i)\<lparr>p_used := False\<rparr>]) = filter (\<lambda>q. \<not> at_key a b q) (inflight ps)"
    and "filter (at_key a b) (inflight ps) = [ps ! i]"
proof -
  have u: "p_used (ps ! i)" "distinct (map p_seq (filter p_used ps))"
    using assms by (simp_all add: at_key_def pend_ok_def)
  show "inflight (ps[i := (ps ! i)\<lparr>p_used := False\<rparr>]) = filter (\<lambda>q. \<not> at_key a b q) (inflight ps)"
    unfolding inflight_clear [OF assms(2) u]
    using pend_ok_key_seq [OF assms] by (intro filter_cong) auto
  have "filter (at_key a b) (inflight ps) = filter (\<lambda>q. p_seq q = p_seq (ps ! i)) (inflight ps)"
    using pend_ok_key_seq [OF assms] by (intro filter_cong) auto
  also have "\<dots> = filter (\<lambda>q. p_seq q = p_seq (ps ! i)) (filter p_used ps)"
    by (simp add: inflight_def sort_key_stable)
  also have "\<dots> = [ps ! i]"
    using used_others [OF assms(2) u]
    unfolding used_split [OF assms(2) u(1)] by (auto simp: filter_empty_conv)
  finally show "filter (at_key a b) (inflight ps) = [ps ! i]" .
qed

lemma no_key_filter:
  "(\<And>i. i < length ps \<Longrightarrow> \<not> at_key a b (ps ! i)) \<Longrightarrow>
   filter (at_key a b) (inflight ps) = [] \<and> filter (\<lambda>q. \<not> at_key a b q) (inflight ps) = inflight ps"
  by (auto simp: filter_empty_conv filter_id_conv inflight_nth)

section \<open>The scan of \<open>vmi_handle_entry\<close>\<close>

lemma supersede_pending:
  "vmi_pending (supersede a b m s) =
     (vmi_pending s)[m := (vmi_pending s ! m)\<lparr>p_used := False\<rparr>]"
  by (simp add: supersede_def vmi_write_unfinished_def set_slot_def Let_def)

definition scanned :: "u64 \<Rightarrow> u64 \<Rightarrow> nat \<Rightarrow> 'k vmi \<Rightarrow> 'k vmi \<Rightarrow> bool" where
  "scanned a b n s s' \<longleftrightarrow>
     (\<exists>m < n. at_key a b (vmi_pending s ! m) \<and> s' = supersede a b m s) \<or>
     ((\<forall>m < n. \<not> at_key a b (vmi_pending s ! m)) \<and> s' = s)"

definition free_below :: "VmiPending list \<Rightarrow> nat \<Rightarrow> nat option \<Rightarrow> bool" where
  "free_below ps n slot \<longleftrightarrow> (case slot of
     None \<Rightarrow> \<forall>i < n. p_used (ps ! i)
   | Some i \<Rightarrow> i < n \<and> \<not> p_used (ps ! i))"

lemma scanned_nth:
  "scanned a b n s s' \<Longrightarrow> n \<le> j \<Longrightarrow> vmi_pending s' ! j = vmi_pending s ! j"
  by (auto simp: scanned_def supersede_pending)

lemma scanned_length: "scanned a b n s s' \<Longrightarrow> length (vmi_pending s') = length (vmi_pending s)"
  by (auto simp: scanned_def supersede_pending)

lemma entry_round_scanned:
  assumes ok: "pend_ok (vmi_pending s) sq" and n: "n < length (vmi_pending s)"
    and old: "scanned a b n s t" "free_below (vmi_pending t) n slot"
      "oldest_below (vmi_pending t) n oldest"
    and eq: "entry_round a b n (t, slot, oldest) = (t', slot', oldest')"
  shows "scanned a b (Suc n) s t' \<and> free_below (vmi_pending t') (Suc n) slot' \<and>
    oldest_below (vmi_pending t') (Suc n) oldest'"
proof (cases "at_key a b (vmi_pending s ! n)")
  case True
  then have none: "\<forall>m < n. \<not> at_key a b (vmi_pending s ! m)"
    using pend_ok_key_unique [OF ok n] n by (metis less_trans nat_neq_iff)
  with old(1) have t: "t = s" by (auto simp: scanned_def)
  let ?u = "supersede a b n s"
  have same: "vmi_pending ?u ! i = vmi_pending s ! i" if "i < n" for i
    using that by (simp add: supersede_pending)
  have unused: "\<not> p_used (vmi_pending ?u ! n)" using n by (simp add: supersede_pending)
  then have new: "t' = ?u" "slot' = (case slot of None \<Rightarrow> Some n | Some j \<Rightarrow> Some j)" "oldest' = oldest"
    using eq True by (simp_all add: entry_round_def t Let_def split: option.splits)
  have "scanned a b (Suc n) s t'" using True new(1) by (auto simp: scanned_def)
  moreover have "free_below (vmi_pending t') (Suc n) slot'"
    using old(2) same unused new by (cases slot) (auto simp: free_below_def t less_Suc_eq)
  moreover have "oldest_below (vmi_pending t') (Suc n) oldest'"
    using old(3) same unused new by (cases oldest) (auto simp: oldest_below_def t less_Suc_eq)
  ultimately show ?thesis by blast
next
  case False
  with scanned_nth [OF old(1), of n] have nokey: "\<not> at_key a b (vmi_pending t ! n)" by simp
  then have new: "t' = t"
    "slot' = (if p_used (vmi_pending t ! n) then slot else case slot of None \<Rightarrow> Some n | Some j \<Rightarrow> Some j)"
    "oldest' = pick_round (vmi_pending t) n oldest"
    using eq by (auto simp: entry_round_def pick_round_def Let_def split: if_splits option.splits)
  have "scanned a b (Suc n) s t'" using old(1) False new(1) by (auto simp: scanned_def less_Suc_eq)
  moreover have "free_below (vmi_pending t') (Suc n) slot'"
    using old(2) new by (cases slot) (auto simp: free_below_def less_Suc_eq)
  moreover have "oldest_below (vmi_pending t') (Suc n) oldest'"
    using oldest_below_Suc [OF old(3)] new by simp
  ultimately show ?thesis by blast
qed

lemma entry_scan:
  assumes ok: "pend_ok (vmi_pending s) sq" and n: "n \<le> length (vmi_pending s)"
  shows "case fold (entry_round a b) [0..<n] (s, None, None) of (t, slot, oldest) \<Rightarrow>
    scanned a b n s t \<and> free_below (vmi_pending t) n slot \<and> oldest_below (vmi_pending t) n oldest"
  using n
proof (induction n)
  case 0
  show ?case by (simp add: scanned_def free_below_def oldest_below_def)
next
  case (Suc n)
  obtain t slot oldest where f: "fold (entry_round a b) [0..<n] (s, None, None) = (t, slot, oldest)"
    by (cases "fold (entry_round a b) [0..<n] (s, None, None)") auto
  obtain t' slot' oldest' where r: "entry_round a b n (t, slot, oldest) = (t', slot', oldest')"
    by (cases "entry_round a b n (t, slot, oldest)") auto
  from Suc f have "scanned a b n s t" "free_below (vmi_pending t) n slot"
    "oldest_below (vmi_pending t) n oldest" by auto
  from entry_round_scanned [OF ok _ this r] Suc.prems show ?case by (simp add: f r)
qed

section \<open>The handlers refine the queue\<close>

definition pend_state :: "'k vmi \<Rightarrow> bool" where
  "pend_state s \<longleftrightarrow> pend_ok (vmi_pending s) (vmi_pending_seq s) \<and> vmi_log_fp s \<noteq> None"

definition pend_abs :: "'k vmi \<Rightarrow> pend_spec" where
  "pend_abs s = (inflight (vmi_pending s), vmi_log s)"

lemma vmi_write_event_fields [simp]:
  "hyp (vmi_write_event e s) = hyp s" "vmi_enabled (vmi_write_event e s) = vmi_enabled s"
  "vmi_addr (vmi_write_event e s) = vmi_addr s" "vmi_ret_addr (vmi_write_event e s) = vmi_ret_addr s"
  "vmi_pending_seq (vmi_write_event e s) = vmi_pending_seq s"
  "vmi_log_fp (vmi_write_event e s) = map_option (\<lambda>l. l @ [e]) (vmi_log_fp s)"
  "vmi_log_fp s \<noteq> None \<Longrightarrow> vmi_log (vmi_write_event e s) = vmi_log s @ [e]"
  "vmi_log_fp s \<noteq> None \<Longrightarrow> fault (vmi_write_event e s) = fault s"
  by (auto simp: vmi_write_event_def vmi_log_def split: option.splits)

lemma set_slot_fields [simp]:
  "hyp (set_slot i p s) = hyp s" "vmi_enabled (set_slot i p s) = vmi_enabled s"
  "vmi_addr (set_slot i p s) = vmi_addr s" "vmi_ret_addr (set_slot i p s) = vmi_ret_addr s"
  "vmi_pending_seq (set_slot i p s) = vmi_pending_seq s"
  "vmi_log_fp (set_slot i p s) = vmi_log_fp s" "vmi_log (set_slot i p s) = vmi_log s"
  "fault (set_slot i p s) = fault s"
  "vmi_pending (set_slot i p s) = (vmi_pending s)[i := p]"
  by (simp_all add: set_slot_def vmi_log_def)

lemma pend_ok_clear:
  assumes "pend_ok ps sq" "i < length ps" "p_used (ps ! i)"
  shows "pend_ok (ps[i := (ps ! i)\<lparr>p_used := False\<rparr>]) sq"
proof -
  have d: "distinct (map p_seq (filter p_used ps))" using assms(1) by (simp add: pend_ok_def)
  have less: "\<forall>p \<in> set (ps[i := (ps ! i)\<lparr>p_used := False\<rparr>]). p_used p \<longrightarrow> p_seq p < sq"
    using assms(1) by (auto simp: pend_ok_def dest!: set_update_subset_insert [THEN subsetD])
  have keep: "distinct (map f (filter p_used ps)) \<Longrightarrow>
      distinct (map f (filter p_used (ps[i := (ps ! i)\<lparr>p_used := False\<rparr>])))" for f
    unfolding filter_clear_slot [OF assms(2,3) d] by (rule distinct_map_filter)
  show ?thesis using assms(1) less by (simp add: pend_ok_def keep)
qed

lemma pend_ok_store:
  assumes "pend_ok ps sq" "i < length ps" "\<not> p_used (ps ! i)" "p_used new"
    and "p_seq new = sq" "sq < sq'" "\<And>j. j < length ps \<Longrightarrow> \<not> at_key (p_rsp new) (p_rcx new) (ps ! j)"
  shows "pend_ok (ps[i := new]) sq'"
proof -
  have old: "filter p_used ps = filter p_used (take i ps) @ filter p_used (drop (Suc i) ps)"
    using filter_list_update_Cons_split [OF assms(2), of p_used "ps ! i"] assms(3) by simp
  have upd: "filter p_used (ps[i := new])
      = filter p_used (take i ps) @ [new] @ filter p_used (drop (Suc i) ps)"
    using filter_list_update_Cons_split [OF assms(2), of p_used new] assms(4) by simp
  have distinct_upd: "distinct (map f (filter p_used (ps[i := new])))"
    if "distinct (map f (filter p_used ps))" "\<forall>q \<in> set ps. p_used q \<longrightarrow> f q \<noteq> f new" for f
    using that unfolding upd old
    by (force simp: dest: in_set_takeD in_set_dropD)
  have key: "\<forall>q \<in> set ps. p_used q \<longrightarrow> (p_rsp q, p_rcx q) \<noteq> (p_rsp new, p_rcx new)"
    using assms(7) by (auto simp: at_key_def in_set_conv_nth)
  have seq: "\<forall>q \<in> set ps. p_used q \<longrightarrow> p_seq q \<noteq> p_seq new"
    using assms(1,5) by (auto simp: pend_ok_def)
  have less: "\<forall>p \<in> set (ps[i := new]). p_used p \<longrightarrow> p_seq p < sq'"
    using assms(1,5,6) by (auto simp: pend_ok_def dest!: set_update_subset_insert [THEN subsetD] intro: less_trans)
  show ?thesis
    using assms(1) distinct_upd [OF _ key] distinct_upd [OF _ seq] less
    by (simp add: pend_ok_def)
qed

lemma inflight_oldest:
  assumes "pend_ok ps sq" "j < length ps" "p_used (ps ! j)"
    and "\<forall>i < length ps. p_used (ps ! i) \<longrightarrow> p_seq (ps ! j) \<le> p_seq (ps ! i)"
  shows "inflight ps = ps ! j # filter (\<lambda>q. p_seq q \<noteq> p_seq (ps ! j)) (inflight ps)"
proof -
  let ?P = "\<lambda>q. p_seq q \<noteq> p_seq (ps ! j)"
  have d: "distinct (map p_seq (filter p_used ps))" using assms(1) by (simp add: pend_ok_def)
  have keep: "filter ?P (filter p_used zs) = filter p_used zs"
    if "zs = take j ps \<or> zs = drop (Suc j) ps" for zs
    using used_others [OF assms(2,3) d] that by (intro filter_True) auto
  have "mset (filter p_used ps) = mset (ps ! j # filter ?P (filter p_used ps))"
    unfolding used_split [OF assms(2,3)] using keep [of "take j ps"] keep [of "drop (Suc j) ps"]
    by (simp del: filter_filter)
  then have "mset (filter p_used ps) = mset (ps ! j # filter ?P (inflight ps))"
    by (simp add: inflight_def filter_sort)
  moreover have "sorted (map p_seq (ps ! j # filter ?P (inflight ps)))"
    using assms(4) by (auto simp: inflight_nth sorted_filter) (simp add: inflight_def sorted_filter)
  ultimately show ?thesis
    unfolding inflight_def by (intro sort_key_inj_key_eq inj_on_used_seq [OF d])
qed

lemma length_inflight: "length (inflight ps) = length (filter p_used ps)"
  by (simp add: inflight_def)

lemma length_inflight_full:
  "(\<forall>i < length ps. p_used (ps ! i)) \<Longrightarrow> length (inflight ps) = length ps"
  by (simp add: length_inflight filter_id_conv [THEN iffD2] all_set_conv_all_nth)

lemma length_inflight_free:
  "i < length ps \<Longrightarrow> \<not> p_used (ps ! i) \<Longrightarrow> length (inflight ps) < length ps"
  by (simp add: length_inflight) (metis length_filter_less nth_mem)


lemma pend_ok_sq_mono: "pend_ok ps sq \<Longrightarrow> sq < sq' \<Longrightarrow> pend_ok ps sq'"
  by (auto simp: pend_ok_def intro: less_trans)

text \<open>Ending the call in a used slot.\<close>

lemma write_unfinished_abs:
  assumes "pend_state s" "i < length (vmi_pending s)" "p_used (vmi_pending s ! i)"
  shows "pend_state (vmi_write_unfinished i why s)"
    and "vmi_log (vmi_write_unfinished i why s) =
      vmi_log s @ [unfinished (vmi_addr s) why (vmi_pending s ! i)]"
    and "vmi_pending (vmi_write_unfinished i why s) =
      (vmi_pending s)[i := (vmi_pending s ! i)\<lparr>p_used := False\<rparr>]"
  using assms pend_ok_clear [of "vmi_pending s" "vmi_pending_seq s" i]
  by (auto simp: vmi_write_unfinished_def Let_def pend_state_def unfinished_def)

lemma write_unfinished_fields [simp]:
  "vmi_addr (vmi_write_unfinished i why s) = vmi_addr s"
  "vmi_ret_addr (vmi_write_unfinished i why s) = vmi_ret_addr s"
  "vmi_pending_seq (vmi_write_unfinished i why s) = vmi_pending_seq s"
  "hyp (vmi_write_unfinished i why s) = hyp s"
  "vmi_enabled (vmi_write_unfinished i why s) = vmi_enabled s"
  "vmi_log_fp s \<noteq> None \<Longrightarrow> fault (vmi_write_unfinished i why s) = fault s"
  by (simp_all add: vmi_write_unfinished_def Let_def)

lemma pend_state_debug [simp]: "pend_state (vmi_debug m s) = pend_state s"
  by (simp add: pend_state_def)

lemma supersede_fields [simp]:
  "vmi_addr (supersede a b i s) = vmi_addr s"
  "vmi_ret_addr (supersede a b i s) = vmi_ret_addr s"
  "vmi_pending_seq (supersede a b i s) = vmi_pending_seq s"
  "vmi_log_fp s \<noteq> None \<Longrightarrow> fault (supersede a b i s) = fault s"
  by (simp_all add: supersede_def)

lemma supersede_abs:
  assumes "pend_state s" "i < length (vmi_pending s)" "at_key a b (vmi_pending s ! i)"
  shows "pend_state (supersede a b i s)"
    and "pend_abs (supersede a b i s) =
      (filter (\<lambda>q. \<not> at_key a b q) (inflight (vmi_pending s)),
       vmi_log s @ map (unfinished (vmi_addr s) ''superseded'') (filter (at_key a b) (inflight (vmi_pending s))))"
proof -
  have u: "p_used (vmi_pending s ! i)" using assms(3) by (simp add: at_key_def)
  have ok: "pend_ok (vmi_pending s) (vmi_pending_seq s)" using assms(1) by (simp add: pend_state_def)
  show "pend_state (supersede a b i s)"
    using write_unfinished_abs(1) [of "vmi_debug _ s" i] assms u by (simp add: supersede_def)
  show "pend_abs (supersede a b i s) =
      (filter (\<lambda>q. \<not> at_key a b q) (inflight (vmi_pending s)),
       vmi_log s @ map (unfinished (vmi_addr s) ''superseded'') (filter (at_key a b) (inflight (vmi_pending s))))"
    using write_unfinished_abs(2) [of "vmi_debug _ s" i] assms u inflight_clear_key [OF ok assms(2,3)]
    by (simp add: pend_abs_def supersede_pending) (simp add: supersede_def)
qed

text \<open>The state after the scan: the earlier call with the key, if any, is ended.\<close>

lemma scanned_abs:
  assumes "pend_state s" "scanned a b (length (vmi_pending s)) s t"
  shows "pend_state t \<and> vmi_addr t = vmi_addr s \<and> vmi_pending_seq t = vmi_pending_seq s \<and>
    fault t = fault s \<and>
    pend_abs t = (filter (\<lambda>q. \<not> at_key a b q) (inflight (vmi_pending s)),
      vmi_log s @ map (unfinished (vmi_addr s) ''superseded'') (filter (at_key a b) (inflight (vmi_pending s))))"
  using assms(2) unfolding scanned_def
proof (elim disjE exE conjE)
  fix m assume "m < length (vmi_pending s)" "at_key a b (vmi_pending s ! m)" "t = supersede a b m s"
  with supersede_abs [OF assms(1)] assms(1) show ?thesis by (simp add: pend_state_def)
next
  assume none: "\<forall>m<length (vmi_pending s). \<not> at_key a b (vmi_pending s ! m)" and "t = s"
  with no_key_filter [of "vmi_pending s" a b] assms(1) show ?thesis by (simp add: pend_abs_def)
qed

definition entry_call :: "cpu \<Rightarrow> cpu_env \<Rightarrow> timeval \<Rightarrow> u64 \<Rightarrow> VmiPending" where
  "entry_call cs env tv sq =
     \<lparr>p_used = True, p_seq = sq, p_rsp = env_regs env R_ESP, p_rcx = env_regs env R_ECX,
      p_cpu_index = cs, p_num = env_regs env R_EAX, p_argv = vmi_read_args env, p_tv = tv\<rparr>"

lemma entry_call_simps [simp]:
  "p_used (entry_call cs env tv sq)" "p_seq (entry_call cs env tv sq) = sq"
  "p_rsp (entry_call cs env tv sq) = env_regs env R_ESP"
  "p_rcx (entry_call cs env tv sq) = env_regs env R_ECX"
  by (simp_all add: entry_call_def)

lemma word_less_succ: "w \<noteq> - 1 \<Longrightarrow> w < w + 1" for w :: u64
proof -
  assume "w \<noteq> - 1"
  then have "1 + w \<noteq> 0" by (metis add.commute add_eq_0_iff)
  then show ?thesis using unatSuc [of w] by (simp add: word_less_nat_alt add.commute)
qed

text \<open>Storing the new call in a free slot.\<close>

definition store_call :: "nat \<Rightarrow> VmiPending \<Rightarrow> 'k vmi \<Rightarrow> 'k vmi" where
  "store_call i new s = set_slot i new (s\<lparr>vmi_pending_seq := vmi_pending_seq s + 1\<rparr>)"

lemma store_call_abs:
  assumes "pend_state s" "i < length (vmi_pending s)" "\<not> p_used (vmi_pending s ! i)"
    and "p_used new" "p_seq new = vmi_pending_seq s" "vmi_pending_seq s \<noteq> - 1"
    and "\<And>j. j < length (vmi_pending s) \<Longrightarrow> \<not> at_key (p_rsp new) (p_rcx new) (vmi_pending s ! j)"
  shows "pend_state (store_call i new s)"
    and "pend_abs (store_call i new s) = (inflight (vmi_pending s) @ [new], vmi_log s)"
    and "fault (store_call i new s) = fault s"
proof -
  have ok: "pend_ok (vmi_pending s) (vmi_pending_seq s)" and fp: "vmi_log_fp s \<noteq> None"
    using assms(1) by (simp_all add: pend_state_def)
  have less: "vmi_pending_seq s < vmi_pending_seq s + 1"
    by (rule word_less_succ [OF assms(6)])
  show "pend_state (store_call i new s)"
    using pend_ok_store [OF ok assms(2-5) less assms(7)] fp
    by (simp add: store_call_def pend_state_def set_slot_def)
  show "pend_abs (store_call i new s) = (inflight (vmi_pending s) @ [new], vmi_log s)"
    using inflight_store [OF assms(2-4)] ok assms(5)
    by (simp add: store_call_def pend_abs_def set_slot_def pend_ok_def vmi_log_def)
  show "fault (store_call i new s) = fault s" by (simp add: store_call_def)
qed

lemma no_key_after:
  assumes "pend_abs t = (filter (\<lambda>q. \<not> at_key a b q) qs, l)" "j < length (vmi_pending t)"
  shows "\<not> at_key a b (vmi_pending t ! j)"
proof
  assume k: "at_key a b (vmi_pending t ! j)"
  with assms(2) have "vmi_pending t ! j \<in> set (inflight (vmi_pending t))"
    by (auto simp: inflight_nth at_key_def)
  with assms(1) k show False by (simp add: pend_abs_def)
qed

text \<open>When no slot is free, the least \<open>seq\<close> is evicted, which is the head of the queue.\<close>

lemma evict_abs:
  assumes "pend_state t" "free_below (vmi_pending t) (length (vmi_pending t)) None"
    and "oldest_below (vmi_pending t) (length (vmi_pending t)) oldest"
  shows "\<exists>j. oldest = Some j \<and> j < length (vmi_pending t) \<and> p_used (vmi_pending t ! j) \<and>
    pend_abs (vmi_write_unfinished j why t) =
      (tl (inflight (vmi_pending t)),
       vmi_log t @ [unfinished (vmi_addr t) why (hd (inflight (vmi_pending t)))]) \<and>
    length (inflight (vmi_pending t)) = VMI_PENDING_MAX"
proof -
  have ok: "pend_ok (vmi_pending t) (vmi_pending_seq t)" using assms(1) by (simp add: pend_state_def)
  then have len: "length (vmi_pending t) = VMI_PENDING_MAX"
    and d: "distinct (map p_seq (filter p_used (vmi_pending t)))" by (simp_all add: pend_ok_def)
  have used: "\<forall>i < length (vmi_pending t). p_used (vmi_pending t ! i)"
    using assms(2) by (simp add: free_below_def)
  moreover have "0 < length (vmi_pending t)" using len by (simp add: VMI_PENDING_MAX_def)
  ultimately have "oldest \<noteq> None" using assms(3) by (cases oldest) (auto simp: oldest_below_def)
  then obtain j where j: "oldest = Some j" by blast
  with assms(3) have jj: "j < length (vmi_pending t)" "p_used (vmi_pending t ! j)"
    "\<forall>i < length (vmi_pending t). p_used (vmi_pending t ! i) \<longrightarrow> p_seq (vmi_pending t ! j) \<le> p_seq (vmi_pending t ! i)"
    by (simp_all add: oldest_below_def)
  note q = inflight_oldest [OF ok jj]
  then have hd_tl: "hd (inflight (vmi_pending t)) = vmi_pending t ! j"
    "tl (inflight (vmi_pending t)) = filter (\<lambda>q. p_seq q \<noteq> p_seq (vmi_pending t ! j)) (inflight (vmi_pending t))"
    by (metis list.sel(1), metis list.sel(3))
  have "pend_abs (vmi_write_unfinished j why t) = (tl (inflight (vmi_pending t)),
       vmi_log t @ [unfinished (vmi_addr t) why (hd (inflight (vmi_pending t)))])"
    using write_unfinished_abs(2,3) [OF assms(1) jj(1,2)] inflight_clear [OF jj(1,2) d]
    by (simp add: pend_abs_def hd_tl)
  then show ?thesis using j jj len length_inflight_full [OF used] by simp
qed

lemma spec_entry_eq:
  "spec_entry rip new (q, l) =
     (let q1 = filter (\<lambda>p. \<not> at_key (p_rsp new) (p_rcx new) p) q;
          l1 = l @ map (unfinished rip ''superseded'') (filter (at_key (p_rsp new) (p_rcx new)) q)
      in if length q1 = VMI_PENDING_MAX then (tl q1 @ [new], l1 @ [unfinished rip ''evicted'' (hd q1)])
         else (q1 @ [new], l1))"
  by (simp add: spec_entry_def Let_def)

lemma vmi_handle_entry_refines:
  assumes st: "pend_state s" and ret: "vmi_ret_addr s \<noteq> 0" and sq: "vmi_pending_seq s \<noteq> - 1"
  shows "pend_state (vmi_handle_entry cs env tv s) \<and>
    pend_abs (vmi_handle_entry cs env tv s) =
      spec_entry (vmi_addr s) (entry_call cs env tv (vmi_pending_seq s)) (pend_abs s) \<and>
    fault (vmi_handle_entry cs env tv s) = fault s"
proof -
  let ?a = "env_regs env R_ESP" and ?b = "env_regs env R_ECX"
  define new where "new = entry_call cs env tv (vmi_pending_seq s)"
  have new: "p_used new" "p_seq new = vmi_pending_seq s" "p_rsp new = ?a" "p_rcx new = ?b"
    by (simp_all add: new_def)
  obtain t slot oldest where scan:
    "fold (entry_round ?a ?b) [0..<length (vmi_pending s)] (s, None, None) = (t, slot, oldest)"
    by (cases "fold (entry_round ?a ?b) [0..<length (vmi_pending s)] (s, None, None)") auto
  have ok: "pend_ok (vmi_pending s) (vmi_pending_seq s)" using st by (simp add: pend_state_def)
  from entry_scan [OF ok order_refl, of ?a ?b] scan
  have sc: "scanned ?a ?b (length (vmi_pending s)) s t"
    and free: "free_below (vmi_pending t) (length (vmi_pending t)) slot"
    and old: "oldest_below (vmi_pending t) (length (vmi_pending t)) oldest"
    by (auto simp: scanned_length)
  note t = scanned_abs [OF st sc]
  have nokey: "\<not> at_key (p_rsp new) (p_rcx new) (vmi_pending t ! j)" if "j < length (vmi_pending t)" for j
    using no_key_after [of t ?a ?b "inflight (vmi_pending s)"] t that by (auto simp: new)
  show ?thesis
  proof (cases slot)
    case (Some i)
    then have i: "i < length (vmi_pending t)" "\<not> p_used (vmi_pending t ! i)"
      using free by (simp_all add: free_below_def)
    have run: "vmi_handle_entry cs env tv s = store_call i new t"
      using ret scan t Some by (simp add: vmi_handle_entry_def Let_def store_call_def new_def entry_call_def)
    have "length (inflight (vmi_pending t)) \<noteq> VMI_PENDING_MAX"
      using length_inflight_free [OF i] t by (simp add: pend_state_def pend_ok_def)
    then show ?thesis
      using store_call_abs [of t i new] t i sq nokey new
      by (simp add: run new_def [symmetric] pend_abs_def spec_entry_eq Let_def)
  next
    case None
    let ?u = "vmi_debug ''[entry] pending table full -- evicting oldest as unfinished'' t"
    have su: "pend_state ?u" using t by simp
    obtain j where j: "oldest = Some j" "j < length (vmi_pending t)" "p_used (vmi_pending t ! j)"
      and ab: "pend_abs (vmi_write_unfinished j ''evicted'' ?u) = (tl (inflight (vmi_pending t)),
        vmi_log t @ [unfinished (vmi_addr t) ''evicted'' (hd (inflight (vmi_pending t)))])"
      and full: "length (inflight (vmi_pending t)) = VMI_PENDING_MAX"
      using evict_abs [OF su, of oldest "''evicted''"] free old None by auto
    let ?w = "vmi_write_unfinished j ''evicted'' ?u"
    note w = write_unfinished_abs [OF su, of j "''evicted''"]
    have wp: "vmi_pending ?w = (vmi_pending t)[j := (vmi_pending t ! j)\<lparr>p_used := False\<rparr>]"
      using w(3) j by simp
    have nokey': "\<not> at_key (p_rsp new) (p_rcx new) (vmi_pending ?w ! k)" if "k < length (vmi_pending ?w)" for k
      using nokey that unfolding wp by (cases "k = j") (auto simp: at_key_def)
    have run: "vmi_handle_entry cs env tv s = store_call j new ?w"
      using ret scan t None j by (simp add: vmi_handle_entry_def Let_def store_call_def new_def entry_call_def)
    have "pend_state ?w" using w(1) j by simp
    moreover have "\<not> p_used (vmi_pending ?w ! j)" using j by (simp add: wp)
    moreover have "vmi_pending_seq ?w = vmi_pending_seq s" "fault ?w = fault s"
      using t by (simp_all add: pend_state_def)
    ultimately show ?thesis
      using store_call_abs [of ?w j new] t j sq nokey' new ab full
      by (simp add: run new_def [symmetric] pend_abs_def spec_entry_eq Let_def wp)
  qed
qed

text \<open>A return takes the call with its key out of the queue and logs it with its result.\<close>

lemma vmi_handle_return_refines:
  assumes st: "pend_state s"
  shows "pend_state (vmi_handle_return cs env tv s) \<and>
    pend_abs (vmi_handle_return cs env tv s) =
      spec_return (vmi_addr s) (env_regs env R_ESP) (env_regs env R_ECX) (env_regs env R_EAX) tv (pend_abs s) \<and>
    fault (vmi_handle_return cs env tv s) = fault s"
proof -
  let ?a = "env_regs env R_ESP" and ?b = "env_regs env R_ECX" and ?ps = "vmi_pending s"
  have ok: "pend_ok ?ps (vmi_pending_seq s)" using st by (simp add: pend_state_def)
  show ?thesis
  proof (cases "find (\<lambda>i. at_key ?a ?b (?ps ! i)) [0..<length ?ps]")
    case None
    then have "\<And>i. i < length ?ps \<Longrightarrow> \<not> at_key ?a ?b (?ps ! i)" by (auto simp: find_None_iff)
    from no_key_filter [OF this] None st show ?thesis
      by (simp add: vmi_handle_return_def Let_def pend_abs_def spec_return_def)
  next
    case (Some i)
    then have i: "i < length ?ps" "at_key ?a ?b (?ps ! i)" by (auto simp: find_Some_iff)
    then have u: "p_used (?ps ! i)" by (simp add: at_key_def)
    have run: "vmi_handle_return cs env tv s = set_slot i ((?ps ! i)\<lparr>p_used := False\<rparr>)
        (vmi_write_event (returned (vmi_addr s) (env_regs env R_EAX) tv (?ps ! i)) s)"
      using Some by (simp add: vmi_handle_return_def Let_def returned_def)
    show ?thesis
      using st pend_ok_clear [OF ok i(1) u] inflight_clear_key [OF ok i]
      by (simp add: run pend_state_def pend_abs_def spec_return_def)
  qed
qed

text \<open>The flush logs the whole queue, oldest first.\<close>

lemma vmi_flush_pending_refines:
  "pend_state s \<Longrightarrow> pend_state (vmi_flush_pending why s) \<and>
    pend_abs (vmi_flush_pending why s) = spec_flush (vmi_addr s) why (pend_abs s) \<and>
    fault (vmi_flush_pending why s) = fault s"
proof (induction why s rule: vmi_flush_pending.induct)
  case (1 why s)
  let ?ps = "vmi_pending s"
  show ?case
  proof (cases "pick_oldest ?ps")
    case None
    with pick_oldest_spec [of ?ps] have "filter p_used ?ps = []"
      by (auto simp: filter_empty_conv in_set_conv_nth)
    then have "inflight ?ps = []" by (simp add: inflight_def)
    with None 1(2) show ?thesis
      by (simp add: vmi_flush_pending.simps [of why s] pend_abs_def spec_flush_def)
  next
    case (Some i)
    with pick_oldest_spec [of ?ps] have i: "i < length ?ps" "p_used (?ps ! i)"
      "\<forall>k < length ?ps. p_used (?ps ! k) \<longrightarrow> p_seq (?ps ! i) \<le> p_seq (?ps ! k)" by simp_all
    let ?w = "vmi_write_unfinished i why s"
    have ok: "pend_ok ?ps (vmi_pending_seq s)" using 1(2) by (simp add: pend_state_def)
    then have d: "distinct (map p_seq (filter p_used ?ps))" by (simp add: pend_ok_def)
    note w = write_unfinished_abs [OF 1(2) i(1,2), of why]
    have q: "inflight ?ps = ?ps ! i # inflight (vmi_pending ?w)"
      using inflight_oldest [OF ok i] inflight_clear [OF i(1,2) d] w(3) by simp
    from 1(1) [OF Some w(1)] w 1(2) show ?thesis
      by (simp add: vmi_flush_pending.simps [of why s] Some pend_abs_def spec_flush_def q pend_state_def)
  qed
qed

section \<open>Runs of traps\<close>

datatype trap =
    Entry_trap cpu cpu_env timeval
  | Return_trap cpu cpu_env timeval

primrec vmi_trap :: "'k vmi \<Rightarrow> trap \<Rightarrow> 'k vmi" where
  "vmi_trap s (Entry_trap cs env tv) = vmi_handle_entry cs env tv s"
| "vmi_trap s (Return_trap cs env tv) = vmi_handle_return cs env tv s"

primrec trap_is_entry :: "trap \<Rightarrow> bool" where
  "trap_is_entry (Entry_trap cs env tv) \<longleftrightarrow> True"
| "trap_is_entry (Return_trap cs env tv) \<longleftrightarrow> False"

primrec trap_key :: "trap \<Rightarrow> u64 \<times> u64" where
  "trap_key (Entry_trap cs env tv) = (env_regs env R_ESP, env_regs env R_ECX)"
| "trap_key (Return_trap cs env tv) = (env_regs env R_ESP, env_regs env R_ECX)"

definition entries :: "trap list \<Rightarrow> nat" where
  "entries ts = length (filter trap_is_entry ts)"

lemma entries_simps [simp]:
  "entries [] = 0"
  "entries (t # ts) = (if trap_is_entry t then 1 else 0) + entries ts"
  by (simp_all add: entries_def)

text \<open>The queue's view of a trap; the counter numbers the entries.\<close>

primrec spec_trap :: "u64 \<Rightarrow> pend_spec \<times> u64 \<Rightarrow> trap \<Rightarrow> pend_spec \<times> u64" where
  "spec_trap rip ql (Entry_trap cs env tv) =
     (spec_entry rip (entry_call cs env tv (snd ql)) (fst ql), snd ql + 1)"
| "spec_trap rip ql (Return_trap cs env tv) =
     (spec_return rip (env_regs env R_ESP) (env_regs env R_ECX) (env_regs env R_EAX) tv (fst ql), snd ql)"

definition capture_ready :: "'k vmi \<Rightarrow> bool" where
  "capture_ready s \<longleftrightarrow> pend_state s \<and> vmi_ret_addr s \<noteq> 0 \<and> \<not> fault s"

lemma fold_entry_round_fields:
  "case fold (entry_round a b) ns (s, sl, ol) of (t, _, _) \<Rightarrow>
     vmi_addr t = vmi_addr s \<and> vmi_ret_addr t = vmi_ret_addr s \<and> vmi_pending_seq t = vmi_pending_seq s \<and>
     hyp t = hyp s \<and> prefix (vmi_log s) (vmi_log t) \<and> (vmi_log_fp s \<noteq> None \<longrightarrow> vmi_log_fp t \<noteq> None)"
proof (induction ns arbitrary: s sl ol)
  case (Cons n ns)
  obtain t sl' ol' where r: "entry_round a b n (s, sl, ol) = (t, sl', ol')"
    by (cases "entry_round a b n (s, sl, ol)") auto
  then have "t = s \<or> t = supersede a b n s"
    by (auto simp: entry_round_def Let_def split: if_splits option.splits)
  then have "vmi_addr t = vmi_addr s \<and> vmi_ret_addr t = vmi_ret_addr s \<and> vmi_pending_seq t = vmi_pending_seq s \<and>
     hyp t = hyp s \<and> prefix (vmi_log s) (vmi_log t) \<and> (vmi_log_fp s \<noteq> None \<longrightarrow> vmi_log_fp t \<noteq> None)"
    by (auto simp: supersede_def vmi_write_unfinished_def Let_def vmi_write_event_def vmi_log_def split: option.splits)
  with Cons [of t sl' ol'] r show ?case by (auto split: prod.splits intro: prefix_order.trans)
qed simp

lemma vmi_handle_entry_frame:
  "vmi_addr (vmi_handle_entry cs env tv s) = vmi_addr s"
  "vmi_ret_addr (vmi_handle_entry cs env tv s) = vmi_ret_addr s"
  "hyp (vmi_handle_entry cs env tv s) = hyp s"
  "prefix (vmi_log s) (vmi_log (vmi_handle_entry cs env tv s))"
  "vmi_log_fp s \<noteq> None \<Longrightarrow> vmi_log_fp (vmi_handle_entry cs env tv s) \<noteq> None"
  "vmi_ret_addr s \<noteq> 0 \<Longrightarrow> vmi_log_fp s \<noteq> None \<Longrightarrow> fault (vmi_handle_entry cs env tv s) \<or>
    vmi_pending_seq (vmi_handle_entry cs env tv s) = vmi_pending_seq s + 1"
proof -
  let ?a = "env_regs env R_ESP" and ?b = "env_regs env R_ECX"
  obtain t slot oldest where scan:
    "fold (entry_round ?a ?b) [0..<length (vmi_pending s)] (s, None, None) = (t, slot, oldest)"
    by (cases "fold (entry_round ?a ?b) [0..<length (vmi_pending s)] (s, None, None)") auto
  note f = fold_entry_round_fields [where a = ?a and b = ?b and ns = "[0..<length (vmi_pending s)]"
      and s = s and sl = None and ol = None, unfolded scan, simplified]
  show "vmi_addr (vmi_handle_entry cs env tv s) = vmi_addr s"
    "vmi_ret_addr (vmi_handle_entry cs env tv s) = vmi_ret_addr s"
    "hyp (vmi_handle_entry cs env tv s) = hyp s"
    using f by (auto simp: vmi_handle_entry_def Let_def scan set_slot_def split: option.splits)
  show "prefix (vmi_log s) (vmi_log (vmi_handle_entry cs env tv s))"
    using f by (auto simp: vmi_handle_entry_def Let_def scan vmi_log_def vmi_write_event_def
        vmi_write_unfinished_def set_slot_def split: option.splits)
  show "vmi_log_fp s \<noteq> None \<Longrightarrow> vmi_log_fp (vmi_handle_entry cs env tv s) \<noteq> None"
    using f by (auto simp: vmi_handle_entry_def Let_def scan vmi_log_def vmi_write_event_def
        vmi_write_unfinished_def set_slot_def split: option.splits)
  show "vmi_ret_addr s \<noteq> 0 \<Longrightarrow> vmi_log_fp s \<noteq> None \<Longrightarrow> fault (vmi_handle_entry cs env tv s) \<or>
    vmi_pending_seq (vmi_handle_entry cs env tv s) = vmi_pending_seq s + 1"
    using f by (auto simp: vmi_handle_entry_def Let_def scan set_slot_def split: option.splits)
qed

lemma vmi_handle_return_frame:
  "vmi_addr (vmi_handle_return cs env tv s) = vmi_addr s"
  "vmi_ret_addr (vmi_handle_return cs env tv s) = vmi_ret_addr s"
  "hyp (vmi_handle_return cs env tv s) = hyp s"
  "vmi_pending_seq (vmi_handle_return cs env tv s) = vmi_pending_seq s"
  "prefix (vmi_log s) (vmi_log (vmi_handle_return cs env tv s))"
  "vmi_log_fp s \<noteq> None \<Longrightarrow> vmi_log_fp (vmi_handle_return cs env tv s) \<noteq> None"
  by (auto simp: vmi_handle_return_def Let_def vmi_log_def vmi_write_event_def set_slot_def split: option.splits)

lemma vmi_trap_frame [simp]:
  "vmi_addr (vmi_trap s t) = vmi_addr s" "vmi_ret_addr (vmi_trap s t) = vmi_ret_addr s"
  "hyp (vmi_trap s t) = hyp s"
  by (cases t; simp add: vmi_handle_entry_frame vmi_handle_return_frame)+

lemma vmi_trap_refines:
  assumes "capture_ready s" "trap_is_entry t \<Longrightarrow> vmi_pending_seq s \<noteq> - 1"
  shows "capture_ready (vmi_trap s t)"
    and "(pend_abs (vmi_trap s t), vmi_pending_seq (vmi_trap s t)) =
      spec_trap (vmi_addr s) (pend_abs s, vmi_pending_seq s) t"
    and "vmi_pending_seq (vmi_trap s t) = vmi_pending_seq s + (if trap_is_entry t then 1 else 0)"
proof -
  have s: "pend_state s" "vmi_ret_addr s \<noteq> 0" "\<not> fault s" "vmi_log_fp s \<noteq> None"
    using assms(1) by (simp_all add: capture_ready_def pend_state_def)
  have "capture_ready (vmi_trap s t) \<and> (pend_abs (vmi_trap s t), vmi_pending_seq (vmi_trap s t)) =
      spec_trap (vmi_addr s) (pend_abs s, vmi_pending_seq s) t \<and>
      vmi_pending_seq (vmi_trap s t) = vmi_pending_seq s + (if trap_is_entry t then 1 else 0)"
  proof (cases t)
    case (Entry_trap cs env tv)
    with vmi_handle_entry_refines [OF s(1,2), of cs env tv] vmi_handle_entry_frame(6) [OF s(2,4), of cs env tv]
      assms(2) s vmi_trap_frame(2) [of s t]
    show ?thesis by (simp add: capture_ready_def)
  next
    case (Return_trap cs env tv)
    with vmi_handle_return_refines [OF s(1), of cs env tv] s vmi_trap_frame(2) [of s t]
    show ?thesis by (simp add: capture_ready_def vmi_handle_return_frame)
  qed
  then show "capture_ready (vmi_trap s t)"
    "(pend_abs (vmi_trap s t), vmi_pending_seq (vmi_trap s t)) =
      spec_trap (vmi_addr s) (pend_abs s, vmi_pending_seq s) t"
    "vmi_pending_seq (vmi_trap s t) = vmi_pending_seq s + (if trap_is_entry t then 1 else 0)" by blast+
qed

text \<open>No entry of the run uses the last counter value.\<close>

definition seq_room :: "'k vmi \<Rightarrow> trap list \<Rightarrow> bool" where
  "seq_room s ts \<longleftrightarrow> unat (vmi_pending_seq s) + entries ts < 2 ^ 64"

lemma vmi_run_refines:
  assumes "capture_ready s" "seq_room s ts"
  shows "capture_ready (foldl vmi_trap s ts)"
    and "(pend_abs (foldl vmi_trap s ts), vmi_pending_seq (foldl vmi_trap s ts)) =
      foldl (spec_trap (vmi_addr s)) (pend_abs s, vmi_pending_seq s) ts"
    and "unat (vmi_pending_seq (foldl vmi_trap s ts)) = unat (vmi_pending_seq s) + entries ts"
  using assms
proof (induction ts arbitrary: s)
  case (Cons t ts)
  {
    fix s :: "'a vmi" assume ready: "capture_ready s" and room: "seq_room s (t # ts)"
    have n: "vmi_pending_seq s \<noteq> - 1" if "trap_is_entry t"
    proof
      assume m: "vmi_pending_seq s = - 1"
      have "unat (- 1 :: u64) = 2 ^ 64 - 1" by (simp add: unsigned_minus_1_eq_mask mask_eq_exp_minus_1)
      with room that m show False by (simp add: seq_room_def)
    qed
    note r = vmi_trap_refines [OF ready n]
    have "unat (vmi_pending_seq (vmi_trap s t)) = unat (vmi_pending_seq s) + (if trap_is_entry t then 1 else 0)"
      using r(3) room unat_word_ariths(1) [of "vmi_pending_seq s" 1]
      by (auto simp: seq_room_def)
    with r room have "capture_ready (vmi_trap s t)" "seq_room (vmi_trap s t) ts"
      "(pend_abs (vmi_trap s t), vmi_pending_seq (vmi_trap s t)) =
        spec_trap (vmi_addr s) (pend_abs s, vmi_pending_seq s) t"
      "unat (vmi_pending_seq (vmi_trap s t)) = unat (vmi_pending_seq s) + (if trap_is_entry t then 1 else 0)"
      by (auto simp: seq_room_def)
  }
  note step = this
  { case 1 then show ?case using step Cons.IH(1) by simp }
  { case 2 then show ?case using step [of s] Cons.IH(2) [of "vmi_trap s t"] by simp }
  { case 3 then show ?case using step [of s] Cons.IH(3) [of "vmi_trap s t"] by simp }
qed (simp_all add: seq_room_def)

section \<open>What the capture promises\<close>

interpretation pend: recorder vmi_trap vmi_log "\<lambda>s. vmi_log_fp s \<noteq> None"
proof unfold_locales
  fix s :: "'k vmi" and t
  assume "vmi_log_fp s \<noteq> None"
  then show "vmi_log_fp (vmi_trap s t) \<noteq> None"
    by (cases t) (simp_all add: vmi_handle_entry_frame vmi_handle_return_frame)
  show "prefix (vmi_log s) (vmi_log (vmi_trap s t))"
    by (cases t) (simp_all add: vmi_handle_entry_frame vmi_handle_return_frame)
qed

text \<open>A call, as the log and the table hold it: vCPU, number, arguments, time of entry.\<close>

type_synonym call = "cpu \<times> u64 \<times> u64 list \<times> timeval"

definition event_call :: "VmiEvent \<Rightarrow> call" where
  "event_call e = (e_cpu e, e_num e, e_argv e, e_tv e)"

definition pend_call :: "VmiPending \<Rightarrow> call" where
  "pend_call p = (p_cpu_index p, p_num p, p_argv p, p_tv p)"

primrec trap_call :: "trap \<Rightarrow> call" where
  "trap_call (Entry_trap cs env tv) = (cs, env_regs env R_EAX, vmi_read_args env, tv)"
| "trap_call (Return_trap cs env tv) = (cs, env_regs env R_EAX, vmi_read_args env, tv)"

definition entry_calls :: "trap list \<Rightarrow> call list" where
  "entry_calls ts = map trap_call (filter trap_is_entry ts)"

lemma event_call_pending [simp]:
  "event_call (unfinished rip why p) = pend_call p"
  "event_call (returned rip rax tv p) = pend_call p"
  by (simp_all add: event_call_def pend_call_def unfinished_def returned_def pending_event_def)

lemma pend_call_entry_call [simp]:
  "pend_call (entry_call cs env tv sq) = (cs, env_regs env R_EAX, vmi_read_args env, tv)"
  by (simp add: pend_call_def entry_call_def)

definition spec_calls :: "pend_spec \<Rightarrow> call multiset" where
  "spec_calls ql = mset (map pend_call (fst ql)) + mset (map event_call (snd ql))"

lemma mset_filter_split: "mset (map f (filter P xs)) + mset (map f (filter (\<lambda>x. \<not> P x) xs)) = mset (map f xs)"
  by (induction xs) auto

lemma map_event_call_pending [simp]:
  "map (event_call \<circ> unfinished rip why) q = map pend_call q"
  "map (event_call \<circ> returned rip rax tv) q = map pend_call q"
  by simp_all

lemma spec_entry_calls: "spec_calls (spec_entry rip new ql) = spec_calls ql + {#pend_call new#}"
proof -
  obtain q l where ql: "ql = (q, l)" by (cases ql)
  let ?k = "at_key (p_rsp new) (p_rcx new)"
  let ?q1 = "filter (\<lambda>p. \<not> ?k p) q"
  have parts: "mset (map pend_call q) = mset (map pend_call (filter ?k q)) + mset (map pend_call ?q1)"
    by (rule mset_filter_split [symmetric])
  show ?thesis
  proof (cases "length ?q1 = VMI_PENDING_MAX")
    case True
    then obtain p ps where "?q1 = p # ps" by (cases ?q1) (auto simp: VMI_PENDING_MAX_def)
    then show ?thesis using True by (simp add: ql spec_entry_eq Let_def spec_calls_def parts del: mset_map mset_filter)
  next
    case False
    then show ?thesis by (simp add: ql spec_entry_eq Let_def spec_calls_def parts del: mset_map mset_filter)
  qed
qed

lemma spec_return_calls: "spec_calls (spec_return rip a b rax tv ql) = spec_calls ql"
proof -
  obtain q l where ql: "ql = (q, l)" by (cases ql)
  have parts: "mset (map pend_call q) = mset (map pend_call (filter (at_key a b) q)) +
      mset (map pend_call (filter (\<lambda>p. \<not> at_key a b p) q))"
    by (rule mset_filter_split [symmetric])
  show ?thesis
    by (simp add: ql spec_return_def spec_calls_def parts del: mset_map mset_filter)
qed

lemma spec_run_calls:
  "spec_calls (fst (foldl (spec_trap rip) ql ts)) = spec_calls (fst ql) + mset (entry_calls ts)"
proof (induction ts arbitrary: ql)
  case (Cons t ts)
  show ?case
    unfolding foldl.simps Cons.IH
    by (cases t) (simp_all add: entry_calls_def spec_entry_calls spec_return_calls)
qed (simp add: entry_calls_def)

lemma run_abs:
  "capture_ready s \<Longrightarrow> seq_room s ts \<Longrightarrow>
   pend_abs (foldl vmi_trap s ts) = fst (foldl (spec_trap (vmi_addr s)) (pend_abs s, vmi_pending_seq s) ts)"
  using vmi_run_refines(2) by (metis fst_conv)

lemma run_addr [simp]:
  "vmi_addr (foldl vmi_trap s ts) = vmi_addr s" "vmi_ret_addr (foldl vmi_trap s ts) = vmi_ret_addr s"
  by (induction ts arbitrary: s) simp_all

lemma pend_abs_simps: "pend_abs s = (q, l) \<longleftrightarrow> inflight (vmi_pending s) = q \<and> vmi_log s = l"
  by (simp add: pend_abs_def)

text \<open>A call stays in the queue until its key comes back, or 64 later calls push it out.\<close>

lemma spec_entry_keeps:
  assumes "\<not> at_key (p_rsp new) (p_rcx new) c" "length B < VMI_PENDING_MAX - 1"
  shows "\<exists>A' B' l'. spec_entry rip new (A @ c # B, l) = (A' @ c # B', l') \<and> length B' \<le> Suc (length B)"
proof -
  let ?P = "\<lambda>p. \<not> at_key (p_rsp new) (p_rcx new) p"
  let ?A = "filter ?P A" and ?B = "filter ?P B"
  have q: "filter ?P (A @ c # B) = ?A @ c # ?B" using assms(1) by simp
  have len: "length (?B @ [new]) \<le> Suc (length B)" by simp
  obtain l1 l2 where e: "spec_entry rip new (A @ c # B, l) =
      (if length (?A @ c # ?B) = VMI_PENDING_MAX then (tl (?A @ c # ?B) @ [new], l1)
       else ((?A @ c # ?B) @ [new], l2))"
    unfolding spec_entry_eq Let_def q by blast
  show ?thesis
  proof (cases "length (?A @ c # ?B) = VMI_PENDING_MAX")
    case True
    then have "?A \<noteq> []" using assms(2) le_less_trans [OF length_filter_le [of ?P B]] by fastforce
    then obtain x A' where "?A = x # A'" by (cases ?A) auto
    with True e have "spec_entry rip new (A @ c # B, l) = (A' @ c # (?B @ [new]), l1)" by simp
    with len show ?thesis by blast
  next
    case False
    with e have "spec_entry rip new (A @ c # B, l) = (?A @ c # (?B @ [new]), l2)" by simp
    with len show ?thesis by blast
  qed
qed

lemma spec_run_keeps:
  assumes "\<And>t. t \<in> set ts \<Longrightarrow> trap_key t \<noteq> (p_rsp c, p_rcx c)"
    and "length B + entries ts < VMI_PENDING_MAX"
  shows "\<exists>A' B' l' sq'. foldl (spec_trap rip) ((A @ c # B, l), sq) ts = ((A' @ c # B', l'), sq')"
  using assms
proof (induction ts arbitrary: A B l sq)
  case (Cons t ts)
  show ?case
  proof (cases t)
    case (Entry_trap cs env tv)
    let ?new = "entry_call cs env tv sq"
    have "\<not> at_key (p_rsp ?new) (p_rcx ?new) c"
      using Cons.prems(1) [of t] Entry_trap by (auto simp: at_key_def)
    moreover have "length B < VMI_PENDING_MAX - 1" using Cons.prems(2) Entry_trap by simp
    ultimately obtain A' B' l' where
      e: "spec_entry rip ?new (A @ c # B, l) = (A' @ c # B', l')" "length B' \<le> Suc (length B)"
      using spec_entry_keeps by blast
    have "length B' + entries ts < VMI_PENDING_MAX" using e(2) Cons.prems(2) Entry_trap by simp
    from Cons.IH [OF _ this, of A' l' "sq + 1"] Cons.prems(1) e(1) show ?thesis
      by (simp add: Entry_trap)
  next
    case (Return_trap cs env tv)
    let ?P = "\<lambda>p. \<not> at_key (env_regs env R_ESP) (env_regs env R_ECX) p"
    have "?P c" using Cons.prems(1) [of t] Return_trap by (auto simp: at_key_def)
    then obtain l' where r: "spec_return rip (env_regs env R_ESP) (env_regs env R_ECX) (env_regs env R_EAX) tv
        (A @ c # B, l) = (filter ?P A @ c # filter ?P B, l')"
      by (simp add: spec_return_def)
    have "length (filter ?P B) + entries ts < VMI_PENDING_MAX"
      using Cons.prems(2) Return_trap le_less_trans [OF add_right_mono [OF length_filter_le [of ?P B]]] by simp
    from Cons.IH [OF _ this, of "filter ?P A" l' sq] Cons.prems(1) r show ?thesis
      by (simp add: Return_trap)
  qed
qed auto

lemma inflight_key_single:
  assumes "pend_ok ps sq" "c \<in> set (inflight ps)" "at_key a b c"
  shows "filter (at_key a b) (inflight ps) = [c]"
proof -
  obtain j where "j < length ps" "c = ps ! j" using assms(2) by (auto simp: inflight_nth)
  with inflight_clear_key(2) [OF assms(1)] assms(3) show ?thesis by simp
qed

lemma capture_calls:
  assumes "capture_ready s" "seq_room s ts"
  shows "inflight (vmi_pending (vmi_flush_pending why (foldl vmi_trap s ts))) = []"
    and "mset (map event_call (vmi_log (vmi_flush_pending why (foldl vmi_trap s ts)))) =
      mset (map event_call (vmi_log s)) + mset (map pend_call (inflight (vmi_pending s))) +
      mset (entry_calls ts)"
    and "pend_abs (vmi_flush_pending why (foldl vmi_trap s ts)) =
      spec_flush (vmi_addr s) why (fst (foldl (spec_trap (vmi_addr s)) (pend_abs s, vmi_pending_seq s) ts))"
proof -
  let ?u = "foldl vmi_trap s ts"
  have ok: "pend_state ?u" using vmi_run_refines(1) [OF assms] by (simp add: capture_ready_def)
  have calls: "spec_calls (pend_abs ?u) = spec_calls (pend_abs s) + mset (entry_calls ts)"
    using run_abs [OF assms] spec_run_calls by (metis fst_conv)
  note flushed = vmi_flush_pending_refines [OF ok, of why]
  have flush: "inflight (vmi_pending (vmi_flush_pending why ?u)) = []"
    "vmi_log (vmi_flush_pending why ?u) = vmi_log ?u @ map (unfinished (vmi_addr ?u) why) (inflight (vmi_pending ?u))"
    using flushed by (simp_all add: pend_abs_def spec_flush_def)
  show "inflight (vmi_pending (vmi_flush_pending why ?u)) = []" by (rule flush)
  show "mset (map event_call (vmi_log (vmi_flush_pending why ?u))) =
      mset (map event_call (vmi_log s)) + mset (map pend_call (inflight (vmi_pending s))) + mset (entry_calls ts)"
    using calls by (simp add: flush spec_calls_def pend_abs_def ac_simps del: mset_map)
  show "pend_abs (vmi_flush_pending why ?u) =
      spec_flush (vmi_addr s) why (fst (foldl (spec_trap (vmi_addr s)) (pend_abs s, vmi_pending_seq s) ts))"
    using flushed run_abs [OF assms] by simp
qed

section \<open>Properties\<close>

text \<open>
  C1: return-value pairing. A call whose entry trapped is logged by the first return with
  its \<open>rsp\<close> and \<open>rcx\<close>, with its own vCPU, number, arguments and entry time, and the
  result and time of that return, whatever other traps came in between, as long as none
  of them had the same key and fewer than 64 of them were entries.
\<close>

theorem vmi_return_pairs:
  assumes ready: "capture_ready s"
    and room: "seq_room s (Entry_trap cs env tv # ts)"
    and other: "\<forall>t \<in> set ts. trap_key t \<noteq> (env_regs env R_ESP, env_regs env R_ECX)"
    and few: "entries ts < VMI_PENDING_MAX"
    and key: "env_regs env' R_ESP = env_regs env R_ESP" "env_regs env' R_ECX = env_regs env R_ECX"
  shows "vmi_log (foldl vmi_trap s (Entry_trap cs env tv # ts @ [Return_trap cs' env' tv'])) =
    vmi_log (foldl vmi_trap s (Entry_trap cs env tv # ts)) @
      [\<lparr>e_rip = vmi_addr s, e_cpu = cs, e_num = env_regs env R_EAX, e_argv = vmi_read_args env, e_tv = tv,
        e_kind = VMI_RET_VALUE (sint (env_regs env' R_EAX)) tv'\<rparr>]"
proof -
  let ?es = "Entry_trap cs env tv # ts"
  let ?u = "foldl vmi_trap s ?es" and ?c = "entry_call cs env tv (vmi_pending_seq s)"
  have "\<exists>A l. spec_entry (vmi_addr s) ?c (pend_abs s) = (A @ ?c # [], l)"
    by (cases "pend_abs s") (simp add: spec_entry_eq Let_def)
  then obtain A l where e: "spec_entry (vmi_addr s) ?c (pend_abs s) = (A @ ?c # [], l)" by blast
  have "\<exists>A' B' l' sq'. foldl (spec_trap (vmi_addr s)) ((A @ ?c # [], l), vmi_pending_seq s + 1) ts =
      ((A' @ ?c # B', l'), sq')"
    by (rule spec_run_keeps) (use other few in auto)
  then obtain A' B' l' where q: "inflight (vmi_pending ?u) = A' @ ?c # B'"
    using run_abs [OF ready room] e by (auto simp: pend_abs_simps)
  have ok: "pend_state ?u" using vmi_run_refines(1) [OF ready room] by (simp add: capture_ready_def)
  have "filter (at_key (env_regs env R_ESP) (env_regs env R_ECX)) (inflight (vmi_pending ?u)) = [?c]"
    by (rule inflight_key_single [of _ "vmi_pending_seq ?u"])
      (use ok q in \<open>simp_all add: pend_state_def at_key_def\<close>)
  with vmi_handle_return_refines [OF ok, of cs' env' tv'] key
  have "vmi_log (vmi_handle_return cs' env' tv' ?u) = vmi_log ?u @ [returned (vmi_addr s) (env_regs env' R_EAX) tv' ?c]"
    by (simp add: pend_abs_def spec_return_def del: foldl_Cons)
  then show ?thesis
    by (simp add: returned_def pending_event_def entry_call_def)
qed

text \<open>A monitor just enabled, and the registers of one guest thread, for the examples.\<close>

definition sample_vmi :: "unit vmi" where
  "sample_vmi = (vmi_zero ())\<lparr>vmi_enabled := True, vmi_addr := 0x1000, vmi_ret_addr := 0x2000,
     vmi_log_fp := Some []\<rparr>"

definition sample_env :: "u64 \<Rightarrow> u64 \<Rightarrow> cpu_env" where
  "sample_env rsp rax = \<lparr>env_regs = (\<lambda>_. 7)(R_ESP := rsp, R_EAX := rax), env_eip = 0x1000\<rparr>"

definition sample_time :: "int \<Rightarrow> timeval" where
  "sample_time n = \<lparr>tv_sec = 1, tv_usec = n\<rparr>"

lemma capture_ready_sample: "capture_ready sample_vmi"
  by (simp add: capture_ready_def pend_state_def pend_ok_def sample_vmi_def vmi_zero_def pending_zero_def)

lemma sample_vmi_fields [simp]:
  "vmi_pending_seq sample_vmi = 0" "vmi_log sample_vmi = []" "vmi_log_fp sample_vmi = Some []"
  "vmi_addr sample_vmi = 0x1000" "inflight (vmi_pending sample_vmi) = []"
  by (simp_all add: sample_vmi_def vmi_zero_def vmi_log_def inflight_def pending_zero_def)

lemma vmi_return_pairs_witness:
  "vmi_log (foldl vmi_trap sample_vmi
     (Entry_trap 0 (sample_env 0x7f00 1) (sample_time 0) #
      [Entry_trap 1 (sample_env 0x7e00 0) (sample_time 1), Return_trap 1 (sample_env 0x7e00 0) (sample_time 2)] @
      [Return_trap 1 (sample_env 0x7f00 5) (sample_time 3)])) =
   vmi_log (foldl vmi_trap sample_vmi
     (Entry_trap 0 (sample_env 0x7f00 1) (sample_time 0) #
      [Entry_trap 1 (sample_env 0x7e00 0) (sample_time 1), Return_trap 1 (sample_env 0x7e00 0) (sample_time 2)])) @
   [\<lparr>e_rip = 0x1000, e_cpu = 0, e_num = 1, e_argv = vmi_read_args (sample_env 0x7f00 1), e_tv = sample_time 0,
     e_kind = VMI_RET_VALUE 5 (sample_time 3)\<rparr>]"
  using vmi_return_pairs [OF capture_ready_sample, of 0 "sample_env 0x7f00 1" "sample_time 0"
      "[Entry_trap 1 (sample_env 0x7e00 0) (sample_time 1), Return_trap 1 (sample_env 0x7e00 0) (sample_time 2)]"
      "sample_env 0x7f00 5" 1 "sample_time 3"]
  by (simp add: sample_env_def seq_room_def VMI_PENDING_MAX_def)

text \<open>
  C3: the pending table implements the queue of calls in flight: over any run of entry and
  return traps, the array and the log are what the queue specification computes, no null
  pointer is used, and never more than 64 calls are in flight.
\<close>

theorem vmi_run_implements_queue:
  assumes "capture_ready s" "seq_room s ts"
  shows "pend_abs (foldl vmi_trap s ts) = fst (foldl (spec_trap (vmi_addr s)) (pend_abs s, vmi_pending_seq s) ts)
    \<and> length (inflight (vmi_pending (foldl vmi_trap s ts))) \<le> VMI_PENDING_MAX
    \<and> \<not> fault (foldl vmi_trap s ts)"
proof -
  have ready: "capture_ready (foldl vmi_trap s ts)" by (rule vmi_run_refines(1) [OF assms])
  then have "length (vmi_pending (foldl vmi_trap s ts)) = VMI_PENDING_MAX"
    by (simp add: capture_ready_def pend_state_def pend_ok_def)
  then have "length (inflight (vmi_pending (foldl vmi_trap s ts))) \<le> VMI_PENDING_MAX"
    by (metis length_inflight length_filter_le)
  with ready run_abs [OF assms] show ?thesis by (simp add: capture_ready_def)
qed

lemma vmi_run_implements_queue_witness:
  "length (inflight (vmi_pending (foldl vmi_trap sample_vmi
     [Entry_trap 0 (sample_env 0x7f00 1) (sample_time 0)]))) \<le> VMI_PENDING_MAX"
  using vmi_run_implements_queue [OF capture_ready_sample, of "[Entry_trap 0 (sample_env 0x7f00 1) (sample_time 0)]"]
  by (simp add: seq_room_def)

text \<open>
  C2: no syscall is lost, duplicated or mixed up. After a run of traps and the flush at
  shutdown, the table is empty and the calls in the log are exactly those logged before,
  those in flight before and those whose entry trapped, each once, with its own vCPU,
  number, arguments and time of entry.
\<close>

theorem vmi_capture_conserves:
  assumes "capture_ready s" "seq_room s ts"
  shows "inflight (vmi_pending (vmi_flush_pending why (foldl vmi_trap s ts))) = [] \<and>
    mset (map event_call (vmi_log (vmi_flush_pending why (foldl vmi_trap s ts)))) =
      mset (map event_call (vmi_log s)) + mset (map pend_call (inflight (vmi_pending s))) +
      mset (entry_calls ts)"
  using capture_calls(1,2) [OF assms] by (intro conjI)

lemma vmi_capture_conserves_witness:
  "mset (map event_call (vmi_log (vmi_flush_pending ''shutdown'' (foldl vmi_trap sample_vmi
     [Entry_trap 0 (sample_env 0x7f00 1) (sample_time 0), Entry_trap 0 (sample_env 0x7f00 2) (sample_time 1)])))) =
   {#(0, 1, vmi_read_args (sample_env 0x7f00 1), sample_time 0),
     (0, 2, vmi_read_args (sample_env 0x7f00 2), sample_time 1)#}"
  using vmi_capture_conserves [OF capture_ready_sample,
      of "[Entry_trap 0 (sample_env 0x7f00 1) (sample_time 0), Entry_trap 0 (sample_env 0x7f00 2) (sample_time 1)]"
      "''shutdown''"]
  by (simp add: seq_room_def entry_calls_def) (simp add: sample_env_def)

text \<open>The capture file only grows: what is logged stays, at the same place.\<close>

lemma vmi_log_append_only:
  assumes "vmi_log_fp s \<noteq> None"
  shows "prefix (vmi_log (foldl vmi_trap s ts)) (vmi_log (foldl vmi_trap s (ts @ us)))"
  by (rule pend.run_log_mono [OF assms])

end
