(* ===== verification/Vmi_Monitor.thy ===== *)
theory Vmi_Monitor
  imports Pending_Refine
begin

text \<open>
  The operations of the QEMU-side monitor: arming and verifying the breakpoints, the
  periodic retry and the boot-time hook, the run-state handler, initialisation from the
  environment, and the two halves of a step-over. The KVM functions are the argument
  \<open>K\<close>; clock readings, \<open>first_cpu\<close> and the results of \<open>getenv\<close> and
  \<open>fopen\<close> are arguments too.
\<close>

section \<open>Calls into KVM\<close>

definition kvm_remove_breakpoint :: "'k kvm \<Rightarrow> cpu \<Rightarrow> u64 \<Rightarrow> 'k vmi \<Rightarrow> 'k vmi \<times> int" where
  "kvm_remove_breakpoint K cs a s = (let (h, err) = remove_bp K cs a (hyp s) in (s\<lparr>hyp := h\<rparr>, err))"

definition kvm_insert_breakpoint :: "'k kvm \<Rightarrow> cpu \<Rightarrow> u64 \<Rightarrow> 'k vmi \<Rightarrow> 'k vmi \<times> int" where
  "kvm_insert_breakpoint K cs a s = (let (h, err) = insert_bp K cs a (hyp s) in (s\<lparr>hyp := h\<rparr>, err))"

definition cpu_single_step :: "'k kvm \<Rightarrow> cpu \<Rightarrow> bool \<Rightarrow> 'k vmi \<Rightarrow> 'k vmi" where
  "cpu_single_step K cs on s = s\<lparr>hyp := single_step K cs on (hyp s)\<rparr>"

section \<open>Arming\<close>

text \<open>\<open>0x%02x\<close> of a byte.\<close>

definition hex02 :: "u8 \<Rightarrow> string" where
  "hex02 b = (let ds = nat_digits 16 (unat b) in ''0x'' @ replicate (2 - length ds) (CHR ''0'') @ ds)"

definition tagged :: "string \<Rightarrow> string \<Rightarrow> string" where
  "tagged tag m = ''['' @ tag @ ''] '' @ m"

definition vmi_arm_addr :: "'k kvm \<Rightarrow> cpu \<Rightarrow> u64 \<Rightarrow> string \<Rightarrow> 'k vmi \<Rightarrow> 'k vmi \<times> bool" where
  "vmi_arm_addr K cs a tag s =
     (let s1 = fst (kvm_remove_breakpoint K cs a s);
          (s2, err) = kvm_insert_breakpoint K cs a s1
      in if err \<noteq> 0 then
           (vmi_debug (tagged tag (''kvm_insert_breakpoint('' @ hex0x a @ '') failed: '' @ c_dec err)) s2, False)
         else (case read_byte K cs a (hyp s2) of
           None \<Rightarrow>
             (fst (kvm_remove_breakpoint K cs a (vmi_debug (tagged tag
                ''verification read itself failed -- address translation likely not established yet'') s2)),
              False)
         | Some b \<Rightarrow>
             if b \<noteq> 0xcc then
               (fst (kvm_remove_breakpoint K cs a (vmi_debug (tagged tag
                  (''readback='' @ hex02 b @ '', NOT 0xcc (Phase 5-style silent failure)'')) s2)), False)
             else (vmi_debug (tagged tag (''readback=0xcc confirmed at '' @ hex0x a)) s2, True)))"

definition vmi_arm_once :: "'k kvm \<Rightarrow> cpu \<Rightarrow> string \<Rightarrow> 'k vmi \<Rightarrow> 'k vmi \<times> bool" where
  "vmi_arm_once K cs tag s =
     (let (s1, ok) = vmi_arm_addr K cs (vmi_addr s) tag s in
      if \<not> ok then (s1, False)
      else if vmi_ret_addr s1 = 0 then (s1, True)
      else
        (let (s2, ok2) = vmi_arm_addr K cs (vmi_ret_addr s1) tag s1 in
         if \<not> ok2 then (fst (kvm_remove_breakpoint K cs (vmi_addr s2) s2), False)
         else (s2, True)))"

section \<open>The retry timer\<close>

text \<open>\<open>if (vmi_arm_timer) \<dots> timer_free, vmi_arm_timer = NULL\<close>.\<close>

definition arm_timer_free :: "'k vmi \<Rightarrow> 'k vmi" where
  "arm_timer_free s = (if vmi_arm_timer s = None then s else s\<lparr>vmi_arm_timer := None\<rparr>)"

definition timer_mod :: "int \<Rightarrow> 'k vmi \<Rightarrow> 'k vmi" where
  "timer_mod t s =
     (case vmi_arm_timer s of
        None \<Rightarrow> s\<lparr>fault := True\<rparr>
      | Some _ \<Rightarrow> s\<lparr>vmi_arm_timer := Some (Timer_at t)\<rparr>)"

text \<open>\<open>%d/%d\<close> of the attempt counter and its limit.\<close>

definition attempts_text :: "'k vmi \<Rightarrow> string" where
  "attempts_text s = c_dec (vmi_arm_attempts s) @ ''/'' @ c_dec VMI_ARM_MAX_ATTEMPTS"

definition vmi_try_arm :: "'k kvm \<Rightarrow> cpu \<Rightarrow> int \<Rightarrow> 'k vmi \<Rightarrow> 'k vmi" where
  "vmi_try_arm K cs now s =
     (if vmi_first_hit_seen s \<or> vmi_boot_sync_ok s then arm_timer_free s
      else
        (let s1 = s\<lparr>vmi_arm_attempts := vmi_arm_attempts s + 1\<rparr>;
             s2 = vmi_debug (''[arm] attempt '' @ attempts_text s1 @
                    '': re-arming (remove-then-insert) at '' @ hex0x (vmi_addr s1)) s1;
             (s3, ok) = vmi_arm_once K cs ''arm'' s2
         in if ok then
              (let s4 = report Info_report (''vmi-monitor: breakpoint armed and VERIFIED at '' @
                     hex0x (vmi_addr s3) @ '' (0xcc confirmed via memory readback; attempt '' @
                     attempts_text s3 @ ''; still monitoring for revert until first real hit)'') s3
               in if VMI_ARM_MAX_ATTEMPTS \<le> vmi_arm_attempts s4 then
                    arm_timer_free
                      (report Error_report (''vmi-monitor: gave up re-verifying breakpoint at '' @
                          hex0x (vmi_addr s4) @ '' after '' @ c_dec (vmi_arm_attempts s4) @
                          '' attempts without ever observing a real hit -- capture may be silently inactive.'')
                        (vmi_debug (''[arm] reached max attempts while still re-verifying; '' @
                           ''leaving last-known-good state and giving up on further '' @
                           ''checks (breakpoint may or may not still be live)'') s4))
                  else timer_mod (now + VMI_ARM_RETRY_MS) s4)
            else
              (let s4 = report Warn_report (''vmi-monitor: arm attempt '' @ attempts_text s3 @ '' at '' @
                     hex0x (vmi_addr s3) @ '' did not stick -- retrying in '' @ c_dec VMI_ARM_RETRY_MS @ '' ms'') s3
               in if VMI_ARM_MAX_ATTEMPTS \<le> vmi_arm_attempts s4 then
                    arm_timer_free
                      (report Error_report (''vmi-monitor: FAILED to arm breakpoint at '' @
                          hex0x (vmi_addr s4) @ '' after '' @ c_dec (vmi_arm_attempts s4) @
                          '' attempts over ~'' @ c_dec (vmi_arm_attempts s4 * VMI_ARM_RETRY_MS) @
                          '' ms -- syscall capture is NOT active. Guest continues to run unmonitored.'')
                        (vmi_debug (''[arm] giving up after '' @ c_dec (vmi_arm_attempts s4) @ '' attempts'') s4))
                  else timer_mod (now + VMI_ARM_RETRY_MS) s4)))"

section \<open>The boot-time hook\<close>

definition vmi_monitor_kernel_loaded :: "'k kvm \<Rightarrow> cpu \<Rightarrow> 'k vmi \<Rightarrow> 'k vmi" where
  "vmi_monitor_kernel_loaded K cs s =
     (if \<not> vmi_enabled s \<or> vmi_boot_sync_ok s \<or> vmi_first_hit_seen s then s
      else
        (let s1 = vmi_debug ''[boot-sync] FW_CFG_KERNEL_DATA transfer completed'' s;
             was_locked = bql s1;
             s2 = vmi_debug (''[boot-sync] BQL held on entry: '' @ (if was_locked then ''yes'' else ''no'')) s1;
             s3 = (if was_locked then s2 else s2\<lparr>bql := True\<rparr>);
             s4 = vmi_debug (''[boot-sync] arming breakpoint at '' @ hex0x (vmi_addr s3)) s3;
             (s5, ok) = vmi_arm_once K cs ''boot-sync'' s4;
             s6 = (if ok then
                     arm_timer_free
                       (report Info_report (''vmi-monitor: boot-sync armed breakpoint at '' @
                           hex0x (vmi_addr s5) @
                           '' immediately after the fw_cfg kernel-data transfer (no polling needed)'')
                         (vmi_debug ''[boot-sync] guest may resume'' (s5\<lparr>vmi_boot_sync_ok := True\<rparr>)))
                   else
                     report Warn_report
                       (''vmi-monitor: boot-sync arm failed at the fw_cfg hook '' @
                        ''-- falling back to the periodic retry path'')
                       (vmi_debug ''[boot-sync] arm FAILED -- falling back to periodic retry'' s5))
         in if was_locked then s6 else s6\<lparr>bql := False\<rparr>))"

section \<open>The run-state handler\<close>

text \<open>\<open>shutdown\<close> is the value of QEMU's \<open>RUN_STATE_SHUTDOWN\<close>.\<close>

definition vmi_vm_state_change ::
    "'k kvm \<Rightarrow> int \<Rightarrow> cpu \<Rightarrow> int \<Rightarrow> bool \<Rightarrow> int \<Rightarrow> 'k vmi \<Rightarrow> 'k vmi" where
  "vmi_vm_state_change K shutdown cs now running st s =
     (let s1 = vmi_debug (''[vm_state_change] running='' @ (if running then ''1'' else ''0'') @
                 '' state='' @ c_dec st) s;
          s2 = (if \<not> running \<and> vmi_enabled s1 \<and> st = shutdown
                then vmi_flush_pending ''shutdown'' s1 else s1)
      in if \<not> running \<or> \<not> vmi_enabled s2 then s2
         else if vmi_arm_timer s2 \<noteq> None then
           vmi_debug ''[vm_state_change] arm already in flight, ignoring'' s2
         else
           vmi_try_arm K cs now
             ((report Info_report (''vmi-monitor: guest running (state='' @ c_dec st @
                 ''), starting breakpoint arm attempts at '' @ hex0x (vmi_addr s2)) s2)
              \<lparr>vmi_arm_attempts := 0, vmi_arm_timer := Some Timer_idle\<rparr>))"

section \<open>Initialisation\<close>

text \<open>
  The environment variables, and \<open>fopen(_, "a")\<close>: \<open>None\<close> for success, else
  the text of \<open>errno\<close>.
\<close>

record vmi_env =
  env_addr :: "string option"
  env_ret_addr :: "string option"
  env_log :: "string option"
  open_append :: "string \<Rightarrow> string option"

definition init_ret_addr :: "string option \<Rightarrow> 'k vmi \<Rightarrow> 'k vmi" where
  "init_ret_addr v s =
     (case v of
        None \<Rightarrow> s
      | Some t \<Rightarrow>
          (let a = c_strtoull t in
           if a = 0 \<or> a = vmi_addr s then
             (report Error_report (''vmi-monitor: VMI_MONITOR_RET_ADDR='' @ [CHR 0x27] @ t @ [CHR 0x27] @
                '' is not a usable return-hook address -- return-value capture disabled (entry-only logging)'') s)
             \<lparr>vmi_ret_addr := 0\<rparr>
           else s\<lparr>vmi_ret_addr := a\<rparr>))"

definition vmi_monitor_init :: "vmi_env \<Rightarrow> 'k vmi \<Rightarrow> 'k vmi" where
  "vmi_monitor_init E s =
     (case env_addr E of
        None \<Rightarrow> s\<lparr>vmi_enabled := False\<rparr>
      | Some t \<Rightarrow>
          (let s1 = s\<lparr>vmi_addr := c_strtoull t\<rparr> in
           if vmi_addr s1 = 0 then
             report Error_report (''vmi-monitor: VMI_MONITOR_ADDR='' @ [CHR 0x27] @ t @ [CHR 0x27] @
               '' could not be parsed as a non-zero address -- monitor disabled'') s1
           else
             (let s2 = init_ret_addr (env_ret_addr E) s1;
                  log_path = (case env_log E of None \<Rightarrow> ''vmi_monitor.jsonl'' | Some p \<Rightarrow> p)
              in case open_append E log_path of
                   Some why \<Rightarrow>
                     report Error_report (''vmi-monitor: could not open log file '' @ [CHR 0x27] @ log_path @
                       [CHR 0x27] @ '' ('' @ why @ '') -- monitor disabled'') s2
                 | None \<Rightarrow>
                     (let s3 = s2\<lparr>vmi_log_fp := Some [],
                          vmi_debug_fp := (if open_append E (log_path @ ''.debug.log'') = None then Some [] else None),
                          vmi_state_table := Some (\<lambda>_. VMI_NORMAL),
                          vmi_step_addr_table := Some (\<lambda>_. 0),
                          vmi_enabled := True\<rparr>;
                          s4 = vmi_debug (''[init] addr='' @ hex0x (vmi_addr s3) @ '' ret_addr='' @
                                 (if vmi_ret_addr s3 \<noteq> 0 then [] else ''(disabled) '') @
                                 hex0x (vmi_ret_addr s3) @ '' log='' @ log_path) s3;
                          s5 = report Info_report (''vmi-monitor: enabled, addr='' @ hex0x (vmi_addr s4) @
                                 '' log='' @ log_path) s4
                      in s5\<lparr>state_handler := True\<rparr>))))"

section \<open>A hit and its step-over\<close>

text \<open>
  \<open>vmi_monitor_breakpoint_hit\<close> on vCPU \<open>cs\<close> trapped at \<open>pc\<close>; \<open>tv\<close> is the time
  its handler reads.
\<close>

definition vmi_monitor_breakpoint_hit :: "'k kvm \<Rightarrow> timeval \<Rightarrow> cpu \<Rightarrow> u64 \<Rightarrow> 'k vmi \<Rightarrow> 'k vmi" where
  "vmi_monitor_breakpoint_hit K tv cs pc s =
     (let is_ret = (vmi_ret_addr s \<noteq> 0 \<and> pc = vmi_ret_addr s);
          env = sync_state K cs (hyp s);
          s1 = vmi_debug (tagged (if is_ret then ''ret'' else ''hit'')
                 (''cpu='' @ c_dec (int cs) @ '' rip='' @ hex0x (env_eip env) @ '' rax='' @
                  c_udec (env_regs env R_EAX))) s;
          s2 = (if vmi_first_hit_seen s1 then s1
                else arm_timer_free
                  (report Info_report (''vmi-monitor: first real syscall hit observed at '' @ hex0x pc @
                      '' -- breakpoint confirmed live'')
                    (vmi_debug (''[hit] first real hit observed -- breakpoint confirmed '' @
                       ''live, stopping periodic re-verification'') (s1\<lparr>vmi_first_hit_seen := True\<rparr>))));
          s3 = (if is_ret then vmi_handle_return cs env tv s2 else vmi_handle_entry cs env tv s2);
          (s4, err) = kvm_remove_breakpoint K cs pc s3
      in if err \<noteq> 0 then
           report Error_report (''vmi-monitor: cpu '' @ c_dec (int cs) @ '': failed to remove breakpoint at '' @
             hex0x pc @ '' for step-over: '' @ c_dec err @ '' -- leaving state NORMAL, '' @
             ''guest will trap here again next time (capture may duplicate this event, '' @
             ''but stays correct; guest is not stuck)'') s4
         else vmi_monitor_set_state cs VMI_STEPPING (cpu_single_step K cs True (set_step_addr cs pc s4)))"

definition vmi_monitor_step_complete :: "'k kvm \<Rightarrow> cpu \<Rightarrow> 'k vmi \<Rightarrow> 'k vmi" where
  "vmi_monitor_step_complete K cs s =
     (let a = get_step_addr cs s;
          s1 = cpu_single_step K cs False s;
          (s2, err) = kvm_insert_breakpoint K cs a s1
      in if err \<noteq> 0 then
           vmi_monitor_set_state cs VMI_NORMAL
             (report Error_report (''vmi-monitor: cpu '' @ c_dec (int cs) @ '': failed to reinsert breakpoint at '' @
                hex0x a @ '' after step-over: '' @ c_dec err @
                '' -- syscall capture STOPPED for this vCPU (guest continues to run normally, unmonitored)'') s2)
         else
           (let rb = read_byte K cs a (hyp s2) in
            if rb \<noteq> Some 0xcc then
              vmi_monitor_set_state cs VMI_NORMAL
                (report Error_report (''vmi-monitor: cpu '' @ c_dec (int cs) @ '': reinsert at '' @ hex0x a @
                   '' reported success but memory readback shows '' @
                   hex02 (case rb of None \<Rightarrow> 0 | Some b \<Rightarrow> b) @
                   '', not 0xcc -- syscall capture STOPPED for this vCPU '' @
                   ''(guest continues to run normally, unmonitored)'') s2)
            else vmi_monitor_set_state cs VMI_NORMAL s2))"

section \<open>What each operation leaves alone\<close>

text \<open>The fields only initialisation and the trap handlers write.\<close>

definition hooks :: "'k vmi \<Rightarrow> bool \<times> u64 \<times> u64 \<times> bool" where
  "hooks s = (vmi_enabled s, vmi_addr s, vmi_ret_addr s, state_handler s)"

definition capture :: "'k vmi \<Rightarrow> VmiEvent list option \<times> VmiPending list \<times> u64" where
  "capture s = (vmi_log_fp s, vmi_pending s, vmi_pending_seq s)"

definition tables :: "'k vmi \<Rightarrow> (cpu \<Rightarrow> VmiState) option \<times> (cpu \<Rightarrow> u64) option" where
  "tables s = (vmi_state_table s, vmi_step_addr_table s)"

definition arming :: "'k vmi \<Rightarrow> timer option \<times> int \<times> bool \<times> bool" where
  "arming s = (vmi_arm_timer s, vmi_arm_attempts s, vmi_first_hit_seen s, vmi_boot_sync_ok s)"

lemmas groups = hooks_def capture_def tables_def arming_def

text \<open>Assignments to the other fields.\<close>

lemma groups_update [simp]:
  "hooks (s\<lparr>hyp := a\<rparr>) = hooks s" "capture (s\<lparr>hyp := a\<rparr>) = capture s"
  "tables (s\<lparr>hyp := a\<rparr>) = tables s" "arming (s\<lparr>hyp := a\<rparr>) = arming s"
  "hooks (s\<lparr>bql := b\<rparr>) = hooks s" "capture (s\<lparr>bql := b\<rparr>) = capture s"
  "tables (s\<lparr>bql := b\<rparr>) = tables s" "arming (s\<lparr>bql := b\<rparr>) = arming s"
  "hooks (s\<lparr>fault := c\<rparr>) = hooks s" "capture (s\<lparr>fault := c\<rparr>) = capture s"
  "tables (s\<lparr>fault := c\<rparr>) = tables s" "arming (s\<lparr>fault := c\<rparr>) = arming s"
  "hooks (s\<lparr>vmi_state_table := d\<rparr>) = hooks s" "capture (s\<lparr>vmi_state_table := d\<rparr>) = capture s"
  "arming (s\<lparr>vmi_state_table := d\<rparr>) = arming s" "hooks (s\<lparr>vmi_step_addr_table := e\<rparr>) = hooks s"
  "capture (s\<lparr>vmi_step_addr_table := e\<rparr>) = capture s" "arming (s\<lparr>vmi_step_addr_table := e\<rparr>) = arming s"
  "hooks (s\<lparr>vmi_arm_timer := f\<rparr>) = hooks s" "capture (s\<lparr>vmi_arm_timer := f\<rparr>) = capture s"
  "tables (s\<lparr>vmi_arm_timer := f\<rparr>) = tables s" "hooks (s\<lparr>vmi_arm_attempts := g\<rparr>) = hooks s"
  "capture (s\<lparr>vmi_arm_attempts := g\<rparr>) = capture s" "tables (s\<lparr>vmi_arm_attempts := g\<rparr>) = tables s"
  "hooks (s\<lparr>vmi_first_hit_seen := h\<rparr>) = hooks s" "capture (s\<lparr>vmi_first_hit_seen := h\<rparr>) = capture s"
  "tables (s\<lparr>vmi_first_hit_seen := h\<rparr>) = tables s" "hooks (s\<lparr>vmi_boot_sync_ok := i\<rparr>) = hooks s"
  "capture (s\<lparr>vmi_boot_sync_ok := i\<rparr>) = capture s" "tables (s\<lparr>vmi_boot_sync_ok := i\<rparr>) = tables s"
  "hooks (s\<lparr>vmi_log_fp := j\<rparr>) = hooks s" "tables (s\<lparr>vmi_log_fp := j\<rparr>) = tables s"
  "arming (s\<lparr>vmi_log_fp := j\<rparr>) = arming s" "hooks (s\<lparr>vmi_pending := k\<rparr>) = hooks s"
  "tables (s\<lparr>vmi_pending := k\<rparr>) = tables s" "arming (s\<lparr>vmi_pending := k\<rparr>) = arming s"
  "hooks (s\<lparr>vmi_pending_seq := l\<rparr>) = hooks s" "tables (s\<lparr>vmi_pending_seq := l\<rparr>) = tables s"
  "arming (s\<lparr>vmi_pending_seq := l\<rparr>) = arming s"
  by (simp_all add: groups)

lemma debug_report_groups [simp]:
  "hooks (vmi_debug m s) = hooks s" "capture (vmi_debug m s) = capture s"
  "tables (vmi_debug m s) = tables s" "arming (vmi_debug m s) = arming s"
  "hooks (report v m s) = hooks s" "capture (report v m s) = capture s"
  "tables (report v m s) = tables s" "arming (report v m s) = arming s"
  by (simp_all add: groups)

lemma kvm_calls_groups [simp]:
  "hooks (fst (kvm_remove_breakpoint K cs a s)) = hooks s"
  "capture (fst (kvm_remove_breakpoint K cs a s)) = capture s"
  "tables (fst (kvm_remove_breakpoint K cs a s)) = tables s"
  "arming (fst (kvm_remove_breakpoint K cs a s)) = arming s"
  "bql (fst (kvm_remove_breakpoint K cs a s)) = bql s"
  "fault (fst (kvm_remove_breakpoint K cs a s)) = fault s"
  "vmi_debug_fp (fst (kvm_remove_breakpoint K cs a s)) = vmi_debug_fp s"
  "vmi_reports (fst (kvm_remove_breakpoint K cs a s)) = vmi_reports s"
  "hyp (fst (kvm_remove_breakpoint K cs a s)) = fst (remove_bp K cs a (hyp s))"
  "hooks (fst (kvm_insert_breakpoint K cs a s)) = hooks s"
  "capture (fst (kvm_insert_breakpoint K cs a s)) = capture s"
  "tables (fst (kvm_insert_breakpoint K cs a s)) = tables s"
  "arming (fst (kvm_insert_breakpoint K cs a s)) = arming s"
  "bql (fst (kvm_insert_breakpoint K cs a s)) = bql s"
  "fault (fst (kvm_insert_breakpoint K cs a s)) = fault s"
  "vmi_debug_fp (fst (kvm_insert_breakpoint K cs a s)) = vmi_debug_fp s"
  "vmi_reports (fst (kvm_insert_breakpoint K cs a s)) = vmi_reports s"
  "hyp (fst (kvm_insert_breakpoint K cs a s)) = fst (insert_bp K cs a (hyp s))"
  "snd (kvm_insert_breakpoint K cs a s) = snd (insert_bp K cs a (hyp s))"
  "snd (kvm_remove_breakpoint K cs a s) = snd (remove_bp K cs a (hyp s))"
  by (simp_all add: kvm_remove_breakpoint_def kvm_insert_breakpoint_def groups split: prod.split)

lemma vmi_arm_addr_frame [simp]:
  "hooks (fst (vmi_arm_addr K cs a tag s)) = hooks s"
  "capture (fst (vmi_arm_addr K cs a tag s)) = capture s"
  "tables (fst (vmi_arm_addr K cs a tag s)) = tables s"
  "arming (fst (vmi_arm_addr K cs a tag s)) = arming s"
  "bql (fst (vmi_arm_addr K cs a tag s)) = bql s"
  "fault (fst (vmi_arm_addr K cs a tag s)) = fault s"
  "vmi_reports (fst (vmi_arm_addr K cs a tag s)) = vmi_reports s"
  by (simp_all add: vmi_arm_addr_def Let_def case_prod_beta split: option.split)

lemma groups_fields:
  "hooks s = hooks t \<Longrightarrow> vmi_addr s = vmi_addr t \<and> vmi_ret_addr s = vmi_ret_addr t \<and> vmi_enabled s = vmi_enabled t"
  "arming s = arming t \<Longrightarrow> vmi_arm_timer s = vmi_arm_timer t \<and> vmi_arm_attempts s = vmi_arm_attempts t \<and>
     vmi_first_hit_seen s = vmi_first_hit_seen t \<and> vmi_boot_sync_ok s = vmi_boot_sync_ok t"
  by (simp_all add: groups)

lemma vmi_arm_once_frame [simp]:
  "hooks (fst (vmi_arm_once K cs tag s)) = hooks s"
  "capture (fst (vmi_arm_once K cs tag s)) = capture s"
  "tables (fst (vmi_arm_once K cs tag s)) = tables s"
  "arming (fst (vmi_arm_once K cs tag s)) = arming s"
  "bql (fst (vmi_arm_once K cs tag s)) = bql s"
  "fault (fst (vmi_arm_once K cs tag s)) = fault s"
  "vmi_reports (fst (vmi_arm_once K cs tag s)) = vmi_reports s"
  by (simp_all add: vmi_arm_once_def Let_def case_prod_beta)

lemmas arm_once_fields [simp] =
  groups_fields(1) [OF vmi_arm_once_frame(1), THEN conjunct1]
  groups_fields(1) [OF vmi_arm_once_frame(1), THEN conjunct2, THEN conjunct1]
  groups_fields(1) [OF vmi_arm_once_frame(1), THEN conjunct2, THEN conjunct2]
  groups_fields(2) [OF vmi_arm_once_frame(4), THEN conjunct1]
  groups_fields(2) [OF vmi_arm_once_frame(4), THEN conjunct2, THEN conjunct1]
  groups_fields(2) [OF vmi_arm_once_frame(4), THEN conjunct2, THEN conjunct2, THEN conjunct1]
  groups_fields(2) [OF vmi_arm_once_frame(4), THEN conjunct2, THEN conjunct2, THEN conjunct2]

lemma timer_ops [simp]:
  "hooks (arm_timer_free s) = hooks s" "capture (arm_timer_free s) = capture s"
  "tables (arm_timer_free s) = tables s" "bql (arm_timer_free s) = bql s"
  "fault (arm_timer_free s) = fault s" "hyp (arm_timer_free s) = hyp s"
  "arming (arm_timer_free s) = (None, vmi_arm_attempts s, vmi_first_hit_seen s, vmi_boot_sync_ok s)"
  "hooks (timer_mod t s) = hooks s" "capture (timer_mod t s) = capture s"
  "tables (timer_mod t s) = tables s" "bql (timer_mod t s) = bql s" "hyp (timer_mod t s) = hyp s"
  "vmi_arm_timer s \<noteq> None \<Longrightarrow> fault (timer_mod t s) = fault s"
  "vmi_arm_timer s \<noteq> None \<Longrightarrow>
     arming (timer_mod t s) = (Some (Timer_at t), vmi_arm_attempts s, vmi_first_hit_seen s, vmi_boot_sync_ok s)"
  by (auto simp: arm_timer_free_def timer_mod_def groups split: option.splits)

text \<open>\<open>vmi_try_arm\<close> touches only the hypervisor, the channels, the timer and the counter.\<close>

lemma vmi_try_arm_frame [simp]:
  "hooks (vmi_try_arm K cs now s) = hooks s"
  "capture (vmi_try_arm K cs now s) = capture s"
  "tables (vmi_try_arm K cs now s) = tables s"
  "bql (vmi_try_arm K cs now s) = bql s"
  by (simp_all add: vmi_try_arm_def Let_def case_prod_beta)

section \<open>The arming state machine\<close>

lemma vmi_try_arm_stands_down:
  "vmi_first_hit_seen s \<or> vmi_boot_sync_ok s \<Longrightarrow> vmi_try_arm K cs now s = arm_timer_free s"
  by (simp add: vmi_try_arm_def)

lemma vmi_try_arm_arming:
  assumes "vmi_arm_timer s \<noteq> None"
  shows "arming (vmi_try_arm K cs now s) =
      (if vmi_first_hit_seen s \<or> vmi_boot_sync_ok s
       then (None, vmi_arm_attempts s, vmi_first_hit_seen s, vmi_boot_sync_ok s)
       else (if VMI_ARM_MAX_ATTEMPTS \<le> vmi_arm_attempts s + 1 then None
             else Some (Timer_at (now + VMI_ARM_RETRY_MS)), vmi_arm_attempts s + 1, False, False))"
    and "fault (vmi_try_arm K cs now s) = fault s"
  using assms by (simp_all add: vmi_try_arm_def Let_def case_prod_beta)

lemma vmi_monitor_kernel_loaded_frame [simp]:
  "hooks (vmi_monitor_kernel_loaded K cs s) = hooks s"
  "capture (vmi_monitor_kernel_loaded K cs s) = capture s"
  "tables (vmi_monitor_kernel_loaded K cs s) = tables s"
  "bql (vmi_monitor_kernel_loaded K cs s) = bql s"
  "fault (vmi_monitor_kernel_loaded K cs s) = fault s"
  by (simp_all add: vmi_monitor_kernel_loaded_def Let_def case_prod_beta)

text \<open>
  The hook either arms nothing and changes nothing in the state machine, or confirms the
  breakpoint and stops the retries.
\<close>

lemma vmi_monitor_kernel_loaded_arming:
  "arming (vmi_monitor_kernel_loaded K cs s) = arming s \<or>
   arming (vmi_monitor_kernel_loaded K cs s) = (None, vmi_arm_attempts s, vmi_first_hit_seen s, True)"
  by (auto simp: vmi_monitor_kernel_loaded_def Let_def case_prod_beta)

section \<open>The trap handlers leave the state machine alone\<close>

text \<open>
  What no write to the log, the table, the counter, the debug file or the fault flag
  changes, no handler changes.
\<close>

definition handler_frame :: "('k vmi \<Rightarrow> 'a) \<Rightarrow> bool" where
  "handler_frame f \<longleftrightarrow>
     (\<forall>s m. f (vmi_debug m s) = f s) \<and> (\<forall>s i p. f (set_slot i p s) = f s) \<and>
     (\<forall>s e. f (vmi_write_event e s) = f s) \<and> (\<forall>s n. f (s\<lparr>vmi_pending_seq := n\<rparr>) = f s) \<and>
     (\<forall>s. f (s\<lparr>fault := True\<rparr>) = f s)"

lemma handler_frameD:
  assumes "handler_frame f"
  shows "f (vmi_debug m s) = f s" "f (set_slot i p s) = f s" "f (vmi_write_event e s) = f s"
    "f (s\<lparr>vmi_pending_seq := n\<rparr>) = f s" "f (s\<lparr>fault := True\<rparr>) = f s"
    "f (vmi_write_unfinished i why s) = f s"
  using assms by (simp_all add: handler_frame_def vmi_write_unfinished_def Let_def)

lemma entry_round_frame:
  assumes "handler_frame f"
  shows "f (fst (entry_round a b i x)) = f (fst x)"
  by (cases x) (simp add: entry_round_def supersede_def Let_def handler_frameD [OF assms])

lemma fold_entry_round_frame:
  assumes "handler_frame f"
  shows "f (fst (fold (entry_round a b) ns x)) = f (fst x)"
  by (induction ns arbitrary: x) (simp_all add: entry_round_frame [OF assms])

lemma vmi_trap_handler_frame:
  assumes "handler_frame f"
  shows "f (vmi_trap s t) = f s"
proof (cases t)
  case (Entry_trap cs env tv)
  let ?x = "fold (entry_round (env_regs env R_ESP) (env_regs env R_ECX)) [0..<length (vmi_pending s)] (s, None, None)"
  have "f (fst ?x) = f s" using fold_entry_round_frame [OF assms, where x = "(s, None, None)"] by simp
  then show ?thesis
    by (simp add: Entry_trap vmi_handle_entry_def Let_def case_prod_beta handler_frameD [OF assms]
        split: option.split)
next
  case (Return_trap cs env tv)
  then show ?thesis
    by (simp add: vmi_handle_return_def Let_def handler_frameD [OF assms] split: option.split)
qed

lemma vmi_flush_pending_frame:
  assumes "handler_frame f"
  shows "f (vmi_flush_pending why s) = f s"
proof (induction why s rule: vmi_flush_pending.induct)
  case (1 why s)
  then show ?case
    by (simp add: vmi_flush_pending.simps [of why s] handler_frameD [OF assms] split: option.split)
qed

lemma handler_frames [simp]:
  "handler_frame hooks" "handler_frame tables" "handler_frame arming" "handler_frame bql"
  "handler_frame vmi_reports" "handler_frame hyp"
  by (auto simp: handler_frame_def set_slot_def vmi_write_event_def groups split: option.split)

lemma vmi_trap_groups [simp]:
  "hooks (vmi_trap s t) = hooks s" "tables (vmi_trap s t) = tables s"
  "arming (vmi_trap s t) = arming s" "bql (vmi_trap s t) = bql s"
  "hooks (vmi_flush_pending why s) = hooks s" "tables (vmi_flush_pending why s) = tables s"
  "arming (vmi_flush_pending why s) = arming s" "bql (vmi_flush_pending why s) = bql s"
  "hyp (vmi_flush_pending why s) = hyp s"
  by (simp_all add: vmi_trap_handler_frame vmi_flush_pending_frame)

text \<open>With the log open and the table in place, no handler uses a null pointer.\<close>

definition log_ready :: "'k vmi \<Rightarrow> bool" where
  "log_ready s \<longleftrightarrow> vmi_log_fp s \<noteq> None \<and> length (vmi_pending s) = VMI_PENDING_MAX"

lemma write_unfinished_ready:
  "log_ready s \<Longrightarrow> log_ready (vmi_write_unfinished i why s) \<and> fault (vmi_write_unfinished i why s) = fault s"
  by (auto simp: log_ready_def vmi_write_unfinished_def Let_def)

lemma log_ready_debug [simp]: "log_ready (vmi_debug m s) = log_ready s"
  by (simp add: log_ready_def)

lemma entry_round_ready:
  "log_ready (fst x) \<Longrightarrow> log_ready (fst (entry_round a b i x)) \<and> fault (fst (entry_round a b i x)) = fault (fst x) \<and>
    (fst (snd (entry_round a b i x)) \<noteq> None \<or> snd (snd (entry_round a b i x)) \<noteq> None)"
  using write_unfinished_ready [of "vmi_debug m (fst x)" i "''superseded''" for m]
  by (cases x) (auto simp: entry_round_def supersede_def Let_def split: option.splits)

lemma fold_entry_round_ready:
  assumes "log_ready (fst x)"
  shows "log_ready (fst (fold (entry_round a b) ns x)) \<and>
    fault (fst (fold (entry_round a b) ns x)) = fault (fst x) \<and>
    (ns \<noteq> [] \<longrightarrow> fst (snd (fold (entry_round a b) ns x)) \<noteq> None \<or> snd (snd (fold (entry_round a b) ns x)) \<noteq> None)"
  using assms
proof (induction ns arbitrary: x)
  case (Cons n ns)
  note r = entry_round_ready [OF Cons.prems, of a b n]
  then have "log_ready (fst (entry_round a b n x))" by blast
  from Cons.IH [OF this] r show ?case by (cases ns) simp_all
qed simp

lemma vmi_trap_ready:
  assumes "log_ready s"
  shows "log_ready (vmi_trap s t) \<and> fault (vmi_trap s t) = fault s"
proof (cases t)
  case (Entry_trap cs env tv)
  let ?x = "fold (entry_round (env_regs env R_ESP) (env_regs env R_ECX)) [0..<length (vmi_pending s)] (s, None, None)"
  have "0 < length (vmi_pending s)" using assms by (simp add: log_ready_def VMI_PENDING_MAX_def)
  then have x: "log_ready (fst ?x)" "fault (fst ?x) = fault s" "fst (snd ?x) \<noteq> None \<or> snd (snd ?x) \<noteq> None"
    using fold_entry_round_ready [where x = "(s, None, None)"] assms by auto
  show ?thesis
    using x write_unfinished_ready [of "vmi_debug m (fst ?x)" j "''evicted''" for m j] assms
    by (auto simp: Entry_trap vmi_handle_entry_def Let_def case_prod_beta log_ready_def set_slot_def
        vmi_write_event_def split: option.split)
next
  case (Return_trap cs env tv)
  with assms show ?thesis
    by (auto simp: vmi_handle_return_def Let_def log_ready_def split: option.split)
qed

lemma vmi_flush_pending_ready:
  "log_ready s \<Longrightarrow> log_ready (vmi_flush_pending why s) \<and> fault (vmi_flush_pending why s) = fault s"
proof (induction why s rule: vmi_flush_pending.induct)
  case (1 why s)
  then show ?case
    using write_unfinished_ready [OF 1(2)]
    by (simp add: vmi_flush_pending.simps [of why s] split: option.split)
qed

section \<open>The hit and the step-over\<close>

text \<open>The trap a hit at \<open>pc\<close> stands for.\<close>

definition hit_trap :: "'k kvm \<Rightarrow> timeval \<Rightarrow> cpu \<Rightarrow> u64 \<Rightarrow> 'k vmi \<Rightarrow> trap" where
  "hit_trap K tv cs pc s =
     (if vmi_ret_addr s \<noteq> 0 \<and> pc = vmi_ret_addr s
      then Return_trap cs (sync_state K cs (hyp s)) tv else Entry_trap cs (sync_state K cs (hyp s)) tv)"

text \<open>What a hit notes before its handler runs.\<close>

definition note_hit :: "'k kvm \<Rightarrow> cpu \<Rightarrow> u64 \<Rightarrow> 'k vmi \<Rightarrow> 'k vmi" where
  "note_hit K cs pc s =
     (let env = sync_state K cs (hyp s);
          s1 = vmi_debug (tagged (if vmi_ret_addr s \<noteq> 0 \<and> pc = vmi_ret_addr s then ''ret'' else ''hit'')
                 (''cpu='' @ c_dec (int cs) @ '' rip='' @ hex0x (env_eip env) @ '' rax='' @
                  c_udec (env_regs env R_EAX))) s
      in if vmi_first_hit_seen s1 then s1
         else arm_timer_free
           (report Info_report (''vmi-monitor: first real syscall hit observed at '' @ hex0x pc @
               '' -- breakpoint confirmed live'')
             (vmi_debug (''[hit] first real hit observed -- breakpoint confirmed '' @
                ''live, stopping periodic re-verification'') (s1\<lparr>vmi_first_hit_seen := True\<rparr>))))"

text \<open>The step-over a hit starts.\<close>

definition begin_step :: "'k kvm \<Rightarrow> cpu \<Rightarrow> u64 \<Rightarrow> 'k vmi \<Rightarrow> 'k vmi" where
  "begin_step K cs pc s3 =
     (let (s4, err) = kvm_remove_breakpoint K cs pc s3
      in if err \<noteq> 0 then
           report Error_report (''vmi-monitor: cpu '' @ c_dec (int cs) @ '': failed to remove breakpoint at '' @
             hex0x pc @ '' for step-over: '' @ c_dec err @ '' -- leaving state NORMAL, '' @
             ''guest will trap here again next time (capture may duplicate this event, '' @
             ''but stays correct; guest is not stuck)'') s4
         else vmi_monitor_set_state cs VMI_STEPPING (cpu_single_step K cs True (set_step_addr cs pc s4)))"

lemma vmi_monitor_breakpoint_hit_parts:
  "vmi_monitor_breakpoint_hit K tv cs pc s =
     begin_step K cs pc (vmi_trap (note_hit K cs pc s) (hit_trap K tv cs pc s))"
  by (simp add: vmi_monitor_breakpoint_hit_def note_hit_def begin_step_def hit_trap_def Let_def)

lemma note_hit_groups [simp]:
  "hooks (note_hit K cs pc s) = hooks s" "capture (note_hit K cs pc s) = capture s"
  "tables (note_hit K cs pc s) = tables s" "bql (note_hit K cs pc s) = bql s"
  "fault (note_hit K cs pc s) = fault s" "hyp (note_hit K cs pc s) = hyp s"
  by (simp_all add: note_hit_def Let_def)

lemma note_hit_arming:
  "arming (note_hit K cs pc s) =
     (if vmi_first_hit_seen s then arming s else (None, vmi_arm_attempts s, True, vmi_boot_sync_ok s))"
  by (simp add: note_hit_def Let_def)

lemma set_state_groups [simp]:
  "hooks (vmi_monitor_set_state cs st s) = hooks s" "capture (vmi_monitor_set_state cs st s) = capture s"
  "arming (vmi_monitor_set_state cs st s) = arming s" "bql (vmi_monitor_set_state cs st s) = bql s"
  "hyp (vmi_monitor_set_state cs st s) = hyp s"
  "vmi_step_addr_table (vmi_monitor_set_state cs st s) = vmi_step_addr_table s"
  "vmi_state_table s \<noteq> None \<Longrightarrow> fault (vmi_monitor_set_state cs st s) = fault s"
  "vmi_reports (vmi_monitor_set_state cs st s) = vmi_reports s"
  "hooks (set_step_addr cs a s) = hooks s" "capture (set_step_addr cs a s) = capture s"
  "arming (set_step_addr cs a s) = arming s" "bql (set_step_addr cs a s) = bql s"
  "hyp (set_step_addr cs a s) = hyp s" "vmi_state_table (set_step_addr cs a s) = vmi_state_table s"
  "vmi_step_addr_table s \<noteq> None \<Longrightarrow> fault (set_step_addr cs a s) = fault s"
  "vmi_reports (set_step_addr cs a s) = vmi_reports s"
  by (auto simp: vmi_monitor_set_state_def set_step_addr_def groups split: option.split)

lemma single_step_groups [simp]:
  "hooks (cpu_single_step K cs b s) = hooks s" "capture (cpu_single_step K cs b s) = capture s"
  "tables (cpu_single_step K cs b s) = tables s" "arming (cpu_single_step K cs b s) = arming s"
  "bql (cpu_single_step K cs b s) = bql s" "fault (cpu_single_step K cs b s) = fault s"
  "vmi_reports (cpu_single_step K cs b s) = vmi_reports s"
  "hyp (cpu_single_step K cs b s) = single_step K cs b (hyp s)"
  by (simp_all add: cpu_single_step_def groups)

lemma tables_eq: "tables s = tables t \<Longrightarrow> vmi_state_table s = vmi_state_table t \<and> vmi_step_addr_table s = vmi_step_addr_table t"
  by (simp add: groups)

lemmas kvm_tables [simp] =
  kvm_calls_groups(3) [THEN tables_eq, THEN conjunct1]
  kvm_calls_groups(3) [THEN tables_eq, THEN conjunct2]
  kvm_calls_groups(12) [THEN tables_eq, THEN conjunct1]
  kvm_calls_groups(12) [THEN tables_eq, THEN conjunct2]
  single_step_groups(3) [THEN tables_eq, THEN conjunct1]
  single_step_groups(3) [THEN tables_eq, THEN conjunct2]

lemma begin_step_frame [simp]:
  "hooks (begin_step K cs pc s) = hooks s" "capture (begin_step K cs pc s) = capture s"
  "arming (begin_step K cs pc s) = arming s" "bql (begin_step K cs pc s) = bql s"
  by (simp_all add: begin_step_def case_prod_beta)

text \<open>The stepping vCPU and its address, or nothing when the removal failed.\<close>

lemma begin_step_tables:
  assumes "vmi_state_table s = Some st" "vmi_step_addr_table s = Some sa"
  shows "tables (begin_step K cs pc s) =
      (if snd (remove_bp K cs pc (hyp s)) \<noteq> 0 then tables s
       else (Some (st(cs := VMI_STEPPING)), Some (sa(cs := pc))))"
    and "fault (begin_step K cs pc s) = fault s"
  using assms by (auto simp: begin_step_def case_prod_beta tables_def vmi_monitor_set_state_def set_step_addr_def
      cpu_single_step_def kvm_remove_breakpoint_def split: prod.splits)

lemma step_complete_frame [simp]:
  "hooks (vmi_monitor_step_complete K cs s) = hooks s" "capture (vmi_monitor_step_complete K cs s) = capture s"
  "arming (vmi_monitor_step_complete K cs s) = arming s" "bql (vmi_monitor_step_complete K cs s) = bql s"
  by (simp_all add: vmi_monitor_step_complete_def case_prod_beta Let_def)

lemma step_complete_tables:
  assumes "vmi_state_table s = Some st"
  shows "tables (vmi_monitor_step_complete K cs s) = (Some (st(cs := VMI_NORMAL)), vmi_step_addr_table s)"
    and "fault (vmi_monitor_step_complete K cs s) = fault s"
  using assms by (auto simp: vmi_monitor_step_complete_def case_prod_beta Let_def tables_def
      vmi_monitor_set_state_def cpu_single_step_def kvm_insert_breakpoint_def report_def split: prod.splits)

end
