(* ===== verification/Kvm_Dispatch.thy ===== *)
theory Kvm_Dispatch
  imports Vmi_Monitor
begin

text \<open>
  Where QEMU calls the monitor: \<open>kvm_handle_debug\<close> as the patch
  \<open>0001-kvm.c.diff\<close> leaves it and as it was before, the hook of
  \<open>0003-fw_cfg.c.diff\<close>, and the machine made of every call QEMU makes, with the
  invariant of its reachable states. What the patches do not show of QEMU is the record
  \<open>qemu\<close>: the hardware-breakpoint branch, \<open>cs->singlestep_enabled\<close>,
  \<open>first_cpu\<close> and the value of \<open>RUN_STATE_SHUTDOWN\<close>.
\<close>

section \<open>Debug exits\<close>

record debug_exit =
  ex_db :: bool
  ex_bs :: bool
  ex_pc :: u64

record 'k qemu =
  hw_debug :: "cpu \<Rightarrow> debug_exit \<Rightarrow> 'k \<Rightarrow> bool"
  singlestep_enabled :: "cpu \<Rightarrow> 'k \<Rightarrow> bool"
  first_cpu :: cpu
  run_state_shutdown :: int

text \<open>
  \<open>Exit_debug\<close>: \<open>ret = EXCP_DEBUG\<close>, for the gdb stub. \<open>Reflect\<close>: the
  exception is passed to the guest. \<open>Consumed\<close>: the monitor has dealt with it.
\<close>

datatype debug_outcome = Exit_debug | Reflect | Consumed

definition kvm_handle_debug_stock :: "'k qemu \<Rightarrow> 'k kvm \<Rightarrow> cpu \<Rightarrow> debug_exit \<Rightarrow> 'k vmi \<Rightarrow> 'k vmi \<times> debug_outcome" where
  "kvm_handle_debug_stock Q K cs x s =
     (let ret = (if ex_db x then
                   (if ex_bs x then singlestep_enabled Q cs (hyp s) else hw_debug Q cs x (hyp s))
                 else find_bp K cs (ex_pc x) (hyp s))
      in (s, if ret then Exit_debug else Reflect))"

definition kvm_handle_debug ::
    "'k qemu \<Rightarrow> 'k kvm \<Rightarrow> timeval \<Rightarrow> cpu \<Rightarrow> debug_exit \<Rightarrow> 'k vmi \<Rightarrow> 'k vmi \<times> debug_outcome" where
  "kvm_handle_debug Q K tv cs x s =
     (if ex_db x then
        (if ex_bs x then
           (if vmi_monitor_is_enabled s \<and> vmi_monitor_get_state cs s = VMI_STEPPING
            then (vmi_monitor_step_complete K cs s, Consumed)
            else (s, if singlestep_enabled Q cs (hyp s) then Exit_debug else Reflect))
         else (s, if hw_debug Q cs x (hyp s) then Exit_debug else Reflect))
      else if find_bp K cs (ex_pc x) (hyp s) then
        (if vmi_monitor_is_hook_addr (ex_pc x) s \<and> vmi_monitor_get_state cs s = VMI_NORMAL
         then (vmi_monitor_breakpoint_hit K tv cs (ex_pc x) s, Consumed)
         else (s, Exit_debug))
      else (s, Reflect))"

section \<open>The end of a fw_cfg transfer\<close>

text \<open>The end of \<open>fw_cfg_dma_transfer\<close>: the operation, its error bit, the selected entry.\<close>

record fw_dma =
  dma_read :: bool
  dma_error :: bool
  dma_kernel_data :: bool
  dma_entry_len :: "nat option"
  dma_offset :: nat

definition fw_cfg_dma_done :: "'k kvm \<Rightarrow> cpu \<Rightarrow> fw_dma \<Rightarrow> 'k vmi \<Rightarrow> 'k vmi" where
  "fw_cfg_dma_done K cs d s =
     (if dma_read d \<and> \<not> dma_error d \<and> dma_kernel_data d \<and>
         (case dma_entry_len d of None \<Rightarrow> False | Some n \<Rightarrow> n \<le> dma_offset d)
      then vmi_monitor_kernel_loaded K cs s else s)"

section \<open>The machine\<close>

text \<open>
  One call into the monitor, or a stretch of guest execution, which may change the
  hypervisor's state in any way. All but the fw_cfg hook run with the global lock held.
\<close>

datatype 'k input =
    Guest 'k
  | Debug cpu debug_exit timeval
  | Fw_cfg cpu fw_dma bool
  | Timer int
  | Run_state bool int int

primrec vmi_react :: "'k qemu \<Rightarrow> 'k kvm \<Rightarrow> 'k vmi \<Rightarrow> 'k input \<Rightarrow> 'k vmi" where
  "vmi_react Q K s (Guest h) = s\<lparr>hyp := h\<rparr>"
| "vmi_react Q K s (Debug cs x tv) = fst (kvm_handle_debug Q K tv cs x (s\<lparr>bql := True\<rparr>))"
| "vmi_react Q K s (Fw_cfg cs d locked) = fw_cfg_dma_done K cs d (s\<lparr>bql := locked\<rparr>)"
| "vmi_react Q K s (Timer now) = vmi_try_arm K (first_cpu Q) now (s\<lparr>bql := True\<rparr>)"
| "vmi_react Q K s (Run_state running st now) =
     vmi_vm_state_change K (run_state_shutdown Q) (first_cpu Q) now running st (s\<lparr>bql := True\<rparr>)"

text \<open>When QEMU makes the call: a timer that has expired, a registered handler.\<close>

primrec possible :: "'k vmi \<Rightarrow> 'k input \<Rightarrow> bool" where
  "possible s (Guest h) \<longleftrightarrow> True"
| "possible s (Debug cs x tv) \<longleftrightarrow> True"
| "possible s (Fw_cfg cs d locked) \<longleftrightarrow> True"
| "possible s (Timer now) \<longleftrightarrow> (case vmi_arm_timer s of Some (Timer_at t) \<Rightarrow> t \<le> now | _ \<Rightarrow> False)"
| "possible s (Run_state running st now) \<longleftrightarrow> state_handler s"

text \<open>The states a QEMU process started with the environment \<open>E\<close> goes through.\<close>

inductive vmi_reach :: "'k qemu \<Rightarrow> 'k kvm \<Rightarrow> vmi_env \<Rightarrow> 'k vmi \<Rightarrow> bool"
  for Q K E where
  start: "vmi_reach Q K E (vmi_monitor_init E (vmi_zero k))"
| step: "vmi_reach Q K E s \<Longrightarrow> possible s i \<Longrightarrow> vmi_reach Q K E (vmi_react Q K s i)"

inductive_cases vmi_reach_cases: "vmi_reach Q K E s"

section \<open>The invariant\<close>

definition hook_addrs :: "'k vmi \<Rightarrow> u64 set" where
  "hook_addrs s = {vmi_addr s} \<union> (if vmi_ret_addr s = 0 then {} else {vmi_ret_addr s})"

definition stepping_ok :: "'k vmi \<Rightarrow> bool" where
  "stepping_ok s \<longleftrightarrow> (\<exists>st sa. tables s = (Some st, Some sa) \<and> (\<forall>cs. st cs = VMI_STEPPING \<longrightarrow> sa cs \<in> hook_addrs s))"

definition timer_ok :: "'k vmi \<Rightarrow> bool" where
  "timer_ok s \<longleftrightarrow> 0 \<le> vmi_arm_attempts s \<and> vmi_arm_attempts s \<le> VMI_ARM_MAX_ATTEMPTS \<and>
     (vmi_arm_timer s \<noteq> None \<longrightarrow>
        \<not> vmi_first_hit_seen s \<and> \<not> vmi_boot_sync_ok s \<and> vmi_arm_attempts s < VMI_ARM_MAX_ATTEMPTS)"

definition disabled_ok :: "'k vmi \<Rightarrow> bool" where
  "disabled_ok s \<longleftrightarrow> \<not> vmi_enabled s \<and> \<not> state_handler s \<and> vmi_arm_timer s = None \<and>
     vmi_state_table s = None \<and> vmi_log_fp s = None \<and> \<not> fault s"

definition enabled_ok :: "'k vmi \<Rightarrow> bool" where
  "enabled_ok s \<longleftrightarrow> vmi_enabled s \<and> vmi_addr s \<noteq> 0 \<and> vmi_ret_addr s \<noteq> vmi_addr s \<and> \<not> fault s \<and>
     log_ready s \<and> stepping_ok s \<and> timer_ok s"

definition vmi_inv :: "'k vmi \<Rightarrow> bool" where
  "vmi_inv s \<longleftrightarrow> disabled_ok s \<or> enabled_ok s"

lemma vmi_zero_fields [simp]:
  "vmi_addr (vmi_zero k) = 0" "vmi_ret_addr (vmi_zero k) = 0" "vmi_log_fp (vmi_zero k) = None"
  "vmi_debug_fp (vmi_zero k) = None" "vmi_reports (vmi_zero k) = []" "vmi_state_table (vmi_zero k) = None"
  "vmi_step_addr_table (vmi_zero k) = None" "vmi_arm_timer (vmi_zero k) = None"
  "vmi_arm_attempts (vmi_zero k) = 0" "\<not> vmi_first_hit_seen (vmi_zero k)"
  "\<not> vmi_boot_sync_ok (vmi_zero k)" "vmi_pending (vmi_zero k) = replicate VMI_PENDING_MAX pending_zero"
  "vmi_pending_seq (vmi_zero k) = 0" "\<not> state_handler (vmi_zero k)" "\<not> bql (vmi_zero k)"
  "\<not> fault (vmi_zero k)" "\<not> vmi_enabled (vmi_zero k)"
  by (simp_all add: vmi_zero_def)

lemma init_ret_addr_frame [simp]:
  "vmi_addr (init_ret_addr v s) = vmi_addr s" "vmi_log_fp (init_ret_addr v s) = vmi_log_fp s"
  "vmi_state_table (init_ret_addr v s) = vmi_state_table s" "vmi_arm_timer (init_ret_addr v s) = vmi_arm_timer s"
  "vmi_arm_attempts (init_ret_addr v s) = vmi_arm_attempts s" "vmi_enabled (init_ret_addr v s) = vmi_enabled s"
  "vmi_pending (init_ret_addr v s) = vmi_pending s" "state_handler (init_ret_addr v s) = state_handler s"
  "vmi_pending_seq (init_ret_addr v s) = vmi_pending_seq s"
  "fault (init_ret_addr v s) = fault s"
  by (auto simp: init_ret_addr_def Let_def split: option.split)

lemma init_ret_addr_neq:
  "vmi_addr s \<noteq> 0 \<Longrightarrow> vmi_ret_addr s \<noteq> vmi_addr s \<Longrightarrow>
   vmi_ret_addr (init_ret_addr v s) \<noteq> vmi_addr (init_ret_addr v s)"
  by (auto simp: init_ret_addr_def Let_def split: option.split)

lemma vmi_inv_init: "vmi_inv (vmi_monitor_init E (vmi_zero k))"
proof (cases "vmi_enabled (vmi_monitor_init E (vmi_zero k))")
  case False
  then have "disabled_ok (vmi_monitor_init E (vmi_zero k))"
    by (auto simp: disabled_ok_def vmi_monitor_init_def Let_def split: option.splits if_splits)
  then show ?thesis by (simp add: vmi_inv_def)
next
  case True
  then obtain t where t: "env_addr E = Some t" "c_strtoull t \<noteq> 0"
    by (auto simp: vmi_monitor_init_def Let_def split: option.splits if_splits)
  let ?s = "init_ret_addr (env_ret_addr E) ((vmi_zero k)\<lparr>vmi_addr := c_strtoull t\<rparr>)"
  have "vmi_ret_addr ?s \<noteq> vmi_addr ?s" by (rule init_ret_addr_neq) (use t in simp_all)
  then have "enabled_ok (vmi_monitor_init E (vmi_zero k))"
    using t True
    by (auto simp: enabled_ok_def vmi_monitor_init_def Let_def log_ready_def stepping_ok_def timer_ok_def
        tables_def VMI_ARM_MAX_ATTEMPTS_def split: option.splits)
  then show ?thesis by (simp add: vmi_inv_def)
qed

text \<open>The invariant depends only on these groups of fields.\<close>

lemma inv_cong:
  assumes "hooks s = hooks t" "capture s = capture t" "tables s = tables t" "arming s = arming t" "fault s = fault t"
  shows "vmi_inv s = vmi_inv t"
  using assms
  by (simp add: groups vmi_inv_def disabled_ok_def enabled_ok_def log_ready_def stepping_ok_def timer_ok_def
      hook_addrs_def)

lemma enabled_ok_parts:
  "enabled_ok s \<longleftrightarrow> vmi_enabled s \<and> vmi_addr s \<noteq> 0 \<and> vmi_ret_addr s \<noteq> vmi_addr s \<and> \<not> fault s \<and>
     log_ready s \<and> stepping_ok s \<and> timer_ok s"
  by (rule enabled_ok_def)

lemma stepping_ok_cong: "hooks s = hooks t \<Longrightarrow> tables s = tables t \<Longrightarrow> stepping_ok s = stepping_ok t"
  by (simp add: stepping_ok_def hook_addrs_def groups)

lemma log_ready_cong: "capture s = capture t \<Longrightarrow> log_ready s = log_ready t"
  by (simp add: log_ready_def groups)

lemma timer_ok_cong: "arming s = arming t \<Longrightarrow> timer_ok s = timer_ok t"
  by (simp add: timer_ok_def groups)

lemma timer_ok_arming:
  "arming s = (tm, n, hit, boot) \<Longrightarrow> timer_ok s \<longleftrightarrow>
     0 \<le> n \<and> n \<le> VMI_ARM_MAX_ATTEMPTS \<and> (tm \<noteq> None \<longrightarrow> \<not> hit \<and> \<not> boot \<and> n < VMI_ARM_MAX_ATTEMPTS)"
  by (simp add: timer_ok_def arming_def)

text \<open>A step that keeps the configuration keeps the invariant when it keeps each part.\<close>

lemma enabled_ok_step:
  assumes "enabled_ok s" "hooks t = hooks s" "log_ready t" "stepping_ok t" "timer_ok t" "\<not> fault t"
  shows "enabled_ok t"
  using assms groups_fields(1) [OF assms(2)] by (simp add: enabled_ok_def)

lemma vmi_try_arm_inv:
  assumes "enabled_ok s" "vmi_arm_timer s \<noteq> None"
  shows "enabled_ok (vmi_try_arm K cs now s)"
proof (rule enabled_ok_step [OF assms(1)])
  let ?t = "vmi_try_arm K cs now s"
  from assms(1) have s: "log_ready s" "stepping_ok s" "timer_ok s" "\<not> fault s" by (simp_all add: enabled_ok_def)
  show "hooks ?t = hooks s" by simp
  show "log_ready ?t" using s log_ready_cong [of ?t s] by simp
  show "stepping_ok ?t" using s stepping_ok_cong [of ?t s] by simp
  show "timer_ok ?t"
    using s(3) assms(2) vmi_try_arm_arming(1) [OF assms(2), of K cs now]
    by (auto simp: timer_ok_def arming_def split: if_splits)
  show "\<not> fault ?t" using s(4) vmi_try_arm_arming(2) [OF assms(2), of K cs now] by simp
qed

lemma kernel_loaded_inv:
  assumes "enabled_ok s"
  shows "enabled_ok (vmi_monitor_kernel_loaded K cs s)"
proof (rule enabled_ok_step [OF assms])
  let ?t = "vmi_monitor_kernel_loaded K cs s"
  from assms have s: "log_ready s" "stepping_ok s" "timer_ok s" "\<not> fault s" by (simp_all add: enabled_ok_def)
  show "hooks ?t = hooks s" by simp
  show "log_ready ?t" using s log_ready_cong [of ?t s] by simp
  show "stepping_ok ?t" using s stepping_ok_cong [of ?t s] by simp
  show "timer_ok ?t"
    using s(3) vmi_monitor_kernel_loaded_arming [of K cs s] by (auto simp: timer_ok_def arming_def)
  show "\<not> fault ?t" using s(4) by simp
qed

lemma state_change_inv:
  assumes "enabled_ok s"
  shows "enabled_ok (vmi_vm_state_change K sh cs now running st s)"
proof -
  define s1 where "s1 = vmi_debug (''[vm_state_change] running='' @ (if running then ''1'' else ''0'') @
                 '' state='' @ c_dec st) s"
  define s2 where "s2 = (if \<not> running \<and> vmi_enabled s1 \<and> st = sh then vmi_flush_pending ''shutdown'' s1 else s1)"
  have s: "vmi_enabled s" "log_ready s" "stepping_ok s" "timer_ok s" "\<not> fault s"
    using assms by (simp_all add: enabled_ok_def)
  have keep: "hooks s2 = hooks s" "tables s2 = tables s" "arming s2 = arming s" by (simp_all add: s2_def s1_def)
  moreover have "log_ready s1" "fault s1 = fault s" using s by (simp_all add: s1_def)
  then have "log_ready s2 \<and> fault s2 = fault s"
    using vmi_flush_pending_ready [of s1 "''shutdown''"] by (simp add: s2_def)
  ultimately have ok2: "enabled_ok s2"
    using s stepping_ok_cong [OF keep(1,2)] timer_ok_cong [OF keep(3)] by (intro enabled_ok_step [OF assms]) simp_all
  define s3 where "s3 = (report Info_report (''vmi-monitor: guest running (state='' @ c_dec st @
                 ''), starting breakpoint arm attempts at '' @ hex0x (vmi_addr s2)) s2)
              \<lparr>vmi_arm_attempts := 0, vmi_arm_timer := Some Timer_idle\<rparr>"
  have s3: "hooks s3 = hooks s2" "capture s3 = capture s2" "tables s3 = tables s2" "fault s3 = fault s2"
    "arming s3 = (Some Timer_idle, 0, vmi_first_hit_seen s2, vmi_boot_sync_ok s2)"
    by (simp_all add: s3_def) (simp add: arming_def)
  have run: "vmi_vm_state_change K sh cs now running st s =
      (if \<not> running \<or> \<not> vmi_enabled s2 then s2
       else if vmi_arm_timer s2 \<noteq> None then vmi_debug ''[vm_state_change] arm already in flight, ignoring'' s2
       else vmi_try_arm K cs now s3)"
    unfolding vmi_vm_state_change_def Let_def s1_def [symmetric] s2_def [symmetric] s3_def by (rule refl)
  have dbg: "enabled_ok (vmi_debug m s2)" for m
    using ok2 stepping_ok_cong [of "vmi_debug m s2" s2] timer_ok_cong [of "vmi_debug m s2" s2]
    by (simp add: enabled_ok_def)
  have parts: "log_ready s3" "stepping_ok s3" "\<not> fault s3"
    using ok2 log_ready_cong [OF s3(2)] stepping_ok_cong [OF s3(1,3)] s3(4) by (simp_all add: enabled_ok_def)
  have "enabled_ok (vmi_try_arm K cs now s3)"
  proof (cases "vmi_first_hit_seen s2 \<or> vmi_boot_sync_ok s2")
    case True
    then have "vmi_first_hit_seen s3 \<or> vmi_boot_sync_ok s3" using s3(5) by (simp add: arming_def)
    then have t: "vmi_try_arm K cs now s3 = arm_timer_free s3" by (rule vmi_try_arm_stands_down)
    have "arming (arm_timer_free s3) = (None, 0, vmi_first_hit_seen s2, vmi_boot_sync_ok s2)"
      using s3(5) by (simp only: timer_ops) (simp add: arming_def)
    from timer_ok_arming [OF this] have "timer_ok (arm_timer_free s3)" by (simp add: VMI_ARM_MAX_ATTEMPTS_def)
    then show ?thesis
      using parts log_ready_cong [of "arm_timer_free s3" s3] stepping_ok_cong [of "arm_timer_free s3" s3]
      unfolding t by (intro enabled_ok_step [OF ok2]) (simp_all add: s3)
  next
    case False
    have "timer_ok s3" using timer_ok_arming [OF s3(5)] False by (simp add: VMI_ARM_MAX_ATTEMPTS_def)
    with parts s3(1) have "enabled_ok s3" by (intro enabled_ok_step [OF ok2])
    moreover have "vmi_arm_timer s3 \<noteq> None" using s3(5) by (simp add: arming_def)
    ultimately show ?thesis by (rule vmi_try_arm_inv)
  qed
  with ok2 dbg show ?thesis by (simp add: run)
qed

lemma hit_inv:
  assumes "enabled_ok s" "vmi_monitor_is_hook_addr pc s"
  shows "enabled_ok (vmi_monitor_breakpoint_hit K tv cs pc s)"
proof -
  let ?u = "vmi_trap (note_hit K cs pc s) (hit_trap K tv cs pc s)"
  have s: "log_ready s" "stepping_ok s" "timer_ok s" "\<not> fault s" using assms(1) by (simp_all add: enabled_ok_def)
  have "log_ready (note_hit K cs pc s)" using s(1) log_ready_cong [of "note_hit K cs pc s" s] by simp
  from vmi_trap_ready [OF this, of "hit_trap K tv cs pc s"] s(4)
  have u: "log_ready ?u" "\<not> fault ?u" by simp_all
  obtain st sa where tab: "tables s = (Some st, Some sa)" "\<And>c. st c = VMI_STEPPING \<Longrightarrow> sa c \<in> hook_addrs s"
    using s(2) by (auto simp: stepping_ok_def)
  have "tables ?u = tables s" "hooks ?u = hooks s" by simp_all
  with tab(1) have tu: "vmi_state_table ?u = Some st" "vmi_step_addr_table ?u = Some sa" "hooks ?u = hooks s"
    by (simp_all add: tables_def)
  have pc: "pc \<in> hook_addrs s" using assms(2) by (auto simp: vmi_monitor_is_hook_addr_def hook_addrs_def)
  let ?t = "begin_step K cs pc ?u"
  have "enabled_ok ?t"
  proof (rule enabled_ok_step [OF assms(1)])
    show "hooks ?t = hooks s" by simp
    then have "hook_addrs ?t = hook_addrs s" by (simp add: hook_addrs_def groups)
    then show "stepping_ok ?t"
      using begin_step_tables(1) [OF tu(1,2), of K cs pc] \<open>tables ?u = tables s\<close> tab pc
      by (auto simp: stepping_ok_def)
    show "log_ready ?t" using u log_ready_cong [of ?t ?u] by simp
    show "\<not> fault ?t" using begin_step_tables(2) [OF tu(1,2)] u by simp
    have "arming ?t = (if vmi_first_hit_seen s then arming s else (None, vmi_arm_attempts s, True, vmi_boot_sync_ok s))"
      by (simp add: note_hit_arming)
    then show "timer_ok ?t" using s(3) by (auto simp: timer_ok_def arming_def split: if_splits)
  qed
  then show ?thesis by (simp add: vmi_monitor_breakpoint_hit_parts)
qed

lemma step_complete_inv:
  assumes "enabled_ok s"
  shows "enabled_ok (vmi_monitor_step_complete K cs s)"
proof (rule enabled_ok_step [OF assms])
  let ?t = "vmi_monitor_step_complete K cs s"
  have s: "log_ready s" "stepping_ok s" "timer_ok s" "\<not> fault s" using assms by (simp_all add: enabled_ok_def)
  obtain st sa where tab: "tables s = (Some st, Some sa)" "\<And>c. st c = VMI_STEPPING \<Longrightarrow> sa c \<in> hook_addrs s"
    using s(2) by (auto simp: stepping_ok_def)
  then have ts: "vmi_state_table s = Some st" "vmi_step_addr_table s = Some sa" by (simp_all add: tables_def)
  show "hooks ?t = hooks s" by simp
  then have "hook_addrs ?t = hook_addrs s" by (simp add: hook_addrs_def groups)
  then show "stepping_ok ?t"
    using step_complete_tables(1) [OF ts(1), of K cs] tab ts by (auto simp: stepping_ok_def)
  show "log_ready ?t" using s log_ready_cong [of ?t s] by simp
  show "timer_ok ?t" using s timer_ok_cong [of ?t s] by simp
  show "\<not> fault ?t" using step_complete_tables(2) [OF ts(1)] s by simp
qed

lemma enabled_ok_bql [simp]: "enabled_ok (s\<lparr>bql := b\<rparr>) = enabled_ok s"
  by (simp add: enabled_ok_def log_ready_def stepping_ok_def tables_def timer_ok_def hook_addrs_def)

lemma disabled_ok_bql [simp]: "disabled_ok (s\<lparr>bql := b\<rparr>) = disabled_ok s"
  by (simp add: disabled_ok_def)

lemma kvm_handle_debug_inv:
  assumes "enabled_ok s"
  shows "enabled_ok (fst (kvm_handle_debug Q K tv cs x s))"
  using assms by (simp add: kvm_handle_debug_def hit_inv step_complete_inv)

lemma disabled_react:
  assumes "disabled_ok s" "possible s i"
  shows "disabled_ok (vmi_react Q K s i)"
  using assms
  by (cases i) (auto simp: kvm_handle_debug_def vmi_monitor_is_enabled_def vmi_monitor_is_hook_addr_def
      fw_cfg_dma_done_def vmi_monitor_kernel_loaded_def disabled_ok_def split: option.split)

lemma enabled_react:
  assumes "enabled_ok s" "possible s i"
  shows "enabled_ok (vmi_react Q K s i)"
proof (cases i)
  case (Guest h)
  with assms show ?thesis
    using stepping_ok_cong [of "s\<lparr>hyp := h\<rparr>" s] log_ready_cong [of "s\<lparr>hyp := h\<rparr>" s] timer_ok_cong [of "s\<lparr>hyp := h\<rparr>" s]
    by (intro enabled_ok_step [OF assms(1)]) (simp_all add: enabled_ok_def)
next
  case (Timer now)
  then have "vmi_arm_timer (s\<lparr>bql := True\<rparr>) \<noteq> None" using assms(2) by (auto split: option.splits)
  with Timer assms(1) vmi_try_arm_inv [of "s\<lparr>bql := True\<rparr>"] show ?thesis by simp
qed (use assms(1) in \<open>simp_all add: kvm_handle_debug_inv state_change_inv fw_cfg_dma_done_def kernel_loaded_inv\<close>)

lemma vmi_reach_inv: "vmi_reach Q K E s \<Longrightarrow> vmi_inv s"
proof (induction rule: vmi_reach.induct)
  case (step s i)
  from step.IH show ?case
    unfolding vmi_inv_def
    by (elim disjE) (simp_all add: disabled_react [OF _ step.hyps(2)] enabled_react [OF _ step.hyps(2)])
qed (rule vmi_inv_init)

section \<open>Laws of the KVM interface\<close>

text \<open>
  What QEMU documents of its software breakpoints, with \<open>cnt a h\<close> the use count of
  address \<open>a\<close>: an address is found exactly while its count is positive; a successful
  insertion adds one and a successful removal takes one away; other addresses keep their
  count and their byte; stepping changes neither.
\<close>

definition kvm_laws :: "'k kvm \<Rightarrow> (u64 \<Rightarrow> 'k \<Rightarrow> nat) \<Rightarrow> bool" where
  "kvm_laws K cnt \<longleftrightarrow>
     (\<forall>cs a h. find_bp K cs a h \<longleftrightarrow> 0 < cnt a h) \<and>
     (\<forall>cs a h. snd (insert_bp K cs a h) = 0 \<longrightarrow> cnt a (fst (insert_bp K cs a h)) = Suc (cnt a h)) \<and>
     (\<forall>cs a h. snd (remove_bp K cs a h) = 0 \<longrightarrow> cnt a h = Suc (cnt a (fst (remove_bp K cs a h)))) \<and>
     (\<forall>cs a b h. a \<noteq> b \<longrightarrow> cnt b (fst (insert_bp K cs a h)) = cnt b h \<and>
        cnt b (fst (remove_bp K cs a h)) = cnt b h) \<and>
     (\<forall>cs c a b h. a \<noteq> b \<longrightarrow> read_byte K c b (fst (insert_bp K cs a h)) = read_byte K c b h \<and>
        read_byte K c b (fst (remove_bp K cs a h)) = read_byte K c b h) \<and>
     (\<forall>cs on a h. cnt a (single_step K cs on h) = cnt a h)"

lemma kvm_lawsD:
  assumes "kvm_laws K cnt"
  shows "find_bp K cs a h \<longleftrightarrow> 0 < cnt a h"
    "snd (insert_bp K cs a h) = 0 \<Longrightarrow> cnt a (fst (insert_bp K cs a h)) = Suc (cnt a h)"
    "snd (remove_bp K cs a h) = 0 \<Longrightarrow> cnt a h = Suc (cnt a (fst (remove_bp K cs a h)))"
    "a \<noteq> b \<Longrightarrow> read_byte K c b (fst (insert_bp K cs a h)) = read_byte K c b h"
    "a \<noteq> b \<Longrightarrow> read_byte K c b (fst (remove_bp K cs a h)) = read_byte K c b h"
    "cnt a (single_step K cs on h) = cnt a h"
  using assms unfolding kvm_laws_def by simp_all

text \<open>A small machine that obeys them: a memory of readable bytes and the saved instructions.\<close>

record demo =
  demo_mem :: "u64 \<Rightarrow> u8"
  demo_bps :: "u64 \<Rightarrow> (nat \<times> u8) option"

definition demo_count :: "u64 \<Rightarrow> demo \<Rightarrow> nat" where
  "demo_count a h = (case demo_bps h a of None \<Rightarrow> 0 | Some (n, _) \<Rightarrow> Suc n)"

definition demo_insert :: "u64 \<Rightarrow> demo \<Rightarrow> demo \<times> int" where
  "demo_insert a h =
     (case demo_bps h a of
        Some (n, b) \<Rightarrow> (h\<lparr>demo_bps := (demo_bps h)(a \<mapsto> (Suc n, b))\<rparr>, 0)
      | None \<Rightarrow> (h\<lparr>demo_bps := (demo_bps h)(a \<mapsto> (0, demo_mem h a)), demo_mem := (demo_mem h)(a := 0xcc)\<rparr>, 0))"

definition demo_remove :: "u64 \<Rightarrow> demo \<Rightarrow> demo \<times> int" where
  "demo_remove a h =
     (case demo_bps h a of
        None \<Rightarrow> (h, - 2)
      | Some (0, b) \<Rightarrow> (h\<lparr>demo_bps := (demo_bps h)(a := None), demo_mem := (demo_mem h)(a := b)\<rparr>, 0)
      | Some (Suc n, b) \<Rightarrow> (h\<lparr>demo_bps := (demo_bps h)(a \<mapsto> (n, b))\<rparr>, 0))"

definition demo_kvm :: "demo kvm" where
  "demo_kvm = \<lparr>insert_bp = (\<lambda>cs. demo_insert), remove_bp = (\<lambda>cs. demo_remove),
     find_bp = (\<lambda>cs a h. demo_bps h a \<noteq> None), read_byte = (\<lambda>cs a h. Some (demo_mem h a)),
     single_step = (\<lambda>cs on h. h), sync_state = (\<lambda>cs h. sample_env 0x7f00 1)\<rparr>"

definition demo_start :: demo where
  "demo_start = \<lparr>demo_mem = (\<lambda>_. 0xfa), demo_bps = (\<lambda>_. None)\<rparr>"

definition demo_qemu :: "demo qemu" where
  "demo_qemu = \<lparr>hw_debug = (\<lambda>cs x h. False), singlestep_enabled = (\<lambda>cs h. False), first_cpu = 0,
     run_state_shutdown = 13\<rparr>"

definition demo_env :: vmi_env where
  "demo_env = \<lparr>env_addr = Some (py_hex 0x101000), env_ret_addr = Some (py_hex 0x101080), env_log = None,
     open_append = (\<lambda>p. None)\<rparr>"

lemma demo_laws: "kvm_laws demo_kvm demo_count"
  by (auto simp: kvm_laws_def demo_kvm_def demo_count_def demo_insert_def demo_remove_def
      split: option.splits prod.splits nat.splits)

section \<open>Properties\<close>

lemma demo_init_fields:
  "vmi_reach demo_qemu demo_kvm demo_env (vmi_monitor_init demo_env (vmi_zero demo_start))"
  by (rule vmi_reach.start)

text \<open>
  C14: safety of every reachable state. Whatever order QEMU's calls come in and whatever the
  guest does in between, the monitor never uses a null pointer; once a hit or the boot-time
  hook has confirmed the breakpoint no retry timer is left; and there are never more than
  100 attempts.
\<close>

theorem vmi_reachable_safe:
  assumes "vmi_reach Q K E s"
  shows "\<not> fault s \<and> (vmi_first_hit_seen s \<or> vmi_boot_sync_ok s \<longrightarrow> vmi_arm_timer s = None) \<and>
    (vmi_enabled s \<longrightarrow> vmi_arm_attempts s \<le> VMI_ARM_MAX_ATTEMPTS)"
  using vmi_reach_inv [OF assms] by (auto simp: vmi_inv_def enabled_ok_def disabled_ok_def timer_ok_def)

theorem vmi_reachable_safe_witness:
  "\<not> fault (vmi_react demo_qemu demo_kvm (vmi_monitor_init demo_env (vmi_zero demo_start)) (Guest demo_start))"
  using vmi_reachable_safe [OF vmi_reach.step [OF demo_init_fields, of "Guest demo_start"]] by simp

text \<open>
  C15: a step-over always ends. In a reachable state, the single-step trap of a vCPU the
  monitor is stepping is consumed and takes that vCPU, and no other, back to normal; the
  stepped-over address is one of the hooks; and unless an error is reported, the byte there
  reads back as \<open>0xcc\<close>.
\<close>

theorem vmi_step_over_ends:
  assumes "vmi_reach Q K E s" "vmi_monitor_get_state cs s = VMI_STEPPING" "ex_db x" "ex_bs x"
  shows "\<exists>t. kvm_handle_debug Q K tv cs x s = (t, Consumed) \<and>
    (\<forall>c. vmi_monitor_get_state c t = (if c = cs then VMI_NORMAL else vmi_monitor_get_state c s)) \<and>
    get_step_addr cs s \<in> hook_addrs s \<and>
    (vmi_reports t = vmi_reports s \<longrightarrow> read_byte K cs (get_step_addr cs s) (hyp t) = Some 0xcc)"
proof -
  have "enabled_ok s"
    using vmi_reach_inv [OF assms(1)] assms(2)
    by (auto simp: vmi_inv_def disabled_ok_def vmi_monitor_get_state_def)
  then obtain st sa where tab: "vmi_state_table s = Some st" "vmi_step_addr_table s = Some sa"
    "\<And>c. st c = VMI_STEPPING \<Longrightarrow> sa c \<in> hook_addrs s" and en: "vmi_enabled s"
    by (auto simp: enabled_ok_def stepping_ok_def tables_def)
  let ?t = "vmi_monitor_step_complete K cs s"
  have run: "kvm_handle_debug Q K tv cs x s = (?t, Consumed)"
    using assms(2-4) en by (simp add: kvm_handle_debug_def vmi_monitor_is_enabled_def)
  have "vmi_state_table ?t = Some (st(cs := VMI_NORMAL))"
    using step_complete_tables(1) [OF tab(1), of K cs] by (simp add: tables_def)
  then have "\<forall>c. vmi_monitor_get_state c ?t = (if c = cs then VMI_NORMAL else vmi_monitor_get_state c s)"
    by (simp add: vmi_monitor_get_state_def tab)
  moreover have "get_step_addr cs s \<in> hook_addrs s"
    using assms(2) tab by (simp add: vmi_monitor_get_state_def get_step_addr_def)
  moreover have "vmi_reports ?t = vmi_reports s \<longrightarrow> read_byte K cs (get_step_addr cs s) (hyp ?t) = Some 0xcc"
    by (auto simp: vmi_monitor_step_complete_def case_prod_beta Let_def)
  ultimately show ?thesis using run by blast
qed

definition demo_exit :: "bool \<Rightarrow> debug_exit" where
  "demo_exit step = \<lparr>ex_db = step, ex_bs = step, ex_pc = 0x101000\<rparr>"

text \<open>The demonstration machine, started, with a breakpoint in place, trapped once.\<close>

definition demo_boot :: "demo vmi" where
  "demo_boot = vmi_monitor_init demo_env (vmi_zero demo_start)"

definition demo_armed :: "demo vmi" where
  "demo_armed = vmi_react demo_qemu demo_kvm demo_boot (Guest (fst (demo_insert 0x101000 demo_start)))"

definition demo_hit :: "demo vmi" where
  "demo_hit = vmi_react demo_qemu demo_kvm demo_armed (Debug 0 (demo_exit False) (sample_time 0))"

lemma demo_boot_fields:
  "vmi_enabled demo_boot" "vmi_addr demo_boot = 0x101000" "vmi_ret_addr demo_boot = 0x101080"
  "vmi_log_fp demo_boot = Some []" "tables demo_boot = (Some (\<lambda>_. VMI_NORMAL), Some (\<lambda>_. 0))"
  "arming demo_boot = (None, 0, False, False)" "state_handler demo_boot"
  by (simp_all add: demo_boot_def vmi_monitor_init_def demo_env_def init_ret_addr_def c_strtoull_py_hex
      Let_def tables_def arming_def)

lemma demo_armed_fields:
  "vmi_enabled demo_armed" "vmi_addr demo_armed = 0x101000" "vmi_ret_addr demo_armed = 0x101080"
  "vmi_log_fp demo_armed = Some []" "tables demo_armed = (Some (\<lambda>_. VMI_NORMAL), Some (\<lambda>_. 0))"
  "arming demo_armed = (None, 0, False, False)" "state_handler demo_armed"
  "hyp demo_armed = fst (demo_insert 0x101000 demo_start)"
  using demo_boot_fields by (simp_all add: demo_armed_def arming_def)

lemma demo_reach: "vmi_reach demo_qemu demo_kvm demo_env demo_boot"
  "vmi_reach demo_qemu demo_kvm demo_env demo_armed" "vmi_reach demo_qemu demo_kvm demo_env demo_hit"
proof -
  show boot: "vmi_reach demo_qemu demo_kvm demo_env demo_boot"
    unfolding demo_boot_def by (rule vmi_reach.start)
  show armed: "vmi_reach demo_qemu demo_kvm demo_env demo_armed"
    unfolding demo_armed_def by (rule vmi_reach.step [OF boot]) simp
  show "vmi_reach demo_qemu demo_kvm demo_env demo_hit"
    unfolding demo_hit_def by (rule vmi_reach.step [OF armed]) simp
qed

lemma demo_hit_run:
  "demo_hit = vmi_monitor_breakpoint_hit demo_kvm (sample_time 0) 0 0x101000 (demo_armed\<lparr>bql := True\<rparr>)"
proof -
  have "vmi_monitor_get_state 0 (demo_armed\<lparr>bql := True\<rparr>) = VMI_NORMAL"
    using demo_armed_fields(5) by (simp add: vmi_monitor_get_state_def tables_def)
  then show ?thesis
    using demo_armed_fields
    by (simp add: demo_hit_def kvm_handle_debug_def demo_exit_def vmi_monitor_is_hook_addr_def demo_kvm_def
        demo_insert_def demo_start_def)
qed

lemma demo_hit_tables: "tables demo_hit = (Some ((\<lambda>_. VMI_NORMAL)(0 := VMI_STEPPING)), Some ((\<lambda>_. 0)(0 := 0x101000)))"
proof -
  let ?s = "demo_armed\<lparr>bql := True\<rparr>"
  let ?u = "vmi_trap (note_hit demo_kvm 0 0x101000 ?s) (hit_trap demo_kvm (sample_time 0) 0 0x101000 ?s)"
  have "tables ?u = tables demo_armed" "hyp ?u = hyp demo_armed" by simp_all
  then have u: "vmi_state_table ?u = Some (\<lambda>_. VMI_NORMAL)" "vmi_step_addr_table ?u = Some (\<lambda>_. 0)"
    "snd (remove_bp demo_kvm 0 0x101000 (hyp ?u)) = 0"
    using demo_armed_fields by (simp_all add: tables_def demo_kvm_def demo_remove_def demo_insert_def demo_start_def)
  show ?thesis
    using begin_step_tables(1) [OF u(1,2)] u(3) by (simp add: demo_hit_run vmi_monitor_breakpoint_hit_parts)
qed

lemma demo_stepping: "vmi_monitor_get_state 0 demo_hit = VMI_STEPPING"
  using demo_hit_tables by (simp add: vmi_monitor_get_state_def tables_def)

theorem vmi_step_over_ends_witness:
  "\<exists>t. kvm_handle_debug demo_qemu demo_kvm (sample_time 0) 0 (demo_exit True) demo_hit = (t, Consumed)"
  using vmi_step_over_ends [OF demo_reach(3) demo_stepping, of "demo_exit True" "sample_time 0"]
  by (auto simp: demo_exit_def)

text \<open>
  C18: the monitor is opt-in. While it is disabled, which is the case whenever
  \<open>VMI_MONITOR_ADDR\<close> is unset, the patched \<open>kvm_handle_debug\<close> is the stock one,
  and the fw_cfg hook does nothing.
\<close>

theorem vmi_opt_in:
  "(\<not> vmi_enabled s \<longrightarrow> kvm_handle_debug Q K tv cs x s = kvm_handle_debug_stock Q K cs x s \<and>
      fw_cfg_dma_done K cs d s = s) \<and>
   (env_addr E = None \<longrightarrow> \<not> vmi_enabled (vmi_monitor_init E s))"
  by (auto simp: kvm_handle_debug_def kvm_handle_debug_stock_def vmi_monitor_is_enabled_def
      vmi_monitor_is_hook_addr_def fw_cfg_dma_done_def vmi_monitor_kernel_loaded_def vmi_monitor_init_def
      Let_def split: option.split)

theorem vmi_opt_in_witness:
  "kvm_handle_debug demo_qemu demo_kvm (sample_time 0) 0 (demo_exit False) (vmi_zero demo_start) =
     kvm_handle_debug_stock demo_qemu demo_kvm 0 (demo_exit False) (vmi_zero demo_start)"
  using vmi_opt_in [of "vmi_zero demo_start" demo_qemu demo_kvm "sample_time 0" 0 "demo_exit False"]
  by simp

text \<open>
  Gdb keeps working. An enabled monitor leaves every debug exit to stock QEMU that is
  not its own: a breakpoint at another address, a breakpoint on a vCPU it is stepping, and
  a single step or hardware event of a vCPU it is not stepping.
\<close>

lemma vmi_foreign_debug_events:
  assumes "ex_db x \<and> (ex_bs x \<longrightarrow> vmi_monitor_get_state cs s = VMI_NORMAL) \<or>
    \<not> ex_db x \<and> (ex_pc x \<notin> hook_addrs s \<or> vmi_monitor_get_state cs s = VMI_STEPPING)"
  shows "kvm_handle_debug Q K tv cs x s = kvm_handle_debug_stock Q K cs x s"
  using assms
  by (auto simp: kvm_handle_debug_def kvm_handle_debug_stock_def vmi_monitor_is_hook_addr_def hook_addrs_def
      Let_def split: if_splits)

lemma vmi_foreign_debug_events_example:
  "kvm_handle_debug demo_qemu demo_kvm (sample_time 0) 0 (demo_exit False) demo_hit =
     kvm_handle_debug_stock demo_qemu demo_kvm 0 (demo_exit False) demo_hit"
  by (rule vmi_foreign_debug_events) (simp add: demo_exit_def demo_stepping)

lemma vmi_monitor_init_cases:
  assumes t: "env_addr E = Some t"
  shows "c_strtoull t = 0 \<Longrightarrow> \<exists>m. vmi_monitor_init E s = report Error_report m (s\<lparr>vmi_addr := 0\<rparr>)"
    and "c_strtoull t \<noteq> 0 \<Longrightarrow>
      open_append E (case env_log E of None \<Rightarrow> ''vmi_monitor.jsonl'' | Some p \<Rightarrow> p) = Some why \<Longrightarrow>
      \<exists>m. vmi_monitor_init E s =
        report Error_report m (init_ret_addr (env_ret_addr E) (s\<lparr>vmi_addr := c_strtoull t\<rparr>))"
    and "c_strtoull t \<noteq> 0 \<Longrightarrow>
      open_append E (case env_log E of None \<Rightarrow> ''vmi_monitor.jsonl'' | Some p \<Rightarrow> p) = None \<Longrightarrow>
      hooks (vmi_monitor_init E s) = (True, c_strtoull t,
        vmi_ret_addr (init_ret_addr (env_ret_addr E) (s\<lparr>vmi_addr := c_strtoull t\<rparr>)), True) \<and>
      vmi_log_fp (vmi_monitor_init E s) = Some []"
  unfolding vmi_monitor_init_def Let_def t option.case
  by (simp, blast) (simp, blast, simp add: hooks_def)

text \<open>The messages of \<open>vmi_monitor_init\<close>.\<close>

definition bad_addr_text :: "string \<Rightarrow> string" where
  "bad_addr_text t = ''vmi-monitor: VMI_MONITOR_ADDR='' @ [CHR 0x27] @ t @ [CHR 0x27] @
     '' could not be parsed as a non-zero address -- monitor disabled''"

definition bad_ret_text :: "string \<Rightarrow> string" where
  "bad_ret_text t = ''vmi-monitor: VMI_MONITOR_RET_ADDR='' @ [CHR 0x27] @ t @ [CHR 0x27] @
     '' is not a usable return-hook address -- return-value capture disabled (entry-only logging)''"

definition no_log_text :: "string \<Rightarrow> string \<Rightarrow> string" where
  "no_log_text path why = ''vmi-monitor: could not open log file '' @ [CHR 0x27] @ path @ [CHR 0x27] @ '' ('' @
     why @ '') -- monitor disabled''"

definition enabled_text :: "u64 \<Rightarrow> string \<Rightarrow> string" where
  "enabled_text a path = ''vmi-monitor: enabled, addr='' @ hex0x a @ '' log='' @ path"

text \<open>What \<open>VMI_MONITOR_RET_ADDR\<close> amounts to beside an entry hook at \<open>a\<close>.\<close>

definition ret_usable :: "u64 \<Rightarrow> string \<Rightarrow> bool" where
  "ret_usable a r \<longleftrightarrow> c_strtoull r \<noteq> 0 \<and> c_strtoull r \<noteq> a"

definition ret_hook :: "u64 \<Rightarrow> string option \<Rightarrow> u64" where
  "ret_hook a v = (case v of None \<Rightarrow> 0 | Some r \<Rightarrow> if ret_usable a r then c_strtoull r else 0)"

definition ret_reports :: "u64 \<Rightarrow> string option \<Rightarrow> (report_level \<times> string) list" where
  "ret_reports a v = (case v of None \<Rightarrow> [] | Some r \<Rightarrow> if ret_usable a r then [] else [(Error_report, bad_ret_text r)])"

definition env_log_path :: "vmi_env \<Rightarrow> string" where
  "env_log_path E = (case env_log E of None \<Rightarrow> ''vmi_monitor.jsonl'' | Some p \<Rightarrow> p)"

lemma init_ret_addr_reports:
  assumes "vmi_ret_addr s = 0"
  shows "vmi_reports (init_ret_addr v s) = vmi_reports s @ ret_reports (vmi_addr s) v"
    "vmi_ret_addr (init_ret_addr v s) = ret_hook (vmi_addr s) v"
    "vmi_addr (init_ret_addr v s) = vmi_addr s" "vmi_enabled (init_ret_addr v s) = vmi_enabled s"
    "state_handler (init_ret_addr v s) = state_handler s" "vmi_log_fp (init_ret_addr v s) = vmi_log_fp s"
  using assms
  by (auto simp: init_ret_addr_def report_def ret_reports_def ret_hook_def ret_usable_def bad_ret_text_def Let_def
      split: option.split)

text \<open>
  C19: what starts the monitor, and what it reports. Unset \<open>VMI_MONITOR_ADDR\<close>: nothing is
  enabled and nothing reported. An address that does not parse as a non-zero number: disabled,
  with exactly the error that says so. Otherwise a return-hook variable that is no other
  non-zero address is reported as an error and leaves capture of return values off; then a log
  file that cannot be opened disables the monitor with the reason, and one that opens enables
  it at these addresses, with an empty log, its run-state handler and the message that says so.
\<close>

theorem vmi_init_result:
  "let s = vmi_monitor_init E (vmi_zero k); path = env_log_path E in
    case env_addr E of
      None \<Rightarrow> \<not> vmi_enabled s \<and> \<not> state_handler s \<and> vmi_reports s = []
    | Some t \<Rightarrow>
        if c_strtoull t = 0 then
          \<not> vmi_enabled s \<and> \<not> state_handler s \<and> vmi_reports s = [(Error_report, bad_addr_text t)]
        else
          (case open_append E path of
             Some why \<Rightarrow> \<not> vmi_enabled s \<and> \<not> state_handler s \<and>
               vmi_reports s = ret_reports (c_strtoull t) (env_ret_addr E) @ [(Error_report, no_log_text path why)]
           | None \<Rightarrow> vmi_enabled s \<and> state_handler s \<and> vmi_log_fp s = Some [] \<and> vmi_addr s = c_strtoull t \<and>
               vmi_ret_addr s = ret_hook (c_strtoull t) (env_ret_addr E) \<and>
               vmi_reports s = ret_reports (c_strtoull t) (env_ret_addr E) @ [(Info_report, enabled_text (c_strtoull t) path)])"
proof (cases "env_addr E")
  case None
  then show ?thesis by (simp add: vmi_monitor_init_def vmi_zero_def Let_def)
next
  case (Some t)
  let ?z = "(vmi_zero k)\<lparr>vmi_addr := c_strtoull t\<rparr>"
  have z: "vmi_ret_addr ?z = 0" "vmi_reports ?z = []" "\<not> vmi_enabled ?z" "\<not> state_handler ?z" "vmi_addr ?z = c_strtoull t"
    by (simp_all add: vmi_zero_def)
  note ret = init_ret_addr_reports [OF z(1), of "env_ret_addr E", unfolded z]
  show ?thesis
  proof (cases "c_strtoull t = 0")
    case True
    with Some z show ?thesis by (simp add: vmi_monitor_init_def bad_addr_text_def report_def Let_def)
  next
    case False
    then show ?thesis
      using Some ret z
      by (cases "open_append E (env_log_path E)")
        (simp_all add: vmi_monitor_init_def env_log_path_def no_log_text_def enabled_text_def report_def vmi_debug_def Let_def)
  qed
qed

lemma vmi_arm_addr_ok:
  assumes "snd (vmi_arm_addr K cs a tag s)"
  shows "read_byte K cs a (hyp (fst (vmi_arm_addr K cs a tag s))) = Some 0xcc"
    and "hyp (fst (vmi_arm_addr K cs a tag s)) =
      fst (insert_bp K cs a (fst (remove_bp K cs a (hyp s))))"
  using assms by (auto simp: vmi_arm_addr_def Let_def case_prod_beta split: option.splits if_splits)

lemma vmi_arm_once_bytes:
  assumes "kvm_laws K cnt" "vmi_ret_addr s \<noteq> vmi_addr s" "snd (vmi_arm_once K cs tag s)"
  shows "read_byte K cs (vmi_addr s) (hyp (fst (vmi_arm_once K cs tag s))) = Some 0xcc \<and>
    (vmi_ret_addr s \<noteq> 0 \<longrightarrow>
      read_byte K cs (vmi_ret_addr s) (hyp (fst (vmi_arm_once K cs tag s))) = Some 0xcc)"
proof -
  let ?s1 = "fst (vmi_arm_addr K cs (vmi_addr s) tag s)"
  have fields: "vmi_ret_addr ?s1 = vmi_ret_addr s" using groups_fields(1) [OF vmi_arm_addr_frame(1)] by blast
  have ok1: "snd (vmi_arm_addr K cs (vmi_addr s) tag s)"
    using assms(3) by (auto simp: vmi_arm_once_def Let_def case_prod_beta split: if_splits)
  note a1 = vmi_arm_addr_ok(1) [OF ok1]
  show ?thesis
  proof (cases "vmi_ret_addr s = 0")
    case True
    then have "fst (vmi_arm_once K cs tag s) = ?s1"
      using ok1 fields by (simp add: vmi_arm_once_def Let_def case_prod_beta)
    with a1 True show ?thesis by simp
  next
    case False
    let ?s2 = "fst (vmi_arm_addr K cs (vmi_ret_addr s) tag ?s1)"
    have ok2: "snd (vmi_arm_addr K cs (vmi_ret_addr s) tag ?s1)" and run: "fst (vmi_arm_once K cs tag s) = ?s2"
      using assms(3) ok1 fields False by (auto simp: vmi_arm_once_def Let_def case_prod_beta split: if_splits)
    have "read_byte K cs (vmi_addr s) (hyp ?s2) = read_byte K cs (vmi_addr s) (hyp ?s1)"
      using assms(2) by (simp add: vmi_arm_addr_ok(2) [OF ok2] kvm_lawsD(4,5) [OF assms(1)])
    then show ?thesis using a1 vmi_arm_addr_ok(1) [OF ok2] run by simp
  qed
qed

lemma demo_boot_hyp: "hyp demo_boot = demo_start"
  by (simp add: demo_boot_def vmi_monitor_init_def demo_env_def init_ret_addr_def c_strtoull_py_hex Let_def
      vmi_zero_def)

lemma demo_arm_addr:
  assumes "demo_bps (hyp s) a = None"
  shows "snd (vmi_arm_addr demo_kvm cs a tag s)"
    and "b \<noteq> a \<Longrightarrow> demo_bps (hyp (fst (vmi_arm_addr demo_kvm cs a tag s))) b = demo_bps (hyp s) b"
  using assms
  by (simp_all add: vmi_arm_addr_def Let_def case_prod_beta demo_kvm_def demo_insert_def demo_remove_def)

lemma demo_arms: "snd (vmi_arm_once demo_kvm 0 ''arm'' demo_boot)"
proof -
  let ?s1 = "fst (vmi_arm_addr demo_kvm 0 0x101000 ''arm'' demo_boot)"
  have none: "demo_bps (hyp demo_boot) a = None" for a by (simp add: demo_boot_hyp demo_start_def)
  have "demo_bps (hyp ?s1) 0x101080 = None" using demo_arm_addr(2) [OF none] none by simp
  moreover have "vmi_ret_addr ?s1 = 0x101080"
    using groups_fields(1) [OF vmi_arm_addr_frame(1)] demo_boot_fields(3) by metis
  ultimately show ?thesis
    using demo_arm_addr(1) [OF none, where cs = 0 and tag = "''arm''"]
      demo_arm_addr(1) [where s = ?s1 and a = "0x101080" and cs = 0 and tag = "''arm''"]
    by (simp add: vmi_arm_once_def Let_def case_prod_beta demo_boot_fields(2))
qed

end
