(* ===== verification/Vmi_Properties.thy ===== *)
theory Vmi_Properties
  imports Kvm_Dispatch
begin

text \<open>
  Properties of the whole QEMU-side monitor over QEMU's calls: what each call does to the
  capture, that retries end, that a confirmed breakpoint is left alone, and the behaviours
  the code's comments do not describe.
\<close>

section \<open>The effect of a call on the capture\<close>

text \<open>Two states with the same capture and hooks; debug output and the rest may differ.\<close>

definition same_capture :: "'k vmi \<Rightarrow> 'k vmi \<Rightarrow> bool" where
  "same_capture s t \<longleftrightarrow> capture s = capture t \<and> vmi_addr s = vmi_addr t \<and> vmi_ret_addr s = vmi_ret_addr t"

lemma same_capture_ops:
  assumes "same_capture s t"
  shows "same_capture (vmi_debug m s) (vmi_debug m t)" "same_capture (set_slot i p s) (set_slot i p t)"
    "same_capture (vmi_write_event e s) (vmi_write_event e t)"
    "same_capture (s\<lparr>vmi_pending_seq := n\<rparr>) (t\<lparr>vmi_pending_seq := n\<rparr>)"
    "same_capture (s\<lparr>fault := True\<rparr>) (t\<lparr>fault := True\<rparr>)"
    "vmi_pending s = vmi_pending t" "vmi_pending_seq s = vmi_pending_seq t" "vmi_addr s = vmi_addr t"
    "vmi_ret_addr s = vmi_ret_addr t"
  using assms
  by (auto simp: same_capture_def groups set_slot_def vmi_write_event_def split: option.splits)

lemma same_capture_write_unfinished:
  "same_capture s t \<Longrightarrow> same_capture (vmi_write_unfinished i why s) (vmi_write_unfinished i why t)"
  by (simp add: vmi_write_unfinished_def Let_def same_capture_ops)

lemma same_capture_round:
  assumes "same_capture s t"
  shows "same_capture (fst (entry_round a b i (s, x))) (fst (entry_round a b i (t, x))) \<and>
    snd (entry_round a b i (s, x)) = snd (entry_round a b i (t, x))"
proof -
  define s1 where "s1 = (if at_key a b (vmi_pending s ! i) then supersede a b i s else s)"
  define t1 where "t1 = (if at_key a b (vmi_pending t ! i) then supersede a b i t else t)"
  have "same_capture s1 t1"
    using assms by (simp add: s1_def t1_def supersede_def same_capture_ops same_capture_write_unfinished)
  then have p: "vmi_pending s1 = vmi_pending t1" "same_capture s1 t1" by (simp_all add: same_capture_ops)
  show ?thesis
    unfolding entry_round_def case_prod_beta Let_def fst_conv snd_conv s1_def [symmetric] t1_def [symmetric]
    using p by (simp split: option.split)
qed

lemma same_capture_fold:
  "same_capture s t \<Longrightarrow>
   same_capture (fst (fold (entry_round a b) ns (s, x))) (fst (fold (entry_round a b) ns (t, x))) \<and>
   snd (fold (entry_round a b) ns (s, x)) = snd (fold (entry_round a b) ns (t, x))"
proof (induction ns arbitrary: s t x)
  case (Cons n ns)
  obtain s1 y where s1: "entry_round a b n (s, x) = (s1, y)" by (cases "entry_round a b n (s, x)")
  with same_capture_round [OF Cons.prems, of a b n x] obtain t1 where
    t1: "entry_round a b n (t, x) = (t1, y)" "same_capture s1 t1"
    by (cases "entry_round a b n (t, x)") auto
  from Cons.IH [OF t1(2)] s1 t1(1) show ?case by simp
qed simp

lemma same_capture_trap:
  assumes "same_capture s t"
  shows "same_capture (vmi_trap s e) (vmi_trap t e)"
proof (cases e)
  case (Entry_trap cs env tv)
  let ?f = "fold (entry_round (env_regs env R_ESP) (env_regs env R_ECX)) [0..<length (vmi_pending t)]"
  obtain s1 y where s1: "?f (s, None, None) = (s1, y)" by (cases "?f (s, None, None)")
  with same_capture_fold [OF assms, of "env_regs env R_ESP" "env_regs env R_ECX"
      "[0..<length (vmi_pending t)]" "(None, None)"] obtain t1 where
    t1: "?f (t, None, None) = (t1, y)" "same_capture s1 t1"
    by (cases "?f (t, None, None)") auto
  show ?thesis
    using s1 t1 assms
    by (auto simp: Entry_trap vmi_handle_entry_def Let_def case_prod_beta same_capture_ops
        same_capture_write_unfinished split: option.split)
next
  case (Return_trap cs env tv)
  with assms show ?thesis
    by (simp add: vmi_handle_return_def Let_def same_capture_ops split: option.split)
qed

lemma same_capture_flush: "same_capture s t \<Longrightarrow> same_capture (vmi_flush_pending why s) (vmi_flush_pending why t)"
proof (induction why s arbitrary: t rule: vmi_flush_pending.induct)
  case (1 why s)
  have p: "vmi_pending t = vmi_pending s" using 1(2) by (simp add: same_capture_ops)
  show ?case
  proof (cases "pick_oldest (vmi_pending s)")
    case None
    with 1(2) show ?thesis
      by (simp add: vmi_flush_pending.simps [of why s] vmi_flush_pending.simps [of why t] p)
  next
    case (Some i)
    from 1(1) [OF this same_capture_write_unfinished [OF 1(2)]] Some show ?thesis
      by (simp add: vmi_flush_pending.simps [of why s] vmi_flush_pending.simps [of why t] p)
  qed
qed

text \<open>What a call means for the capture: nothing, one trap, or the flush at shutdown.\<close>

datatype effect = No_effect | Trap_effect trap | Flush_effect

primrec input_effect :: "'k qemu \<Rightarrow> 'k kvm \<Rightarrow> 'k vmi \<Rightarrow> 'k input \<Rightarrow> effect" where
  "input_effect Q K s (Guest h) = No_effect"
| "input_effect Q K s (Debug cs x tv) =
     (if \<not> ex_db x \<and> find_bp K cs (ex_pc x) (hyp s) \<and> vmi_monitor_is_hook_addr (ex_pc x) s \<and>
         vmi_monitor_get_state cs s = VMI_NORMAL
      then Trap_effect (hit_trap K tv cs (ex_pc x) s) else No_effect)"
| "input_effect Q K s (Fw_cfg cs d locked) = No_effect"
| "input_effect Q K s (Timer now) = No_effect"
| "input_effect Q K s (Run_state running st now) =
     (if \<not> running \<and> vmi_enabled s \<and> st = run_state_shutdown Q then Flush_effect else No_effect)"

primrec apply_effect :: "effect \<Rightarrow> 'k vmi \<Rightarrow> 'k vmi" where
  "apply_effect No_effect s = s"
| "apply_effect (Trap_effect t) s = vmi_trap s t"
| "apply_effect Flush_effect s = vmi_flush_pending ''shutdown'' s"

lemma same_captureD: "same_capture s t \<Longrightarrow> capture s = capture t"
  by (simp add: same_capture_def)

lemma note_hit_same: "same_capture (note_hit K cs pc s) s"
  using groups_fields(1) [OF note_hit_groups(1) [of K cs pc s]] by (simp add: same_capture_def)

lemma same_capture_bql: "same_capture (s\<lparr>bql := b\<rparr>) s"
  by (simp add: same_capture_def)

lemma bql_reads [simp]:
  "vmi_monitor_get_state cs (s\<lparr>bql := b\<rparr>) = vmi_monitor_get_state cs s"
  "vmi_monitor_is_hook_addr pc (s\<lparr>bql := b\<rparr>) = vmi_monitor_is_hook_addr pc s"
  "hit_trap K tv cs pc (s\<lparr>bql := b\<rparr>) = hit_trap K tv cs pc s"
  by (simp_all add: vmi_monitor_get_state_def vmi_monitor_is_hook_addr_def hit_trap_def)

lemma capture_hit:
  "capture (vmi_monitor_breakpoint_hit K tv cs pc s) = capture (vmi_trap s (hit_trap K tv cs pc s))"
  by (simp add: vmi_monitor_breakpoint_hit_parts same_captureD [OF same_capture_trap [OF note_hit_same]])

lemma capture_bql_trap: "capture (vmi_trap (s\<lparr>bql := b\<rparr>) t) = capture (vmi_trap s t)"
  by (rule same_captureD [OF same_capture_trap [OF same_capture_bql]])

lemma capture_state_change:
  "capture (vmi_vm_state_change K sh cs now running st s) =
     (if \<not> running \<and> vmi_enabled s \<and> st = sh then capture (vmi_flush_pending ''shutdown'' s) else capture s)"
proof -
  have "capture (vmi_flush_pending ''shutdown'' (vmi_debug m s)) = capture (vmi_flush_pending ''shutdown'' s)" for m
    by (rule same_captureD [OF same_capture_flush]) (simp add: same_capture_def)
  then show ?thesis by (simp add: vmi_vm_state_change_def Let_def)
qed

text \<open>
  What reaches the capture. The log and the table change only at a debug exit the
  monitor claims, exactly as the entry or return handler changes them on that vCPU's
  registers, and at shutdown, exactly as the flush does; arming, retries, the boot hook,
  step-overs, foreign debug exits and guest execution leave them alone.
\<close>

lemma react_capture:
  "capture (vmi_react Q K s i) = capture (apply_effect (input_effect Q K s i) s)"
proof (cases i)
  case (Debug cs x tv)
  then show ?thesis
    by (cases "input_effect Q K s i")
      (auto simp: kvm_handle_debug_def capture_hit capture_bql_trap split: if_splits)
next
  case (Fw_cfg cs d locked)
  then show ?thesis by (simp add: fw_cfg_dma_done_def)
next
  case (Run_state running st now)
  have "capture (vmi_flush_pending ''shutdown'' (s\<lparr>bql := True\<rparr>)) = capture (vmi_flush_pending ''shutdown'' s)"
    by (rule same_captureD [OF same_capture_flush [OF same_capture_bql]])
  with Run_state show ?thesis by (simp add: capture_state_change)
qed simp_all

section \<open>Retries\<close>

definition retry :: "'k kvm \<Rightarrow> cpu \<Rightarrow> 'k vmi \<Rightarrow> int \<Rightarrow> 'k vmi" where
  "retry K cs s now = (if vmi_arm_timer s = None then s else vmi_try_arm K cs now s)"

lemma retry_none: "vmi_arm_timer s = None \<Longrightarrow> foldl (retry K cs) s nows = s"
  by (induction nows) (simp_all add: retry_def)

lemma retries_end:
  "vmi_arm_timer s \<noteq> None \<Longrightarrow> VMI_ARM_MAX_ATTEMPTS \<le> vmi_arm_attempts s + int (length nows) \<Longrightarrow> nows \<noteq> [] \<Longrightarrow>
   vmi_arm_timer (foldl (retry K cs) s nows) = None"
proof (induction nows arbitrary: s)
  case (Cons now nows)
  let ?t = "vmi_try_arm K cs now s"
  note a = vmi_try_arm_arming(1) [OF Cons.prems(1), of K cs now]
  show ?case
  proof (cases "vmi_arm_timer ?t = None")
    case True
    moreover have "retry K cs s now = ?t" using Cons.prems(1) by (auto simp: retry_def)
    ultimately show ?thesis by (simp add: retry_none)
  next
    case False
    with a have "vmi_arm_attempts ?t = vmi_arm_attempts s + 1" "vmi_arm_attempts s + 1 < VMI_ARM_MAX_ATTEMPTS"
      by (auto simp: arming_def split: if_splits)
    then have "vmi_arm_timer (foldl (retry K cs) ?t nows) = None"
      using Cons.prems(2) by (intro Cons.IH [OF False]) auto
    moreover have "retry K cs s now = ?t" using Cons.prems(1) by (auto simp: retry_def)
    ultimately show ?thesis by simp
  qed
qed simp

text \<open>
  C16: retries end. In a reachable state with the retry timer running, at most 100 expiries
  of the timer, at whatever times and whatever KVM answers, leave no timer.
\<close>

theorem vmi_retries_end:
  assumes "vmi_reach Q K E s" "vmi_arm_timer s \<noteq> None" "length nows = 100"
  shows "vmi_arm_timer (foldl (retry K cs) s nows) = None"
proof (rule retries_end [OF assms(2)])
  show "VMI_ARM_MAX_ATTEMPTS \<le> vmi_arm_attempts s + int (length nows)"
    using vmi_reach_inv [OF assms(1)] assms(2,3)
    by (auto simp: vmi_inv_def disabled_ok_def enabled_ok_def timer_ok_def VMI_ARM_MAX_ATTEMPTS_def)
  show "nows \<noteq> []" using assms(3) by auto
qed

text \<open>The guest starts to run: a fresh timer, and the first attempt at once.\<close>

lemma state_change_starts:
  assumes "vmi_enabled s" "vmi_arm_timer s = None"
  shows "\<exists>t. vmi_vm_state_change K sh cs now True st s = vmi_try_arm K cs now t \<and>
    arming t = (Some Timer_idle, 0, vmi_first_hit_seen s, vmi_boot_sync_ok s)"
  using assms
  by (simp add: vmi_vm_state_change_def Let_def) (rule exI, rule conjI, rule refl, simp add: arming_def)

text \<open>A KVM that never lets a breakpoint stick.\<close>

definition dead_kvm :: "demo kvm" where
  "dead_kvm = demo_kvm\<lparr>insert_bp := (\<lambda>cs a h. (h, - 14))\<rparr>"

definition demo_running :: "demo vmi" where
  "demo_running = vmi_react demo_qemu dead_kvm demo_boot (Run_state True 9 1000)"

lemma demo_running: "vmi_reach demo_qemu dead_kvm demo_env demo_running" "vmi_arm_timer demo_running \<noteq> None"
proof -
  have "vmi_reach demo_qemu dead_kvm demo_env demo_boot"
    unfolding demo_boot_def by (rule vmi_reach.start)
  then show "vmi_reach demo_qemu dead_kvm demo_env demo_running"
    unfolding demo_running_def by (rule vmi_reach.step) (simp add: demo_boot_fields)
  have "vmi_enabled (demo_boot\<lparr>bql := True\<rparr>)" "vmi_arm_timer (demo_boot\<lparr>bql := True\<rparr>) = None"
    using demo_boot_fields by (simp_all add: arming_def)
  from state_change_starts [OF this, of dead_kvm 13 0 1000 9] obtain t where
    t: "demo_running = vmi_try_arm dead_kvm 0 1000 t"
      "arming t = (Some Timer_idle, 0, vmi_first_hit_seen demo_boot, vmi_boot_sync_ok demo_boot)"
    by (auto simp: demo_running_def demo_qemu_def)
  then have "vmi_arm_timer t \<noteq> None" by (simp add: arming_def)
  from vmi_try_arm_arming(1) [OF this, of dead_kvm 0 1000] t demo_boot_fields(6)
  show "vmi_arm_timer demo_running \<noteq> None"
    by (simp add: arming_def VMI_ARM_MAX_ATTEMPTS_def)
qed

theorem vmi_retries_end_witness:
  "vmi_arm_timer (foldl (retry dead_kvm 0) demo_running (replicate 100 1200)) = None"
  by (rule vmi_retries_end [OF demo_running]) simp

text \<open>
  A confirmed breakpoint is left alone. Once a hit has been seen or the boot hook has
  armed, no timer expiry, run-state change or fw_cfg transfer inserts or removes a
  breakpoint any more.
\<close>

lemma vmi_confirmed_stands_down:
  assumes "vmi_first_hit_seen s \<or> vmi_boot_sync_ok s"
  shows "hyp (vmi_react Q K s (Timer now)) = hyp s \<and> hyp (vmi_react Q K s (Run_state running st now)) = hyp s \<and>
    hyp (vmi_react Q K s (Fw_cfg cs d locked)) = hyp s"
  using assms
  by (auto simp: vmi_try_arm_stands_down fw_cfg_dma_done_def vmi_monitor_kernel_loaded_def vmi_vm_state_change_def
      Let_def)

lemma vmi_confirmed_stands_down_example:
  "hyp (vmi_react demo_qemu demo_kvm demo_hit (Timer 5000)) = hyp demo_hit"
proof -
  let ?s = "demo_armed\<lparr>bql := True\<rparr>"
  have "arming demo_hit = arming (note_hit demo_kvm 0 0x101000 ?s)"
    by (simp add: demo_hit_run vmi_monitor_breakpoint_hit_parts)
  then have "vmi_first_hit_seen demo_hit"
    using demo_armed_fields(6) note_hit_arming [where K = demo_kvm and cs = 0 and pc = "0x101000" and s = ?s] by (simp add: arming_def)
  then show ?thesis using vmi_confirmed_stands_down [where s = demo_hit and Q = demo_qemu and K = demo_kvm and now = 5000] by blast
qed

section \<open>Arming at boot\<close>

lemma vmi_kernel_loaded_arms:
  assumes "vmi_boot_sync_ok (vmi_monitor_kernel_loaded K cs s)" "\<not> vmi_boot_sync_ok s"
  shows "\<exists>u. hooks u = hooks s \<and> snd (vmi_arm_once K cs ''boot-sync'' u) \<and>
    hyp (vmi_monitor_kernel_loaded K cs s) = hyp (fst (vmi_arm_once K cs ''boot-sync'' u)) \<and>
    vmi_arm_timer (vmi_monitor_kernel_loaded K cs s) = None"
proof -
  let ?m = "vmi_debug ''[boot-sync] FW_CFG_KERNEL_DATA transfer completed'' s"
  let ?b = "vmi_debug (''[boot-sync] BQL held on entry: '' @ (if bql s then ''yes'' else ''no'')) ?m"
  define u where "u = vmi_debug (''[boot-sync] arming breakpoint at '' @ hex0x (vmi_addr s))
    (if bql s then ?b else ?b\<lparr>bql := True\<rparr>)"
  have hk: "hooks u = hooks s" and boot: "vmi_boot_sync_ok u = vmi_boot_sync_ok s" by (simp_all add: u_def)
  have "vmi_enabled s \<and> \<not> vmi_first_hit_seen s"
    using assms by (auto simp: vmi_monitor_kernel_loaded_def split: if_splits)
  then have run: "vmi_monitor_kernel_loaded K cs s =
      (let (s5, ok) = vmi_arm_once K cs ''boot-sync'' u;
           s6 = (if ok then
                   arm_timer_free
                     (report Info_report (''vmi-monitor: boot-sync armed breakpoint at '' @ hex0x (vmi_addr s5) @
                         '' immediately after the fw_cfg kernel-data transfer (no polling needed)'')
                       (vmi_debug ''[boot-sync] guest may resume'' (s5\<lparr>vmi_boot_sync_ok := True\<rparr>)))
                 else
                   report Warn_report (''vmi-monitor: boot-sync arm failed at the fw_cfg hook '' @
                        ''-- falling back to the periodic retry path'')
                     (vmi_debug ''[boot-sync] arm FAILED -- falling back to periodic retry'' s5))
       in if bql s then s6 else s6\<lparr>bql := False\<rparr>)"
    using assms(2) by (simp add: vmi_monitor_kernel_loaded_def Let_def u_def)
  have ok: "snd (vmi_arm_once K cs ''boot-sync'' u)"
  proof (rule ccontr)
    assume "\<not> snd (vmi_arm_once K cs ''boot-sync'' u)"
    then have "vmi_boot_sync_ok (vmi_monitor_kernel_loaded K cs s) = vmi_boot_sync_ok u"
      by (simp add: run Let_def case_prod_beta)
    with assms boot show False by simp
  qed
  then have "hyp (vmi_monitor_kernel_loaded K cs s) = hyp (fst (vmi_arm_once K cs ''boot-sync'' u))"
    by (simp add: run Let_def case_prod_beta)
  moreover have "vmi_arm_timer (vmi_monitor_kernel_loaded K cs s) = None"
    using vmi_monitor_kernel_loaded_arming [of K cs s] assms by (auto simp: arming_def)
  ultimately show ?thesis using hk ok by blast
qed

text \<open>The end of a transfer that makes QEMU call the hook, and a hook that does not stand down.\<close>

definition kernel_transferred :: "fw_dma \<Rightarrow> bool" where
  "kernel_transferred d \<longleftrightarrow> dma_read d \<and> \<not> dma_error d \<and> dma_kernel_data d \<and>
     (\<exists>n. dma_entry_len d = Some n \<and> n \<le> dma_offset d)"

definition boot_pending :: "'k vmi \<Rightarrow> bool" where
  "boot_pending s \<longleftrightarrow> vmi_enabled s \<and> \<not> vmi_boot_sync_ok s \<and> \<not> vmi_first_hit_seen s"

lemma dma_done_cases:
  "fw_cfg_dma_done K cs d s = (if kernel_transferred d \<and> boot_pending s then vmi_monitor_kernel_loaded K cs s else s)"
  by (auto simp: fw_cfg_dma_done_def kernel_transferred_def boot_pending_def vmi_monitor_kernel_loaded_def
      split: option.split)

definition boot_report :: "'k vmi \<Rightarrow> bool \<Rightarrow> report_level \<times> string" where
  "boot_report s ok =
     (if ok then (Info_report, ''vmi-monitor: boot-sync armed breakpoint at '' @ hex0x (vmi_addr s) @
        '' immediately after the fw_cfg kernel-data transfer (no polling needed)'')
      else (Warn_report, ''vmi-monitor: boot-sync arm failed at the fw_cfg hook '' @
        ''-- falling back to the periodic retry path''))"

lemma kernel_loaded_outcome:
  assumes "boot_pending s"
  shows "vmi_reports (vmi_monitor_kernel_loaded K cs s) =
      vmi_reports s @ [boot_report s (vmi_boot_sync_ok (vmi_monitor_kernel_loaded K cs s))]"
    and "\<not> vmi_boot_sync_ok (vmi_monitor_kernel_loaded K cs s) \<Longrightarrow>
      arming (vmi_monitor_kernel_loaded K cs s) = arming s"
proof -
  have "\<not> vmi_boot_sync_ok s" using assms by (simp add: boot_pending_def)
  then show "vmi_reports (vmi_monitor_kernel_loaded K cs s) =
      vmi_reports s @ [boot_report s (vmi_boot_sync_ok (vmi_monitor_kernel_loaded K cs s))]"
    using assms
    by (auto simp: boot_pending_def vmi_monitor_kernel_loaded_def boot_report_def Let_def case_prod_beta arm_timer_free_def
        report_def)
  show "\<not> vmi_boot_sync_ok (vmi_monitor_kernel_loaded K cs s) \<Longrightarrow>
      arming (vmi_monitor_kernel_loaded K cs s) = arming s"
    using vmi_monitor_kernel_loaded_arming [of K cs s] by (auto simp: arming_def)
qed

text \<open>
  C17: the boot-time hook. However it ends, it gives the global lock back as it found it. It
  acts exactly at the end of a transfer of the kernel, while an enabled monitor is still
  waiting for its breakpoint. If it then confirms the breakpoint, every configured hook
  address reads back as \<open>0xcc\<close>, no retry timer is left and it says so; if it does not, timer
  and attempts are as before and it gives its warning.
\<close>

theorem vmi_boot_hook:
  assumes "vmi_reach Q K E s" "kvm_laws K cnt"
  shows "let t = fw_cfg_dma_done K cs d s in
    bql t = bql s \<and>
    (if kernel_transferred d \<and> boot_pending s then
       vmi_reports t = vmi_reports s @ [boot_report s (vmi_boot_sync_ok t)] \<and>
       (if vmi_boot_sync_ok t
        then vmi_arm_timer t = None \<and> (\<forall>a \<in> hook_addrs s. read_byte K cs a (hyp t) = Some 0xcc)
        else arming t = arming s)
     else t = s)"
proof (cases "kernel_transferred d \<and> boot_pending s")
  case False
  then show ?thesis by (auto simp: dma_done_cases Let_def)
next
  case True
  let ?t = "vmi_monitor_kernel_loaded K cs s"
  have s: "vmi_enabled s" "\<not> vmi_boot_sync_ok s" using True by (simp_all add: boot_pending_def)
  have ok: "vmi_arm_timer ?t = None \<and> (\<forall>a \<in> hook_addrs s. read_byte K cs a (hyp ?t) = Some 0xcc)"
    if confirmed: "vmi_boot_sync_ok ?t"
  proof -
    obtain u where u: "hooks u = hooks s" "snd (vmi_arm_once K cs ''boot-sync'' u)"
      "hyp ?t = hyp (fst (vmi_arm_once K cs ''boot-sync'' u))" "vmi_arm_timer ?t = None"
      using vmi_kernel_loaded_arms [OF confirmed s(2)] by blast
    have addrs: "vmi_addr u = vmi_addr s" "vmi_ret_addr u = vmi_ret_addr s"
      using groups_fields(1) [OF u(1)] by simp_all
    have "vmi_ret_addr s \<noteq> vmi_addr s"
      using vmi_reach_inv [OF assms(1)] s(1) by (auto simp: vmi_inv_def disabled_ok_def enabled_ok_def)
    with vmi_arm_once_bytes [OF assms(2) _ u(2)] addrs u(3,4) show ?thesis
      by (auto simp: hook_addrs_def split: if_splits)
  qed
  note outcome = kernel_loaded_outcome [OF conjunct2 [OF True], of K cs]
  show ?thesis
    using True ok outcome by (cases "vmi_boot_sync_ok ?t") (simp_all add: dma_done_cases Let_def)
qed

lemma kernel_loaded_confirms:
  assumes "vmi_enabled s" "\<not> vmi_boot_sync_ok s" "\<not> vmi_first_hit_seen s"
    and arms: "\<And>u. hyp u = hyp s \<Longrightarrow> hooks u = hooks s \<Longrightarrow> snd (vmi_arm_once K cs ''boot-sync'' u)"
  shows "vmi_boot_sync_ok (vmi_monitor_kernel_loaded K cs s)"
  using assms(1-3) by (simp add: vmi_monitor_kernel_loaded_def Let_def case_prod_beta arms arm_timer_free_def)

lemma demo_arms_any:
  assumes "hyp u = hyp demo_boot" "hooks u = hooks demo_boot"
  shows "snd (vmi_arm_once demo_kvm cs tag u)"
proof -
  have addrs: "vmi_addr u = 0x101000" "vmi_ret_addr u = 0x101080"
    using groups_fields(1) [OF assms(2)] demo_boot_fields by simp_all
  let ?s1 = "fst (vmi_arm_addr demo_kvm cs (vmi_addr u) tag u)"
  have none: "demo_bps (hyp u) a = None" for a by (simp add: assms(1) demo_boot_hyp demo_start_def)
  have "vmi_ret_addr ?s1 = 0x101080"
    using groups_fields(1) [OF vmi_arm_addr_frame(1)] addrs(2) by metis
  moreover have "demo_bps (hyp ?s1) 0x101080 = None" using demo_arm_addr(2) [OF none] none by (simp add: addrs)
  ultimately show ?thesis
    using demo_arm_addr(1) [OF none] demo_arm_addr(1) [where s = ?s1 and a = "0x101080" and cs = cs and tag = tag]
    by (simp add: vmi_arm_once_def Let_def case_prod_beta)
qed

definition demo_dma :: fw_dma where
  "demo_dma = \<lparr>dma_read = True, dma_error = False, dma_kernel_data = True, dma_entry_len = Some 4096,
     dma_offset = 4096\<rparr>"

theorem vmi_boot_hook_witness:
  "bql (fw_cfg_dma_done dead_kvm 0 demo_dma demo_boot) = bql demo_boot \<and>
   vmi_arm_timer (fw_cfg_dma_done demo_kvm 0 demo_dma demo_boot) = None \<and>
   read_byte demo_kvm 0 0x101000 (hyp (fw_cfg_dma_done demo_kvm 0 demo_dma demo_boot)) = Some 0xcc \<and>
   read_byte demo_kvm 0 0x101080 (hyp (fw_cfg_dma_done demo_kvm 0 demo_dma demo_boot)) = Some 0xcc"
proof -
  have not: "\<not> vmi_boot_sync_ok demo_boot" "\<not> vmi_first_hit_seen demo_boot"
    using demo_boot_fields(6) by (simp_all add: arming_def)
  have acts: "kernel_transferred demo_dma" "boot_pending demo_boot"
    using not demo_boot_fields(1) by (simp_all add: kernel_transferred_def demo_dma_def boot_pending_def)
  have "vmi_boot_sync_ok (vmi_monitor_kernel_loaded demo_kvm 0 demo_boot)"
    by (rule kernel_loaded_confirms [OF demo_boot_fields(1) not demo_arms_any])
  with vmi_boot_hook [OF demo_reach(1) demo_laws, of 0 demo_dma] acts show ?thesis
    by (simp add: dma_done_cases Let_def hook_addrs_def demo_boot_fields)
qed

section \<open>Behaviours the comments do not describe\<close>

text \<open>
  The fallback that is not there. When the boot hook fails to arm after the retry timer
  has given up (or before it was ever started), it announces the periodic retry path, yet
  no timer is left to retry.
\<close>

lemma vmi_boot_fallback_without_timer:
  assumes "vmi_enabled s" "vmi_arm_timer s = None" "\<not> vmi_first_hit_seen s"
    and "\<not> vmi_boot_sync_ok (vmi_monitor_kernel_loaded K cs s)"
  shows "vmi_arm_timer (vmi_monitor_kernel_loaded K cs s) = None \<and>
    last (vmi_reports (vmi_monitor_kernel_loaded K cs s)) =
      (Warn_report, ''vmi-monitor: boot-sync arm failed at the fw_cfg hook '' @
        ''-- falling back to the periodic retry path'')"
proof
  show "vmi_arm_timer (vmi_monitor_kernel_loaded K cs s) = None"
    using vmi_monitor_kernel_loaded_arming [of K cs s] assms(2) by (auto simp: arming_def)
  have "\<not> vmi_boot_sync_ok s"
    using assms(4) by (auto simp: vmi_monitor_kernel_loaded_def)
  with assms(1,3,4) show "last (vmi_reports (vmi_monitor_kernel_loaded K cs s)) =
      (Warn_report, ''vmi-monitor: boot-sync arm failed at the fw_cfg hook '' @
        ''-- falling back to the periodic retry path'')"
    by (auto simp: vmi_monitor_kernel_loaded_def Let_def case_prod_beta arm_timer_free_def split: if_splits)
qed

lemma arm_dead: "snd (vmi_arm_once dead_kvm cs tag s) = False"
  by (simp add: vmi_arm_once_def vmi_arm_addr_def Let_def case_prod_beta dead_kvm_def)

lemma vmi_boot_fallback_without_timer_example:
  "vmi_arm_timer (vmi_monitor_kernel_loaded dead_kvm 0 demo_boot) = None"
proof -
  have s: "vmi_arm_timer demo_boot = None" "\<not> vmi_first_hit_seen demo_boot" "\<not> vmi_boot_sync_ok demo_boot"
    using demo_boot_fields(6) by (simp_all add: arming_def)
  then have "\<not> vmi_boot_sync_ok (vmi_monitor_kernel_loaded dead_kvm 0 demo_boot)"
    by (simp add: vmi_monitor_kernel_loaded_def Let_def case_prod_beta arm_dead)
  from vmi_boot_fallback_without_timer [OF demo_boot_fields(1) s(1,2) this] show ?thesis by blast
qed

text \<open>
  C22: two vCPUs at one hook. If a second vCPU has trapped at a hook address before the
  monitor has dealt with the first, removing the only breakpoint for the first one's
  step-over makes the second one's trap look foreign: its \<open>int3\<close> is reflected into the
  guest, which never executed one.
\<close>

theorem vmi_second_vcpu_reflected:
  assumes "kvm_laws K cnt" "cnt (ex_pc x) (hyp s) = 1" "\<not> ex_db x"
    and "vmi_monitor_is_hook_addr (ex_pc x) s" "vmi_monitor_get_state c s = VMI_NORMAL"
    and "snd (remove_bp K c (ex_pc x) (hyp s)) = 0"
  shows "snd (kvm_handle_debug Q K tv c x s) = Consumed \<and>
    snd (kvm_handle_debug Q K tv' d x (fst (kvm_handle_debug Q K tv c x s))) = Reflect"
proof -
  let ?s1 = "vmi_monitor_breakpoint_hit K tv c (ex_pc x) s"
  have find: "find_bp K c (ex_pc x) (hyp s)" using assms(2) kvm_lawsD(1) [OF assms(1)] by simp
  have first: "kvm_handle_debug Q K tv c x s = (?s1, Consumed)"
    using assms(3-5) find by (simp add: kvm_handle_debug_def)
  have "hyp (vmi_trap (note_hit K c (ex_pc x) s) t) = hyp s" for t by simp
  then have "hyp ?s1 = single_step K c True (fst (remove_bp K c (ex_pc x) (hyp s)))"
    using assms(6) by (simp add: vmi_monitor_breakpoint_hit_parts begin_step_def case_prod_beta)
  then have "cnt (ex_pc x) (hyp ?s1) = 0"
    using kvm_lawsD(3) [OF assms(1,6)] assms(2) kvm_lawsD(6) [OF assms(1)] by simp
  then have "\<not> find_bp K d (ex_pc x) (hyp ?s1)" using kvm_lawsD(1) [OF assms(1)] by simp
  with assms(3) show ?thesis by (simp add: first) (simp add: kvm_handle_debug_def)
qed

theorem vmi_second_vcpu_reflected_witness:
  "snd (kvm_handle_debug demo_qemu demo_kvm (sample_time 1) 1 (demo_exit False)
     (fst (kvm_handle_debug demo_qemu demo_kvm (sample_time 0) 0 (demo_exit False) demo_armed))) = Reflect"
proof -
  have st: "vmi_monitor_get_state 0 demo_armed = VMI_NORMAL"
    using demo_armed_fields(5) by (simp add: vmi_monitor_get_state_def tables_def)
  have hook: "vmi_monitor_is_hook_addr (ex_pc (demo_exit False)) demo_armed"
    using demo_armed_fields by (simp add: vmi_monitor_is_hook_addr_def demo_exit_def)
  have one: "demo_count (ex_pc (demo_exit False)) (hyp demo_armed) = 1"
    "snd (remove_bp demo_kvm 0 (ex_pc (demo_exit False)) (hyp demo_armed)) = 0"
    by (simp_all add: demo_armed_fields demo_count_def demo_insert_def demo_start_def demo_exit_def
        demo_kvm_def demo_remove_def)
  show ?thesis
    using vmi_second_vcpu_reflected [OF demo_laws one(1) _ hook st one(2), of demo_qemu "sample_time 0" "sample_time 1" 1]
    by (simp add: demo_exit_def)
qed

text \<open>A vCPU at a hook whose breakpoint KVM refuses to remove.\<close>

definition stuck_at :: "'k kvm \<Rightarrow> cpu \<Rightarrow> debug_exit \<Rightarrow> 'k vmi \<Rightarrow> bool" where
  "stuck_at K c x s \<longleftrightarrow> \<not> ex_db x \<and> vmi_monitor_is_hook_addr (ex_pc x) s \<and> vmi_monitor_get_state c s = VMI_NORMAL \<and>
     find_bp K c (ex_pc x) (hyp s) \<and> (\<exists>err. err \<noteq> 0 \<and> remove_bp K c (ex_pc x) (hyp s) = (hyp s, err))"

text \<open>What an entry-only monitor logs for the registers of \<open>s\<close> at a time.\<close>

definition entry_event :: "'k kvm \<Rightarrow> cpu \<Rightarrow> 'k vmi \<Rightarrow> timeval \<Rightarrow> VmiEvent" where
  "entry_event K c s tv = \<lparr>e_rip = vmi_addr s, e_cpu = c, e_num = env_regs (sync_state K c (hyp s)) R_EAX,
     e_argv = vmi_read_args (sync_state K c (hyp s)), e_tv = tv, e_kind = VMI_RET_NONE\<rparr>"

lemma same_capture_run: "same_capture s t \<Longrightarrow> same_capture (foldl vmi_trap s es) (foldl vmi_trap t es)"
  by (induction es arbitrary: s t) (simp_all add: same_capture_trap)

lemma same_capture_trans: "same_capture s t \<Longrightarrow> same_capture t u \<Longrightarrow> same_capture s u"
  by (simp add: same_capture_def)

lemma stuck_step:
  fixes tv :: timeval and Q :: "'k qemu" and K :: "'k kvm"
  assumes "stuck_at K c x s"
  defines "t \<equiv> fst (kvm_handle_debug Q K tv c x s)"
  shows "stuck_at K c x t" "hyp t = hyp s" "hooks t = hooks s"
    "snd (kvm_handle_debug Q K tv c x s) = Consumed"
    "same_capture t (vmi_trap s (hit_trap K tv c (ex_pc x) s))"
proof -
  let ?u = "vmi_trap (note_hit K c (ex_pc x) s) (hit_trap K tv c (ex_pc x) s)"
  from assms(1) obtain err where s: "\<not> ex_db x" "vmi_monitor_is_hook_addr (ex_pc x) s"
    "vmi_monitor_get_state c s = VMI_NORMAL" "find_bp K c (ex_pc x) (hyp s)"
    "err \<noteq> 0" "remove_bp K c (ex_pc x) (hyp s) = (hyp s, err)"
    by (auto simp: stuck_at_def)
  have run: "kvm_handle_debug Q K tv c x s = (vmi_monitor_breakpoint_hit K tv c (ex_pc x) s, Consumed)"
    using s by (simp add: kvm_handle_debug_def)
  then have t: "t = vmi_monitor_breakpoint_hit K tv c (ex_pc x) s" by (simp add: t_def)
  have "hyp ?u = hyp s" by simp
  then show hy: "hyp t = hyp s"
    using s(5,6) by (simp add: t vmi_monitor_breakpoint_hit_parts begin_step_def case_prod_beta)
  have tab: "tables t = tables s"
    using s(5,6) by (simp add: t vmi_monitor_breakpoint_hit_parts begin_step_def case_prod_beta)
  show hk: "hooks t = hooks s" by (simp add: t vmi_monitor_breakpoint_hit_parts)
  show "snd (kvm_handle_debug Q K tv c x s) = Consumed" using run by simp
  have trap: "hooks (vmi_trap s (hit_trap K tv c (ex_pc x) s)) = hooks s" by simp
  show "same_capture t (vmi_trap s (hit_trap K tv c (ex_pc x) s))"
    unfolding same_capture_def using groups_fields(1) [OF hk] groups_fields(1) [OF trap] capture_hit [of K tv c "ex_pc x" s]
    by (simp only: t simp_thms)
  show "stuck_at K c x t"
    using s hy tab groups_fields(1) [OF hk]
    by (auto simp: stuck_at_def vmi_monitor_get_state_def vmi_monitor_is_hook_addr_def tables_def)
qed

lemma stuck_run:
  fixes Q :: "'k qemu" and K :: "'k kvm" and tvs :: "timeval list"
  assumes "stuck_at K c x s"
  defines "run \<equiv> foldl (\<lambda>s tv. fst (kvm_handle_debug Q K tv c x s)) s tvs"
  shows "stuck_at K c x run \<and> hyp run = hyp s \<and> hooks run = hooks s \<and>
    same_capture run (foldl vmi_trap s (map (\<lambda>tv. hit_trap K tv c (ex_pc x) s) tvs))"
  using assms(1) unfolding run_def
proof (induction tvs arbitrary: s)
  case Nil
  then show ?case by (simp add: same_capture_def)
next
  case (Cons tv tvs)
  let ?t = "fst (kvm_handle_debug Q K tv c x s)"
  note step = stuck_step [OF Cons.prems, of Q tv]
  have "hit_trap K tv' c (ex_pc x) ?t = hit_trap K tv' c (ex_pc x) s" for tv'
    using step(2) groups_fields(1) [OF step(3)] by (simp add: hit_trap_def)
  with Cons.IH [OF step(1)] step(2,3) same_capture_run [OF step(5)] show ?case
    by (auto intro: same_capture_trans)
qed

lemma entry_only_run:
  assumes u: "vmi_ret_addr u = 0" and s: "vmi_ret_addr s = 0" "vmi_log_fp s \<noteq> None"
  shows "vmi_log (foldl vmi_trap s (map (\<lambda>tv. hit_trap K tv c pc u) tvs)) = vmi_log s @
    map (\<lambda>tv. \<lparr>e_rip = vmi_addr s, e_cpu = c, e_num = env_regs (sync_state K c (hyp u)) R_EAX,
      e_argv = vmi_read_args (sync_state K c (hyp u)), e_tv = tv, e_kind = VMI_RET_NONE\<rparr>) tvs"
  using s
proof (induction tvs arbitrary: s)
  case (Cons tv tvs)
  let ?t = "vmi_trap s (hit_trap K tv c pc u)"
  have t: "vmi_log ?t = vmi_log s @ [\<lparr>e_rip = vmi_addr s, e_cpu = c, e_num = env_regs (sync_state K c (hyp u)) R_EAX,
      e_argv = vmi_read_args (sync_state K c (hyp u)), e_tv = tv, e_kind = VMI_RET_NONE\<rparr>]"
    "vmi_log_fp ?t \<noteq> None"
    using u Cons.prems
    by (auto simp: hit_trap_def vmi_handle_entry_def vmi_write_event_def vmi_log_def Let_def)
  have "hooks ?t = hooks s" by simp
  then have "vmi_addr ?t = vmi_addr s" "vmi_ret_addr ?t = 0" using groups_fields(1) Cons.prems(1) by metis+
  with Cons.IH [of ?t] t show ?case by simp
qed simp

text \<open>
  C23: a removal that keeps failing. If KVM refuses to remove the breakpoint a vCPU has trapped
  at, the vCPU is sent back to the same \<open>int3\<close> with nothing changed in the hypervisor. However
  often it traps there again, each exit is claimed as a new hit and treated as the same trap:
  the capture becomes what running the trap handler that often on the same registers makes of
  it. In entry-only mode that is one more line per exit, each with the number and the
  arguments of the same call.
\<close>

theorem vmi_failed_removal_repeats:
  assumes "stuck_at K c x s"
  shows "let run = foldl (\<lambda>s tv. fst (kvm_handle_debug Q K tv c x s)) s tvs in
    snd (kvm_handle_debug Q K tv c x run) = Consumed \<and> stuck_at K c x run \<and> hyp run = hyp s \<and>
    capture run = capture (foldl vmi_trap s (map (\<lambda>tv. hit_trap K tv c (ex_pc x) s) tvs)) \<and>
    (vmi_ret_addr s = 0 \<and> vmi_log_fp s \<noteq> None \<longrightarrow> vmi_log run = vmi_log s @ map (entry_event K c s) tvs)"
proof -
  let ?run = "foldl (\<lambda>s tv. fst (kvm_handle_debug Q K tv c x s)) s tvs"
  note run = stuck_run [OF assms, of Q tvs]
  have cap: "capture ?run = capture (foldl vmi_trap s (map (\<lambda>tv. hit_trap K tv c (ex_pc x) s) tvs))"
    using run by (simp add: same_capture_def)
  then have "vmi_log ?run = vmi_log (foldl vmi_trap s (map (\<lambda>tv. hit_trap K tv c (ex_pc x) s) tvs))"
    by (simp add: capture_def vmi_log_def)
  with run cap stuck_step(4) [where K = K and c = c and x = x and s = ?run] entry_only_run [where s = s and u = s] show ?thesis
    by (simp add: Let_def entry_event_def [abs_def])
qed

definition stuck_kvm :: "demo kvm" where
  "stuck_kvm = demo_kvm\<lparr>remove_bp := (\<lambda>cs a h. (h, - 22))\<rparr>"

theorem vmi_failed_removal_repeats_witness:
  "let s = demo_armed\<lparr>vmi_ret_addr := 0\<rparr> in
     vmi_log (foldl (\<lambda>s tv. fst (kvm_handle_debug demo_qemu stuck_kvm tv 0 (demo_exit False) s)) s
       [sample_time 1, sample_time 2]) = [entry_event stuck_kvm 0 s (sample_time 1), entry_event stuck_kvm 0 s (sample_time 2)]"
proof -
  let ?s = "demo_armed\<lparr>vmi_ret_addr := 0\<rparr>"
  have "stuck_at stuck_kvm 0 (demo_exit False) ?s"
    using demo_armed_fields
    by (simp add: stuck_at_def stuck_kvm_def demo_kvm_def demo_exit_def vmi_monitor_get_state_def tables_def
        vmi_monitor_is_hook_addr_def demo_insert_def demo_start_def)
  from vmi_failed_removal_repeats [OF this, of demo_qemu "[sample_time 1, sample_time 2]"]
  show ?thesis using demo_armed_fields(4) by (simp add: Let_def vmi_log_def)
qed

end
