(* ===== verification/Py_Float.thy ===== *)
theory Py_Float
  imports Prelude Complex_Main
begin

text \<open>
  Python's floats as the rational numbers they stand for: rounding to the nearest IEEE
  double (ties to even; no overflow, subnormals or infinities, which no tool here meets)
  and the built-in \<open>round\<close>.
\<close>

text \<open>Python's \<open>round\<close>: to the nearest integer, ties to the even one.\<close>

definition py_round :: "rat \<Rightarrow> int" where
  "py_round x =
     (let f = \<lfloor>x\<rfloor>; d = x - of_int f in
      if d < 1 / 2 then f else if 1 / 2 < d then f + 1 else if even f then f else f + 1)"

text \<open>The binary exponent: \<open>ilog2 n\<close> is the greatest \<open>e\<close> with \<open>2 ^ e \<le> n\<close>.\<close>

function ilog2 :: "int \<Rightarrow> int" where
  "ilog2 n = (if n \<le> 1 then 0 else 1 + ilog2 (n div 2))"
  by pat_completeness auto
termination
  by (relation "measure nat") auto

declare ilog2.simps [simp del]

definition binary_exponent :: "rat \<Rightarrow> int" where
  "binary_exponent x =
     (if 1 \<le> x then ilog2 \<lfloor>x\<rfloor> else - 1 - ilog2 (\<lceil>1 / x\<rceil> - 1))"

definition two_to :: "int \<Rightarrow> rat" where
  "two_to e = (if 0 \<le> e then 2 ^ nat e else 1 / 2 ^ nat (- e))"

definition fl64 :: "rat \<Rightarrow> rat" where
  "fl64 x =
     (if x = 0 then 0
      else let u = two_to (binary_exponent \<bar>x\<bar> - 52) in of_int (py_round (x / u)) * u)"

lemma py_round_of_int [simp]: "py_round (of_int n) = n"
  by (simp add: py_round_def Let_def)

lemma py_round_bounds: "\<bar>of_int (py_round x) - x\<bar> \<le> 1 / 2"
proof -
  have "of_int \<lfloor>x\<rfloor> \<le> x" "x < of_int \<lfloor>x\<rfloor> + 1" by linarith+
  then show ?thesis by (auto simp: py_round_def Let_def abs_le_iff)
qed

lemma two_to_pos [simp]: "0 < two_to e"
  by (simp add: two_to_def)

text \<open>Rounding moves a number by at most half a unit in the last place.\<close>

lemma fl64_error: "\<bar>fl64 x - x\<bar> \<le> two_to (binary_exponent \<bar>x\<bar> - 52) / 2"
proof (cases "x = 0")
  case False
  define u where "u = two_to (binary_exponent \<bar>x\<bar> - 52)"
  have u: "0 < u" by (simp add: u_def)
  have "fl64 x - x = (of_int (py_round (x / u)) - x / u) * u"
    using False u by (simp add: fl64_def Let_def u_def [symmetric] field_simps)
  then have "\<bar>fl64 x - x\<bar> = \<bar>of_int (py_round (x / u)) - x / u\<bar> * u"
    using u by (simp add: abs_mult)
  also have "\<dots> \<le> 1 / 2 * u"
    using py_round_bounds [of "x / u"] u by (intro mult_right_mono) simp_all
  finally show ?thesis by (simp add: u_def)
qed (simp add: fl64_def less_imp_le)

text \<open>Below a power of two the error has a bound that does not depend on the number.\<close>

lemma ilog2_le: "n < 2 ^ Suc k \<Longrightarrow> ilog2 n \<le> int k"
proof (induction k arbitrary: n)
  case 0
  then show ?case by (simp add: ilog2.simps)
next
  case (Suc k)
  then have "n div 2 < 2 ^ Suc k" by simp
  from Suc.IH [OF this] show ?case by (simp add: ilog2.simps [of n])
qed

lemma ilog2_nonneg: "0 \<le> ilog2 n"
  by (induction n rule: ilog2.induct) (subst ilog2.simps, simp)

lemma binary_exponent_le:
  assumes "x < 2 ^ Suc k"
  shows "binary_exponent x \<le> int k"
proof (cases "1 \<le> x")
  case True
  have "\<lfloor>x\<rfloor> < 2 ^ Suc k"
    using assms by (simp add: floor_less_iff)
  with True show ?thesis by (simp only: binary_exponent_def if_True ilog2_le)
next
  case False
  then show ?thesis
    using ilog2_nonneg [of "\<lceil>1 / x\<rceil> - 1"] by (simp add: binary_exponent_def)
qed

lemma two_to_powi: "two_to e = 2 powi e"
  by (simp add: two_to_def power_int_def inverse_eq_divide power_divide)

lemma two_to_mono: "e \<le> e' \<Longrightarrow> two_to e \<le> two_to e'"
  by (simp add: two_to_powi power_int_increasing)

lemma fl64_near:
  assumes "0 \<le> x" "x < 2 ^ Suc k" "k \<le> 52"
  shows "\<bar>fl64 x - x\<bar> \<le> 1 / 2 ^ (53 - k)"
proof -
  have "binary_exponent \<bar>x\<bar> - 52 \<le> int k - 52" using binary_exponent_le [of x k] assms by simp
  then have "two_to (binary_exponent \<bar>x\<bar> - 52) \<le> two_to (int k - 52)" by (rule two_to_mono)
  also have "\<dots> / 2 = 1 / 2 ^ (53 - k)"
  proof (cases "k = 52")
    case False
    with assms(3) have "nat (52 - int k) = 52 - k" "53 - k = Suc (52 - k)" by auto
    with False assms(3) show ?thesis by (simp add: two_to_def)
  qed (simp add: two_to_def)
  finally show ?thesis using fl64_error [of x] by (simp add: order_trans)
qed

lemma fl64_of_int:
  assumes "0 \<le> n" "n < 2 ^ 53"
  shows "fl64 (of_int n) = of_int n"
proof (cases "n = 0")
  case False
  let ?e = "binary_exponent (of_int n) - 52"
  have "(of_int n :: rat) < of_int (2 ^ Suc 52)" using assms(2) by (simp only: of_int_less_iff) simp
  then have "?e \<le> 0" using binary_exponent_le [of "of_int n" 52] by simp
  then have "of_int n / two_to ?e = of_int (n * 2 ^ nat (- ?e))" by (auto simp: two_to_def)
  then have "of_int (py_round (of_int n / two_to ?e)) * two_to ?e = of_int n"
    using \<open>?e \<le> 0\<close> by (simp only: py_round_of_int) (auto simp: two_to_def)
  with False assms(1) show ?thesis by (simp add: fl64_def Let_def)
qed (simp add: fl64_def)

end
