(* ===== verification/Gdb_Monitor.thy ===== *)
theory Gdb_Monitor
  imports Recorder Json Syscall_Table Py_Float
begin

text \<open>
  \<open>monitor.py\<close>, the script that runs inside gdb: its configuration read from the
  environment, the breakpoint class \<open>SyscallBreakpoint\<close> with its log file and event
  counter, and the hook address. Register values are what \<open>int(frame.read_register(r))\<close>
  yields; clock readings are inputs of a hit.
\<close>

section \<open>Configuration\<close>

text \<open>\<open>_parse_nr_set\<close>: \<open>None\<close> is an unset variable (\<open>os.environ.get(_, "")\<close>).\<close>

definition parse_nr_set :: "string option \<Rightarrow> int set option result" where
  "parse_nr_set v =
     (let raw = (case v of None \<Rightarrow> [] | Some s \<Rightarrow> s) in
      if py_strip raw = [] then Inr None
      else bind_result
        (map_result (py_int 10) (filter (\<lambda>x. py_strip x \<noteq> []) (split_on (CHR '','') raw)))
        (\<lambda>xs. Inr (Some (set xs))))"

record gdb_config =
  include_nrs :: "int set option"
  exclude_nrs :: "int set"
  max_events :: "int option"

text \<open>The three module-level settings, in the order the module evaluates them.\<close>

definition load_config :: "string option \<Rightarrow> string option \<Rightarrow> string option \<Rightarrow> gdb_config result" where
  "load_config inc exc mx =
     bind_result (parse_nr_set inc) (\<lambda>i.
     bind_result (parse_nr_set exc) (\<lambda>e.
     bind_result
       (case mx of None \<Rightarrow> Inr None
        | Some s \<Rightarrow> if s = [] then Inr None else bind_result (py_int 10 s) (\<lambda>n. Inr (Some n)))
       (\<lambda>m. Inr \<lparr>include_nrs = i, exclude_nrs = (case e of None \<Rightarrow> {} | Some x \<Rightarrow> x), max_events = m\<rparr>)))"

section \<open>The breakpoint\<close>

record gdb_monitor =
  gm_log :: "string list"
  gm_log_open :: bool
  gm_out :: "string list"
  gm_count :: nat
  gm_detached :: bool

text \<open>\<open>__init__\<close>: the log is opened for appending, so it starts with the lines it has.\<close>

definition gdb_init :: "string \<Rightarrow> string list \<Rightarrow> gdb_monitor" where
  "gdb_init log_path old =
     \<lparr>gm_log = old, gm_log_open = True, gm_out = [''[monitor.py] logging to '' @ log_path],
      gm_count = 0, gm_detached = False\<rparr>"

text \<open>One hit: the registers, \<open>time.time()\<close> as a decimal and two \<open>perf_counter\<close> readings.\<close>

record hit =
  h_reg :: "string \<Rightarrow> int"
  h_ts :: "int \<times> nat"
  h_enter :: rat
  h_exit :: rat

definition arg_regs :: "string list" where
  "arg_regs = [''rdi'', ''rsi'', ''rdx'', ''r10'', ''r8'', ''r9'']"

definition filtered :: "gdb_config \<Rightarrow> int \<Rightarrow> bool" where
  "filtered cfg rax \<longleftrightarrow>
     (case include_nrs cfg of None \<Rightarrow> False | Some s \<Rightarrow> rax \<notin> s) \<or> rax \<in> exclude_nrs cfg"

definition gdb_event :: "hit \<Rightarrow> json" where
  "gdb_event h =
     (let rax = h_reg h ''rax''; (name, argc) = describe py_table_get py_str_int rax;
          args = map (h_reg h) (take argc arg_regs)
      in JObj [(''ts'', JDec (fst (h_ts h)) (snd (h_ts h))), (''num'', JInt rax),
               (''syscall'', JStr name), (''args'', JArr (map (\<lambda>a. JStr (py_hex a)) args)),
               (''handler_latency_ns'', JInt (py_round (fl64 (fl64 (h_exit h - h_enter h) * 10 ^ 9))))])"

definition newline :: string where
  "newline = [CHR 0x0A]"

text \<open>
  \<open>stop\<close>: the value returned to gdb (\<open>True\<close> would stop the inferior) and the
  new state. Writing to the closed log raises \<open>ValueError\<close>. Once the limit is reached
  the log is closed and gdb is told to detach and quit.
\<close>

definition stop :: "gdb_config \<Rightarrow> hit \<Rightarrow> gdb_monitor \<Rightarrow> (bool \<times> gdb_monitor) result" where
  "stop cfg h s =
     (if filtered cfg (h_reg h ''rax'') then Inr (False, s)
      else if \<not> gm_log_open s then Inl ValueError
      else
        (let line = json_dumps (gdb_event h);
             s1 = s\<lparr>gm_log := gm_log s @ [line @ newline],
                    gm_out := gm_out s @ [''[monitor.py] '' @ line],
                    gm_count := Suc (gm_count s)\<rparr>;
             limit = (case max_events cfg of None \<Rightarrow> False | Some m \<Rightarrow> m \<le> int (gm_count s1))
         in Inr (False,
              if limit then
                s1\<lparr>gm_out := gm_out s1 @ [''[monitor.py] reached VMI_MAX_EVENTS='' @
                       py_str_int (the (max_events cfg)) @ '', detaching''],
                   gm_log_open := False, gm_detached := True\<rparr>
              else s1)))"

text \<open>
  \<open>_resolve_hook_address\<close>: the argument is gdb's error message when
  \<open>gdb.decode_line\<close> raises; the result is the location and what is printed.
\<close>

definition resolve_hook_address :: "string option \<Rightarrow> string \<times> string list" where
  "resolve_hook_address err =
     (case err of
        None \<Rightarrow> (''*_ukplat_syscall'', [])
      | Some e \<Rightarrow> (''*'' @ py_hex 0x101000,
          [''[monitor.py] WARNING: could not resolve _ukplat_syscall symbol ('' @ e @
           ''), falling back to hardcoded address '' @ py_hex 0x101000 @
           ''. This address is only valid for the exact build this was checked against '' @
           ''-- verify it before trusting captured data.'']))"

text \<open>
  A session: gdb calls \<open>stop\<close> on every hit until it has been told to detach.
\<close>

definition gdb_hit :: "gdb_config \<Rightarrow> gdb_monitor \<Rightarrow> hit \<Rightarrow> gdb_monitor" where
  "gdb_hit cfg s h =
     (if gm_detached s then s
      else case stop cfg h s of Inl _ \<Rightarrow> s | Inr (_, s') \<Rightarrow> s')"

section \<open>Correctness of a session\<close>

definition event_line :: "hit \<Rightarrow> string" where
  "event_line h = json_dumps (gdb_event h) @ newline"

text \<open>How many events a session may still log when it has logged \<open>c\<close>.\<close>

definition room :: "gdb_config \<Rightarrow> nat \<Rightarrow> 'a list \<Rightarrow> 'a list" where
  "room cfg c xs = (case max_events cfg of None \<Rightarrow> xs | Some m \<Rightarrow> take (nat (max 1 m) - c) xs)"

text \<open>The invariant: the counter counts the lines, and the log is open exactly while attached.\<close>

definition gdb_inv :: "gdb_config \<Rightarrow> nat \<Rightarrow> gdb_monitor \<Rightarrow> bool" where
  "gdb_inv cfg n0 s \<longleftrightarrow>
     gm_detached s = (\<not> gm_log_open s) \<and> length (gm_log s) = n0 + gm_count s \<and>
     (case max_events cfg of None \<Rightarrow> \<not> gm_detached s
      | Some m \<Rightarrow> if gm_detached s then gm_count s = nat (max 1 m) else gm_count s < nat (max 1 m))"

lemma gdb_inv_init: "gdb_inv cfg (length old) (gdb_init p old)"
  by (simp add: gdb_inv_def gdb_init_def less_max_iff_disj split: option.splits)

lemma stop_attached:
  assumes "gm_log_open s"
  shows "\<exists>s'. stop cfg h s = Inr (False, s')"
  using assms by (simp add: stop_def Let_def)

lemma gdb_hit_log:
  assumes "gdb_inv cfg n0 s"
  shows "gm_log (gdb_hit cfg s h) =
    gm_log s @ (if gm_detached s \<or> filtered cfg (h_reg h ''rax'') then [] else [event_line h])"
  using assms by (simp add: gdb_hit_def gdb_inv_def stop_def event_line_def Let_def)

lemma gdb_hit_inv:
  assumes "gdb_inv cfg n0 s"
  shows "gdb_inv cfg n0 (gdb_hit cfg s h)"
proof (cases "gm_detached s \<or> filtered cfg (h_reg h ''rax'')")
  case True
  with assms show ?thesis by (auto simp: gdb_hit_def stop_def)
next
  case False
  with assms show ?thesis
    by (auto simp: gdb_hit_def gdb_inv_def stop_def Let_def split: option.splits)
qed

interpretation gdb: bounded_recorder "gdb_hit cfg" gm_log "gdb_inv cfg n0" 1
  by unfold_locales (simp_all add: gdb_hit_inv gdb_hit_log)

lemma gdb_detached_run: "gm_detached s \<Longrightarrow> foldl (gdb_hit cfg) s hs = s"
  by (induction hs) (simp_all add: gdb_hit_def)

lemma gdb_hit_count:
  "gdb_inv cfg n0 s \<Longrightarrow> gm_count (gdb_hit cfg s h) =
    gm_count s + (if gm_detached s \<or> filtered cfg (h_reg h ''rax'') then 0 else 1)"
  by (simp add: gdb_hit_def gdb_inv_def stop_def Let_def)

lemma room_Cons:
  assumes "gdb_inv cfg n0 s" "\<not> gm_detached s"
  shows "room cfg (gm_count s) (x # xs) = x # room cfg (Suc (gm_count s)) xs"
  using assms
  by (auto simp: room_def gdb_inv_def take_Cons' simp flip: diff_Suc_eq_diff_pred split: option.splits)

lemma room_detached:
  "gdb_inv cfg n0 s \<Longrightarrow> gm_detached s \<Longrightarrow> room cfg (gm_count s) xs = []"
  by (auto simp: room_def gdb_inv_def split: option.splits)

lemma gdb_run_log:
  "gdb_inv cfg n0 s \<Longrightarrow> gm_log (foldl (gdb_hit cfg) s hs) =
    gm_log s @ map event_line
      (room cfg (gm_count s) (filter (\<lambda>h. \<not> filtered cfg (h_reg h ''rax'')) hs))"
proof (induction hs arbitrary: s)
  case Nil
  then show ?case by (simp add: room_def split: option.splits)
next
  case (Cons h hs)
  note IH = Cons.IH [OF gdb_hit_inv [OF Cons.prems]]
  show ?case
  proof (cases "gm_detached s")
    case True
    then show ?thesis
      using Cons.prems by (simp add: gdb_detached_run [of s cfg "h # hs"] room_detached del: foldl_Cons)
  next
    case False
    with Cons.prems IH show ?thesis
      by (simp add: gdb_hit_log gdb_hit_count room_Cons)
  qed
qed

section \<open>The properties\<close>

text \<open>
  C20: The capture log of a gdb session. Starting from the breakpoint's construction on a
  file with lines \<open>old\<close>, any sequence of hits leaves exactly the old lines followed by
  one rendered event per hit that passes the include and exclude filters, in order, cut
  after \<open>max 1 VMI_MAX_EVENTS\<close> events when a limit is set.
\<close>

theorem gdb_session_log:
  "gm_log (foldl (gdb_hit cfg) (gdb_init p old) hs) =
     old @ map event_line (room cfg 0 (filter (\<lambda>h. \<not> filtered cfg (h_reg h ''rax'')) hs))"
proof -
  have "gm_log (gdb_init p old) = old" "gm_count (gdb_init p old) = 0"
    by (simp_all add: gdb_init_def)
  with gdb_run_log [OF gdb_inv_init [of cfg old p], of hs] show ?thesis by simp
qed

text \<open>
  The breakpoint never freezes the guest: at any point of a session that is still
  attached, \<open>stop\<close> neither raises nor returns \<open>True\<close>.
\<close>

lemma gdb_never_freezes:
  assumes "\<not> gm_detached (foldl (gdb_hit cfg) (gdb_init p old) hs)"
  shows "\<exists>s'. stop cfg h (foldl (gdb_hit cfg) (gdb_init p old) hs) = Inr (False, s')"
proof (rule stop_attached)
  show "gm_log_open (foldl (gdb_hit cfg) (gdb_init p old) hs)"
    using gdb.run_inv [OF gdb_inv_init [of cfg old p], of hs] assms by (simp add: gdb_inv_def)
qed

definition any_config :: gdb_config where
  "any_config = \<lparr>include_nrs = None, exclude_nrs = {}, max_events = None\<rparr>"

definition sample_hit :: hit where
  "sample_hit = \<lparr>h_reg = (\<lambda>_. 1), h_ts = (1700000000, 1), h_enter = 0, h_exit = 1 / 1000\<rparr>"

lemma gdb_never_freezes_example:
  "\<exists>s'. stop any_config sample_hit (foldl (gdb_hit any_config) (gdb_init ''log'' []) [sample_hit]) = Inr (False, s')"
  by (rule gdb_never_freezes) (simp add: gdb_init_def gdb_hit_def stop_def Let_def any_config_def)

text \<open>
  C21: The event limit. After any number of hits the counter equals the number of lines
  appended, never exceeds \<open>max 1 VMI_MAX_EVENTS\<close>, and gdb has been told to detach
  exactly when that many events are logged.
\<close>

theorem gdb_event_limit:
  assumes "max_events cfg = Some m"
  shows "let s = foldl (gdb_hit cfg) (gdb_init p old) hs in
    gm_count s = length (gm_log s) - length old \<and> gm_count s \<le> nat (max 1 m) \<and>
    (gm_detached s \<longleftrightarrow> gm_count s = nat (max 1 m))"
  using gdb.run_inv [OF gdb_inv_init [of cfg old p], of hs] assms
  by (auto simp: gdb_inv_def Let_def)

theorem gdb_event_limit_witness:
  "let s = foldl (gdb_hit (any_config\<lparr>max_events := Some 2\<rparr>)) (gdb_init ''log'' []) [] in
    gm_count s = length (gm_log s) - length ([] :: string list) \<and> gm_count s \<le> nat (max 1 2) \<and>
    (gm_detached s \<longleftrightarrow> gm_count s = nat (max 1 2))"
  by (rule gdb_event_limit) (simp add: any_config_def)

lemma comma_not_in_str_int: "CHR '','' \<notin> set (py_str_int i)"
proof
  assume "CHR '','' \<in> set (py_str_int i)"
  with py_str_int_name_char [of i] have "name_char (CHR '','')" by (auto simp: list_all_iff)
  then show False by (simp add: name_char_def)
qed

lemma py_strip_str_int: "py_strip (py_str_int i) = py_str_int i" "py_str_int i \<noteq> []"
proof -
  show ne: "py_str_int i \<noteq> []" by (simp add: py_str_int_def)
  have "\<not> py_space c" if "name_char c" for c
    using that by (auto simp: name_char_def py_space_def Let_def)
  then have "\<forall>c \<in> set (py_str_int i). \<not> py_space c"
    using py_str_int_name_char [of i] by (auto simp: list_all_iff)
  with ne show "py_strip (py_str_int i) = py_str_int i"
    by (intro py_strip_id) simp_all
qed

lemma join_numbers:
  assumes "ns \<noteq> []"
  shows "split_on (CHR '','') (join '','' (map py_str_int ns)) = map py_str_int ns"
    and "py_strip (join '','' (map py_str_int ns)) \<noteq> []"
proof -
  show "split_on (CHR '','') (join '','' (map py_str_int ns)) = map py_str_int ns"
    using assms comma_not_in_str_int by (intro split_on_join) auto
  obtain n ms where ns: "ns = n # ms" using assms by (cases ns) auto
  obtain c cs where c: "py_str_int n = c # cs" using py_strip_str_int(2) by (cases "py_str_int n") auto
  have "name_char c" using py_str_int_name_char [of n] by (simp add: c)
  then have "\<not> py_space c" by (auto simp: name_char_def py_space_def Let_def)
  moreover have "\<exists>ds. join '','' (map py_str_int ns) = c # ds"
    by (cases ms) (simp_all add: ns c)
  ultimately show "py_strip (join '','' (map py_str_int ns)) \<noteq> []"
    by (auto simp: py_strip_def dropWhile_eq_Nil_conv)
qed

text \<open>
  The filter variables round-trip: a comma-separated list of decimal syscall numbers is read
  as exactly that set of numbers.
\<close>

lemma parse_numbers:
  assumes "ns \<noteq> []"
  shows "parse_nr_set (Some (join '','' (map py_str_int ns))) = Inr (Some (set ns))"
proof -
  have "filter (\<lambda>x. py_strip x \<noteq> []) (map py_str_int ns) = map py_str_int ns"
    by (simp add: filter_id_conv py_strip_str_int)
  moreover have "map_result (py_int 10) (map py_str_int ns) = Inr ns"
    by (induction ns) (simp_all add: py_int_str)
  ultimately show ?thesis
    using join_numbers [OF assms] by (simp add: parse_nr_set_def)
qed

end
