(* ===== verification/Py_IO.thy ===== *)
theory Py_IO
  imports Py_Text Complex_Main
begin

text \<open>
  How the Python tools act on the world. Every call that leaves the process (a subprocess,
  a socket, the file system, the clock, the terminal, a sleep) is an action; a run is the
  list of actions performed, oldest first. The world is an argument: what each action
  answers may depend on everything done before it. \<open>None\<close> stands for a run that does
  not come back.
\<close>

section \<open>Actions and worlds\<close>

datatype action =
    Run "string list" "string option" "(string \<Rightarrow> string option) option"
  | Sleep rat
  | Print string
  | Print_err string
  | Monotonic
  | Perf_counter
  | Exists string
  | Is_file string
  | Read_text string
  | Write_text string string
  | Unlink string
  | Mkdir string
  | Listdir string
  | Bind nat
  | Sock_connect string
  | Sock_send string
  | Sock_recv
  | Sock_close
  | Popen "string list" "string option" "(string \<Rightarrow> string option) option"
  | Proc_poll nat
  | Proc_sigint nat
  | Proc_write nat string
  | Proc_flush nat
  | Proc_wait nat "rat option"
  | Proc_terminate nat
  | Proc_drain nat
  | Open_append string
  | Gdb_decode string
  | Gdb_break string

type_synonym trace = "action list"

text \<open>
  A child process is named by the position of its \<open>Popen\<close> in the run.
  \<open>Read_text\<close> yields decoded text with universal newlines; \<open>Bind\<close> is the attempt
  to bind a fresh socket to that port of 127.0.0.1, which is closed again; \<open>Proc_poll\<close>
  is answered by whether the process still runs; \<open>Proc_drain\<close> joins the thread that
  relays its output and yields the text it collected. \<open>Gdb_decode\<close> and \<open>Gdb_break\<close> are
  the calls of the script inside gdb into gdb.

  The answers: of an action without a value, of \<open>subprocess.run\<close> (exit status and
  standard output), of actions that yield text, a truth value, a list of names or a time.
  An exception is an answer too. Fixed for a run are the environment variables,
  \<open>Path.resolve\<close> and the directories \<open>HERE\<close>, \<open>PROJECT_DIR\<close> and \<open>Path.home()\<close>.
\<close>

record world =
  w_unit :: "trace \<Rightarrow> unit result"
  w_run :: "trace \<Rightarrow> (int \<times> string) result"
  w_text :: "trace \<Rightarrow> string result"
  w_bool :: "trace \<Rightarrow> bool result"
  w_names :: "trace \<Rightarrow> string list result"
  w_time :: "trace \<Rightarrow> rat"
  w_environ :: "string \<Rightarrow> string option"
  w_resolve :: "string \<Rightarrow> string"
  w_here :: string
  w_project :: string
  w_home :: string

section \<open>Programs\<close>

type_synonym 'a io = "world \<Rightarrow> trace \<Rightarrow> ('a result \<times> trace) option"

definition io_return :: "'a \<Rightarrow> 'a io" where
  "io_return x = (\<lambda>w h. Some (Inr x, h))"

definition io_raise :: "py_exn \<Rightarrow> 'a io" where
  "io_raise e = (\<lambda>w h. Some (Inl e, h))"

definition io_bind :: "'a io \<Rightarrow> ('a \<Rightarrow> 'b io) \<Rightarrow> 'b io" where
  "io_bind m f = (\<lambda>w h. case m w h of
     None \<Rightarrow> None | Some (Inl e, h') \<Rightarrow> Some (Inl e, h') | Some (Inr x, h') \<Rightarrow> f x w h')"

text \<open>\<open>try\<close>/\<open>except\<close>: the handler decides which exceptions it re-raises; and \<open>try\<close>/\<open>finally\<close>.\<close>

definition io_catch :: "'a io \<Rightarrow> (py_exn \<Rightarrow> 'a io) \<Rightarrow> 'a io" where
  "io_catch m c = (\<lambda>w h. case m w h of
     None \<Rightarrow> None | Some (Inl e, h') \<Rightarrow> c e w h' | Some (Inr x, h') \<Rightarrow> Some (Inr x, h'))"

definition io_finally :: "'a io \<Rightarrow> unit io \<Rightarrow> 'a io" where
  "io_finally m f = (\<lambda>w h. case m w h of
     None \<Rightarrow> None
   | Some (r, h') \<Rightarrow> (case f w h' of
       None \<Rightarrow> None | Some (Inl e, h'') \<Rightarrow> Some (Inl e, h'') | Some (Inr _, h'') \<Rightarrow> Some (r, h'')))"

definition io_lift :: "'a result \<Rightarrow> 'a io" where
  "io_lift r = (\<lambda>w h. Some (r, h))"

definition io_then :: "unit io \<Rightarrow> 'b io \<Rightarrow> 'b io" where
  "io_then m k = io_bind m (\<lambda>_. k)"

definition io_when :: "bool \<Rightarrow> unit io \<Rightarrow> unit io" where
  "io_when b m = (if b then m else io_return ())"

definition act :: "action \<Rightarrow> unit io" where
  "act a = (\<lambda>w h. Some (w_unit w (h @ [a]), h @ [a]))"

definition act_text :: "action \<Rightarrow> string io" where
  "act_text a = (\<lambda>w h. Some (w_text w (h @ [a]), h @ [a]))"

definition act_bool :: "action \<Rightarrow> bool io" where
  "act_bool a = (\<lambda>w h. Some (w_bool w (h @ [a]), h @ [a]))"

definition act_names :: "action \<Rightarrow> string list io" where
  "act_names a = (\<lambda>w h. Some (w_names w (h @ [a]), h @ [a]))"

definition act_time :: "action \<Rightarrow> rat io" where
  "act_time a = (\<lambda>w h. Some (Inr (w_time w (h @ [a])), h @ [a]))"

definition get_environ :: "(string \<Rightarrow> string option) io" where
  "get_environ = (\<lambda>w h. Some (Inr (w_environ w), h))"

definition get_project :: "string io" where
  "get_project = (\<lambda>w h. Some (Inr (w_project w), h))"

definition get_here :: "string io" where
  "get_here = (\<lambda>w h. Some (Inr (w_here w), h))"

definition get_home :: "string io" where
  "get_home = (\<lambda>w h. Some (Inr (w_home w), h))"

definition get_resolved :: "string \<Rightarrow> string io" where
  "get_resolved p = (\<lambda>w h. Some (Inr (w_resolve w p), h))"

text \<open>\<open>subprocess.Popen\<close>: the process is known by its position in the run.\<close>

definition popen :: "string list \<Rightarrow> string option \<Rightarrow> (string \<Rightarrow> string option) option \<Rightarrow> nat io" where
  "popen argv cwd env = (\<lambda>w h.
     (let h' = h @ [Popen argv cwd env] in
      case w_unit w h' of Inl e \<Rightarrow> Some (Inl e, h') | Inr _ \<Rightarrow> Some (Inr (length h), h')))"

text \<open>
  \<open>print\<close> raises what writing to the terminal raises (\<open>BrokenPipeError\<close> when its
  reader is gone) or \<open>KeyboardInterrupt\<close>. A subprocess raises what starting or waiting
  for it raises, and \<open>CalledProcessError\<close> under \<open>check=True\<close> when its exit status is
  not 0.
\<close>

definition py_print :: "string \<Rightarrow> unit io" where
  "py_print s = act (Print s)"

definition py_print_err :: "string \<Rightarrow> unit io" where
  "py_print_err s = act (Print_err s)"

definition subprocess_run ::
    "bool \<Rightarrow> string list \<Rightarrow> string option \<Rightarrow> (string \<Rightarrow> string option) option \<Rightarrow> string io" where
  "subprocess_run check argv cwd env = (\<lambda>w h.
     (let h' = h @ [Run argv cwd env] in
      case w_run w h' of
        Inl e \<Rightarrow> Some (Inl e, h')
      | Inr (rc, out) \<Rightarrow> if check \<and> rc \<noteq> 0 then Some (Inl CalledProcessError, h') else Some (Inr out, h')))"

lemmas io_defs = io_return_def io_raise_def io_bind_def io_catch_def io_finally_def io_lift_def
  io_then_def io_when_def act_def act_text_def act_bool_def act_names_def act_time_def get_environ_def
  py_print_def py_print_err_def subprocess_run_def get_project_def get_here_def get_home_def get_resolved_def popen_def

text \<open>The subclasses of \<open>OSError\<close>, which \<open>except OSError\<close> catches.\<close>

definition is_os_error :: "py_exn \<Rightarrow> bool" where
  "is_os_error e = (case e of OSError \<Rightarrow> True | BrokenPipeError \<Rightarrow> True | FileNotFoundError \<Rightarrow> True
     | ConnectionRefusedError \<Rightarrow> True | TimeoutError _ \<Rightarrow> True | _ \<Rightarrow> False)"

section \<open>What a program may do\<close>

text \<open>
  \<open>io_only P m\<close>: whatever the world answers and however \<open>m\<close> ends, every action it
  performs satisfies \<open>P\<close>, and the actions done before it stay as they are.
\<close>

definition io_only :: "(action \<Rightarrow> bool) \<Rightarrow> 'a io \<Rightarrow> bool" where
  "io_only P m \<longleftrightarrow> (\<forall>w h r h'. m w h = Some (r, h') \<longrightarrow> (\<exists>as. h' = h @ as \<and> list_all P as))"

named_theorems io_rules \<open>what composed programs may do\<close>

lemma io_onlyD: "io_only P m \<Longrightarrow> m w h = Some (r, h') \<Longrightarrow> \<exists>as. h' = h @ as \<and> list_all P as"
  by (simp add: io_only_def)

lemma io_only_leaf [io_rules]:
  "io_only P (io_return x)" "io_only P (io_raise e)" "io_only P (io_lift r)" "io_only P get_environ"
  "io_only P get_project" "io_only P get_here" "io_only P get_home" "io_only P (get_resolved p)"
  by (simp_all add: io_only_def io_defs)

lemma io_only_act [io_rules]:
  "P a \<Longrightarrow> io_only P (act a)" "P a \<Longrightarrow> io_only P (act_text a)" "P a \<Longrightarrow> io_only P (act_bool a)"
  "P a \<Longrightarrow> io_only P (act_names a)" "P a \<Longrightarrow> io_only P (act_time a)"
  "P (Print s) \<Longrightarrow> io_only P (py_print s)" "P (Print_err s) \<Longrightarrow> io_only P (py_print_err s)"
  "P (Run argv cwd env) \<Longrightarrow> io_only P (subprocess_run check argv cwd env)"
  "P (Popen argv cwd env) \<Longrightarrow> io_only P (popen argv cwd env)"
  by (auto simp: io_only_def io_defs Let_def split: sum.splits if_splits)

lemma io_only_bind [io_rules]:
  assumes "io_only P m" "\<And>x. io_only P (f x)"
  shows "io_only P (io_bind m f)"
  unfolding io_only_def
proof (intro allI impI)
  fix w h r h'
  assume run: "io_bind m f w h = Some (r, h')"
  then obtain r1 h1 where m: "m w h = Some (r1, h1)" by (auto simp: io_bind_def split: option.splits)
  with assms(1) obtain as where as: "h1 = h @ as" "list_all P as" by (auto dest: io_onlyD)
  show "\<exists>as. h' = h @ as \<and> list_all P as"
  proof (cases r1)
    case (Inl e)
    with run m as show ?thesis by (auto simp: io_bind_def)
  next
    case (Inr x)
    with run m have "f x w h1 = Some (r, h')" by (simp add: io_bind_def)
    with assms(2) [of x] obtain bs where "h' = h1 @ bs" "list_all P bs" by (auto dest: io_onlyD)
    with as show ?thesis by (intro exI [of _ "as @ bs"]) simp
  qed
qed

lemma io_only_catch [io_rules]:
  assumes "io_only P m" "\<And>e. io_only P (c e)"
  shows "io_only P (io_catch m c)"
  unfolding io_only_def
proof (intro allI impI)
  fix w h r h'
  assume run: "io_catch m c w h = Some (r, h')"
  then obtain r1 h1 where m: "m w h = Some (r1, h1)" by (auto simp: io_catch_def split: option.splits)
  with assms(1) obtain as where as: "h1 = h @ as" "list_all P as" by (auto dest: io_onlyD)
  show "\<exists>as. h' = h @ as \<and> list_all P as"
  proof (cases r1)
    case (Inl e)
    with run m have "c e w h1 = Some (r, h')" by (simp add: io_catch_def)
    with assms(2) [of e] obtain bs where "h' = h1 @ bs" "list_all P bs" by (auto dest: io_onlyD)
    with as show ?thesis by (intro exI [of _ "as @ bs"]) simp
  next
    case (Inr x)
    with run m as show ?thesis by (auto simp: io_catch_def)
  qed
qed

lemma io_finally_Some:
  assumes "io_finally m f w h = Some (r, h')"
  obtains r1 h1 r2 where "m w h = Some (r1, h1)" "f w h1 = Some (r2, h')"
    "r = (case r2 of Inl e \<Rightarrow> Inl e | Inr _ \<Rightarrow> r1)"
  using assms by (auto simp: io_finally_def split: option.splits sum.splits)

lemma io_only_finally [io_rules]:
  assumes "io_only P m" "io_only P f"
  shows "io_only P (io_finally m f)"
  unfolding io_only_def
proof (intro allI impI)
  fix w h r h'
  assume "io_finally m f w h = Some (r, h')"
  then obtain r1 h1 r2 where "m w h = Some (r1, h1)" "f w h1 = Some (r2, h')" by (rule io_finally_Some)
  with assms obtain as bs where "h1 = h @ as" "list_all P as" "h' = h1 @ bs" "list_all P bs"
    by (metis io_onlyD)
  then show "\<exists>as. h' = h @ as \<and> list_all P as" by (intro exI [of _ "as @ bs"]) simp
qed

lemma io_only_then [io_rules]: "io_only P m \<Longrightarrow> io_only P k \<Longrightarrow> io_only P (io_then m k)"
  by (simp add: io_then_def io_only_bind)

lemma io_only_when [io_rules]: "(b \<Longrightarrow> io_only P m) \<Longrightarrow> io_only P (io_when b m)"
  by (simp add: io_when_def io_only_leaf)

lemma io_only_if [io_rules]: "(b \<Longrightarrow> io_only P m) \<Longrightarrow> (\<not> b \<Longrightarrow> io_only P n) \<Longrightarrow> io_only P (if b then m else n)"
  by simp

lemma io_only_option [io_rules]:
  "(x = None \<Longrightarrow> io_only P m) \<Longrightarrow> (\<And>y. x = Some y \<Longrightarrow> io_only P (f y)) \<Longrightarrow>
   io_only P (case x of None \<Rightarrow> m | Some y \<Rightarrow> f y)"
  by (cases x) simp_all

lemma io_only_mono: "io_only P m \<Longrightarrow> (\<And>a. P a \<Longrightarrow> Q a) \<Longrightarrow> io_only Q m"
  unfolding io_only_def by (metis list.pred_mono_strong)

section \<open>Sequencing facts\<close>

lemma io_bind_Some:
  "io_bind m f w h = Some (r, h') \<longleftrightarrow>
     (\<exists>e. m w h = Some (Inl e, h') \<and> r = Inl e) \<or> (\<exists>x h1. m w h = Some (Inr x, h1) \<and> f x w h1 = Some (r, h'))"
  by (auto simp: io_bind_def split: option.splits sum.splits)

lemma io_then_Some:
  "io_then m k w h = Some (r, h') \<longleftrightarrow>
     (\<exists>e. m w h = Some (Inl e, h') \<and> r = Inl e) \<or> (\<exists>h1. m w h = Some (Inr (), h1) \<and> k w h1 = Some (r, h'))"
  by (simp add: io_then_def io_bind_Some)

text \<open>A list of actions in a row, and a program for each element of a list.\<close>

fun io_seq :: "unit io list \<Rightarrow> unit io" where
  "io_seq [] = io_return ()"
| "io_seq (m # ms) = io_then m (io_seq ms)"

lemma io_only_seq [io_rules]: "(\<And>m. m \<in> set ms \<Longrightarrow> io_only P m) \<Longrightarrow> io_only P (io_seq ms)"
  by (induction ms) (auto intro: io_rules)

fun io_map :: "('a \<Rightarrow> 'b io) \<Rightarrow> 'a list \<Rightarrow> 'b list io" where
  "io_map f [] = io_return []"
| "io_map f (x # xs) = io_bind (f x) (\<lambda>y. io_bind (io_map f xs) (\<lambda>ys. io_return (y # ys)))"

lemma io_only_map [io_rules]: "(\<And>x. io_only P (f x)) \<Longrightarrow> io_only P (io_map f xs)"
  by (induction xs) (auto intro: io_rules)

text \<open>A terminal that takes whatever is printed.\<close>

definition prints_succeed :: "world \<Rightarrow> bool" where
  "prints_succeed w \<longleftrightarrow> (\<forall>h s. w_unit w (h @ [Print s]) = Inr ())"

lemma py_print_ok: "prints_succeed w \<Longrightarrow> py_print s w h = Some (Inr (), h @ [Print s])"
  by (simp add: prints_succeed_def py_print_def act_def)

text \<open>A run that ended in the exception of a \<open>print\<close>.\<close>

definition print_failed :: "world \<Rightarrow> trace \<Rightarrow> py_exn \<Rightarrow> bool" where
  "print_failed w h e \<longleftrightarrow> (\<exists>k s. h = k @ [Print s] \<and> w_unit w h = Inl e)"

lemma py_print_cases:
  obtains e where "py_print s w h = Some (Inl e, h @ [Print s])" "print_failed w (h @ [Print s]) e"
  | "py_print s w h = Some (Inr (), h @ [Print s])"
  by (cases "w_unit w (h @ [Print s])") (auto simp: py_print_def act_def print_failed_def)

lemma complain_Some:
  "io_then (py_print_err s) (io_return c) w h = Some (r, h') \<Longrightarrow>
     h' = h @ [Print_err s] \<and> (r = Inr c \<or> (\<exists>e. r = Inl e))"
  by (auto simp: io_then_Some py_print_err_def act_def io_return_def)

section \<open>Files and paths\<close>

text \<open>The lines of a text file, each with its newline; the last one may lack it.\<close>

definition text_lines :: "string \<Rightarrow> string list" where
  "text_lines s =
     (let parts = split_on (CHR 0x0A) s in
      map (\<lambda>l. l @ [CHR 0x0A]) (butlast parts) @ (if last parts = [] then [] else [last parts]))"

text \<open>\<open>sum(1 for _ in open(p)) if p.exists() else dflt\<close>\<close>

definition count_lines :: "string \<Rightarrow> nat \<Rightarrow> nat io" where
  "count_lines p dflt =
     io_bind (act_bool (Exists p)) (\<lambda>e.
       if e then io_bind (act_text (Read_text p)) (\<lambda>s. io_return (length (text_lines s)))
       else io_return dflt)"

text \<open>\<open>p / x\<close>: an absolute right operand replaces the left one.\<close>

definition path_join :: "string \<Rightarrow> string \<Rightarrow> string" where
  "path_join p x = (if starts_with x ''/'' then x else p @ ''/'' @ x)"

text \<open>\<open>env[k] = v\<close> and \<open>env.pop(k, None)\<close> on a copy of the environment.\<close>

definition env_set :: "string \<Rightarrow> string \<Rightarrow> (string \<Rightarrow> string option) \<Rightarrow> string \<Rightarrow> string option" where
  "env_set k v env = env(k \<mapsto> v)"

definition env_pop :: "string \<Rightarrow> (string \<Rightarrow> string option) \<Rightarrow> string \<Rightarrow> string option" where
  "env_pop k env = env(k := None)"

text \<open>\<open>os.path.dirname\<close>: what stands before the last slash, without slashes at its end.\<close>

definition py_dirname :: "string \<Rightarrow> string" where
  "py_dirname p =
     (let head = rev (dropWhile (\<lambda>c. c \<noteq> CHR ''/'') (rev p)) in
      if list_all (\<lambda>c. c = CHR ''/'') head then head
      else rev (dropWhile (\<lambda>c. c = CHR ''/'') (rev head)))"

text \<open>\<open>os.makedirs(p, exist_ok=True)\<close>: the empty path is not a directory that exists.\<close>

definition os_makedirs :: "string \<Rightarrow> unit io" where
  "os_makedirs p = (if p = [] then io_raise FileNotFoundError else act (Mkdir p))"

section \<open>Loops\<close>

text \<open>
  The operators are monotone in the program they run, so loops that may not come back are
  \<open>partial_function\<close>s.
\<close>

abbreviation io_mono :: "(('d \<Rightarrow> 'e option) \<Rightarrow> 'c option) \<Rightarrow> bool" where
  "io_mono F \<equiv> monotone (fun_ord option_ord) option_ord F"

lemma option_ord_cases: "option_ord a b \<longleftrightarrow> a = None \<or> a = b"
  by (auto simp: flat_ord_def)

lemma io_bind_mono [partial_function_mono]:
  fixes m :: "('d \<Rightarrow> 'e option) \<Rightarrow> 'a io" and g :: "('d \<Rightarrow> 'e option) \<Rightarrow> 'a \<Rightarrow> 'b io"
  assumes "\<And>w h. io_mono (\<lambda>f. m f w h)" and "\<And>x w h. io_mono (\<lambda>f. g f x w h)"
  shows "io_mono (\<lambda>f. io_bind (m f) (g f) w h)"
proof (rule monotoneI)
  fix f f' :: "'d \<Rightarrow> 'e option"
  assume le: "fun_ord option_ord f f'"
  have "option_ord (m f w h) (m f' w h)" using assms(1) [of w h] le by (auto simp: monotone_on_def)
  then have m: "m f w h = None \<or> m f w h = m f' w h" by (simp add: option_ord_cases)
  have "option_ord (g f x v k) (g f' x v k)" for x v k using assms(2) [of x v k] le
    by (auto simp: monotone_on_def)
  then have g: "g f x v k = None \<or> g f x v k = g f' x v k" for x v k by (simp add: option_ord_cases)
  show "option_ord (io_bind (m f) (g f) w h) (io_bind (m f') (g f') w h)"
  proof (cases "m f w h")
    case None
    then show ?thesis by (simp add: io_bind_def option_ord_cases)
  next
    case (Some p)
    with m have "m f' w h = Some p" by simp
    with Some g show ?thesis by (cases p) (auto simp: io_bind_def option_ord_cases split: sum.split)
  qed
qed

lemma io_then_mono [partial_function_mono]:
  fixes m :: "('d \<Rightarrow> 'e option) \<Rightarrow> unit io" and k :: "('d \<Rightarrow> 'e option) \<Rightarrow> 'b io"
  assumes "\<And>w h. io_mono (\<lambda>f. m f w h)" and "\<And>w h. io_mono (\<lambda>f. k f w h)"
  shows "io_mono (\<lambda>f. io_then (m f) (k f) w h)"
  unfolding io_then_def by (rule io_bind_mono) (rule assms)+

lemma io_if_mono [partial_function_mono]:
  fixes m k :: "('d \<Rightarrow> 'e option) \<Rightarrow> 'b io"
  assumes "io_mono (\<lambda>f. m f w h)" and "io_mono (\<lambda>f. k f w h)"
  shows "io_mono (\<lambda>f. (if b then m f else k f) w h)"
  using assms by (cases b) simp_all

lemma io_option_mono [partial_function_mono]:
  fixes m :: "('d \<Rightarrow> 'e option) \<Rightarrow> 'b io" and k :: "('d \<Rightarrow> 'e option) \<Rightarrow> 'a \<Rightarrow> 'b io"
  assumes "io_mono (\<lambda>f. m f w h)" and "\<And>y. io_mono (\<lambda>f. k f y w h)"
  shows "io_mono (\<lambda>f. (case x of None \<Rightarrow> m f | Some y \<Rightarrow> k f y) w h)"
  using assms by (cases x) simp_all

section \<open>A clock that advances\<close>

text \<open>A clock that advances by at least \<open>eps\<close> with every reading.\<close>

definition readings :: "trace \<Rightarrow> nat" where
  "readings h = length (filter (\<lambda>a. a = Monotonic) h)"

definition ticking :: "rat \<Rightarrow> world \<Rightarrow> bool" where
  "ticking eps w \<longleftrightarrow> 0 < eps \<and> (\<forall>h. of_nat (readings h) * eps \<le> w_time w (h @ [Monotonic]))"

lemma readings_simps [simp]:
  "readings [] = 0" "readings (h @ k) = readings h + readings k" "readings (Monotonic # h) = Suc (readings h)"
  by (simp_all add: readings_def)

lemma ticking_early:
  assumes "ticking eps w" "w_time w (h @ [Monotonic]) < d"
  shows "readings h < nat \<lceil>d / eps\<rceil>"
proof -
  have "of_nat (readings h) * eps < d" using assms by (auto simp: ticking_def intro: le_less_trans)
  then have "of_nat (readings h) < d / eps" using assms(1) by (simp add: ticking_def pos_less_divide_eq)
  then have "int (readings h) < \<lceil>d / eps\<rceil>" by (simp add: less_ceiling_iff)
  then show ?thesis by simp
qed

end
