(* ===== verification/Py_Value.thy ===== *)
theory Py_Value
  imports Py_Float Json
begin

text \<open>
  Values parsed from JSON as Python sees them: their text and what a
  \<open>for\<close> loop over them yields. The host's time zone, error texts, rendering of floats
  (\<open>repr\<close> and format specifications), the float arithmetic of \<open>statistics.stdev\<close> and
  the decoding of bytes (\<open>decode(errors="replace")\<close>) and the finite values of
  \<open>float(text)\<close> are the record \<open>py_host\<close>.
\<close>

record py_host =
  host_hms :: "rat \<Rightarrow> string result"
  host_strerror :: "int \<Rightarrow> string"
  host_errorcode :: "int \<Rightarrow> bool"
  host_float_str :: "rat \<Rightarrow> string"
  host_float_fmt :: "string \<Rightarrow> rat \<Rightarrow> string"
  host_stdev :: "rat list \<Rightarrow> rat"
  host_decode :: "string \<Rightarrow> string"
  host_read_float :: "string \<Rightarrow> rat result"

text \<open>The double of a parsed decimal.\<close>

definition dec_float :: "int \<Rightarrow> nat \<Rightarrow> rat" where
  "dec_float m k = fl64 (of_int m / 10 ^ k)"

text \<open>\<open>str\<close> of a parsed value; inside a list or dictionary strings are quoted (\<open>repr\<close>).\<close>

definition py_repr_str :: "string \<Rightarrow> string" where
  "py_repr_str s =
     (let q = (if CHR 0x27 \<in> set s \<and> quote \<notin> set s then quote else CHR 0x27);
          esc = (\<lambda>c. if c = q \<or> c = backslash then [backslash, c]
                     else if c = CHR 0x0A then [backslash, CHR ''n'']
                     else if c = CHR 0x0D then [backslash, CHR ''r'']
                     else if c = CHR 0x09 then [backslash, CHR ''t'']
                     else let n = of_char c :: nat in
                       if n < 32 \<or> 127 \<le> n \<and> n \<le> 160 \<or> n = 173
                       then backslash # CHR ''x'' # [digit_char (n div 16), digit_char (n mod 16)] else [c])
      in q # concat (map esc s) @ [q])"

text \<open>
  A dictionary built from pairs in order: a repeated key keeps its place and takes the last
  value.
\<close>

fun dict_insert :: "string \<Rightarrow> 'v \<Rightarrow> (string \<times> 'v) list \<Rightarrow> (string \<times> 'v) list" where
  "dict_insert k v [] = [(k, v)]"
| "dict_insert k v ((a, b) # kvs) = (if a = k then (a, v) # kvs else (a, b) # dict_insert k v kvs)"

definition dict_items :: "(string \<times> 'v) list \<Rightarrow> (string \<times> 'v) list" where
  "dict_items kvs = foldl (\<lambda>d (k, v). dict_insert k v d) [] kvs"

fun py_repr :: "py_host \<Rightarrow> json \<Rightarrow> string" where
  "py_repr P JNull = ''None''"
| "py_repr P (JBool b) = (if b then ''True'' else ''False'')"
| "py_repr P (JInt i) = py_str_int i"
| "py_repr P (JDec m k) = host_float_str P (dec_float m k)"
| "py_repr P (JSpecial s) = (if s = ''NaN'' then ''nan'' else if s = ''Infinity'' then ''inf'' else ''-inf'')"
| "py_repr P (JStr s) = py_repr_str s"
| "py_repr P (JArr xs) = ''['' @ join '', '' (map (py_repr P) xs) @ '']''"
| "py_repr P (JObj kvs) = ''{'' @ join '', '' (map (\<lambda>(k, t). py_repr_str k @ '': '' @ t)
       (dict_items (map (\<lambda>(k, v). (k, py_repr P v)) kvs))) @ ''}''"

definition py_str :: "py_host \<Rightarrow> json \<Rightarrow> string" where
  "py_str P j = (case j of JStr s \<Rightarrow> s | _ \<Rightarrow> py_repr P j)"

text \<open>What iterating over a value yields.\<close>

fun py_iter :: "json \<Rightarrow> json list result" where
  "py_iter (JArr xs) = Inr xs"
| "py_iter (JStr s) = Inr (map (\<lambda>c. JStr [c]) s)"
| "py_iter (JObj kvs) = Inr (map (\<lambda>(k, v). JStr k) (dict_items kvs))"
| "py_iter _ = Inl TypeError"

end
