(* ===== verification/Kraft.thy ===== *)
theory Kraft
  imports Py_IO Py_Value
begin

text \<open>
  How the tools drive \<open>kraft\<close>: looking for a running instance, starting one, stopping
  and removing it, and finding the hook addresses in the debug image with \<open>nm\<close> and
  \<open>objdump\<close>. What these programs print is an answer of the world.
\<close>

section \<open>Instances\<close>

text \<open>\<open>json.loads(out.stdout) or []\<close>, iterated; \<open>inst.get("name")\<close> needs a dictionary.\<close>

definition instances_of :: "json \<Rightarrow> json list result" where
  "instances_of v = (if json_truthy v then py_iter v else Inr [])"

fun any_named :: "string \<Rightarrow> json list \<Rightarrow> bool result" where
  "any_named name [] = Inr False"
| "any_named name (JObj kvs # insts) =
     (if jget kvs ''name'' = Some (JStr name) then Inr True else any_named name insts)"
| "any_named name (v # insts) = Inl AttributeError"

definition instance_is_running :: "string \<Rightarrow> bool io" where
  "instance_is_running name =
     io_bind (subprocess_run True [''kraft'', ''ps'', ''-o'', ''json''] None None) (\<lambda>out.
       io_lift (bind_result (json_loads out) (\<lambda>v. bind_result (instances_of v) (any_named name))))"

text \<open>\<open>run_capture_inline.py\<close> has its own copy.\<close>

definition inline_instance_is_running :: "string \<Rightarrow> bool io" where
  "inline_instance_is_running name =
     io_bind (subprocess_run True [''kraft'', ''ps'', ''-o'', ''json''] None None) (\<lambda>out.
       io_lift (bind_result (json_loads out) (\<lambda>v. bind_result (instances_of v) (any_named name))))"

definition run_ignoring :: "string list \<Rightarrow> unit io" where
  "run_ignoring argv = io_bind (subprocess_run False argv None None) (\<lambda>_. io_return ())"

definition run_checked :: "string list \<Rightarrow> string option \<Rightarrow> (string \<Rightarrow> string option) option \<Rightarrow> unit io" where
  "run_checked argv cwd env = io_bind (subprocess_run True argv cwd env) (\<lambda>_. io_return ())"

definition stop_cmd :: "string \<Rightarrow> string list" where
  "stop_cmd name = [''kraft'', ''stop'', name]"

definition rm_cmd :: "string \<Rightarrow> string list" where
  "rm_cmd name = [''kraft'', ''rm'', name]"

definition stop_and_remove :: "string \<Rightarrow> unit io" where
  "stop_and_remove name = io_then (run_ignoring (stop_cmd name)) (run_ignoring (rm_cmd name))"

text \<open>The three ways of starting one.\<close>

definition run_cmd :: "int \<Rightarrow> string \<Rightarrow> string option \<Rightarrow> string list" where
  "run_cmd port name qemu =
     [''kraft'', ''run'', ''-d'', ''-p'', py_str_int port @ '':80'', ''--name'', name] @
     (case qemu of None \<Rightarrow> [] | Some q \<Rightarrow> [''--qemu'', q]) @ [''.'']"

definition start_instance :: "string \<Rightarrow> unit io" where
  "start_instance name =
     io_bind get_project (\<lambda>d.
     io_then (run_checked (run_cmd 8080 name None) (Some d) None)
     (act (Sleep (3 / 2))))"

definition monitor_env :: "int \<Rightarrow> int option \<Rightarrow> string \<Rightarrow> (string \<Rightarrow> string option) \<Rightarrow> string \<Rightarrow> string option" where
  "monitor_env addr ret_addr logp env =
     (let env1 = env_pop ''VMI_MONITOR_RET_ADDR'' (env_set ''VMI_MONITOR_LOG'' logp (env_set ''VMI_MONITOR_ADDR'' (py_hex addr) env))
      in case ret_addr of None \<Rightarrow> env1 | Some a \<Rightarrow> env_set ''VMI_MONITOR_RET_ADDR'' (py_hex a) env1)"

definition inline_start_instance :: "string \<Rightarrow> string \<Rightarrow> int \<Rightarrow> int option \<Rightarrow> string \<Rightarrow> int \<Rightarrow> unit io" where
  "inline_start_instance name qemu_path addr ret_addr log_path port =
     io_bind get_environ (\<lambda>environ. io_bind (get_resolved log_path) (\<lambda>logp.
       (let env = monitor_env addr ret_addr logp environ; cmd = run_cmd port name (Some qemu_path) in
        io_then (py_print (''[run_capture_inline] '' @ join '' '' cmd))
        (io_then (py_print (''[run_capture_inline] env VMI_MONITOR_ADDR='' @ the (env ''VMI_MONITOR_ADDR'') @
           '' VMI_MONITOR_RET_ADDR='' @ (case env ''VMI_MONITOR_RET_ADDR'' of None \<Rightarrow> ''(unset)'' | Some a \<Rightarrow> a) @
           '' VMI_MONITOR_LOG='' @ the (env ''VMI_MONITOR_LOG'')))
        (io_bind get_project (\<lambda>d.
         io_then (run_checked cmd (Some d) (Some env)) (act (Sleep (3 / 2)))))))))"

definition BOOT_SETTLE_S :: rat where
  "BOOT_SETTLE_S = 3"

text \<open>\<open>kraft_run\<close> of the benchmark: \<open>env.update(env_extra)\<close>; an empty path means no \<open>--qemu\<close>.\<close>

definition kraft_run :: "string \<Rightarrow> string option \<Rightarrow> (string \<times> string) list \<Rightarrow> unit io" where
  "kraft_run name qemu_path env_extra =
     io_bind get_environ (\<lambda>environ. io_bind get_project (\<lambda>d.
       io_then (run_checked (run_cmd 8080 name (if qemu_path = Some [] then None else qemu_path)) (Some d)
         (Some (foldl (\<lambda>env (k, v). env_set k v env) environ env_extra)))
       (act (Sleep BOOT_SETTLE_S))))"

section \<open>Hook addresses\<close>

definition dbg_kernel :: "string \<Rightarrow> string" where
  "dbg_kernel project = project @ ''/.unikraft/build/nginx_qemu-x86_64.dbg''"

fun find_symbol :: "string \<Rightarrow> string list \<Rightarrow> int result" where
  "find_symbol dbg [] = Inl (RuntimeError (''_ukplat_syscall not found in '' @ dbg))"
| "find_symbol dbg (line # lines) =
     (if ends_with line '' T _ukplat_syscall''
      then (case split_ws line of [] \<Rightarrow> Inl IndexError | t # ts \<Rightarrow> py_int 16 t)
      else find_symbol dbg lines)"

definition resolve_syscall_addr :: "int io" where
  "resolve_syscall_addr =
     io_bind get_project (\<lambda>d.
     io_bind (subprocess_run True [''nm'', dbg_kernel d] None None) (\<lambda>out.
       io_lift (find_symbol (dbg_kernel d) (splitlines out))))"

fun find_return_jump :: "string \<Rightarrow> string list \<Rightarrow> int result" where
  "find_return_jump dbg [] = Inl (RuntimeError (''`jmp *%rcx` not found after _ukplat_syscall in '' @ dbg))"
| "find_return_jump dbg (line # lines) =
     (if contains line ''jmp'' \<and> contains line ''*%rcx''
      then py_int 16 (py_strip (hd (split_on (CHR '':'') line)))
      else find_return_jump dbg lines)"

definition resolve_syscall_ret_addr :: "int \<Rightarrow> int io" where
  "resolve_syscall_ret_addr entry_addr =
     io_bind get_project (\<lambda>d.
     io_bind (subprocess_run True [''objdump'', ''-d'', ''--start-address='' @ py_hex entry_addr,
         ''--stop-address='' @ py_hex (entry_addr + 0x400), dbg_kernel d] None None) (\<lambda>out.
       io_lift (find_return_jump (dbg_kernel d) (splitlines out))))"

section \<open>Life cycle commands of a run\<close>

text \<open>
  The commands among a run's actions that start, stop or remove an instance: every
  \<open>kraft\<close> invocation but \<open>kraft ps\<close>.
\<close>

definition life_argv :: "string list \<Rightarrow> bool" where
  "life_argv argv \<longleftrightarrow> take 1 argv = [''kraft''] \<and> take 1 (drop 1 argv) \<noteq> [''ps'']"

definition life_action :: "action \<Rightarrow> bool" where
  "life_action a = (case a of Run argv _ _ \<Rightarrow> life_argv argv | Popen argv _ _ \<Rightarrow> life_argv argv | _ \<Rightarrow> False)"

definition life_argvs :: "action \<Rightarrow> string list list" where
  "life_argvs a = (case a of
     Run argv _ _ \<Rightarrow> if life_argv argv then [argv] else []
   | Popen argv _ _ \<Rightarrow> if life_argv argv then [argv] else []
   | _ \<Rightarrow> [])"

definition life :: "trace \<Rightarrow> string list list" where
  "life h = concat (map life_argvs h)"

lemma life_simps [simp]: "life [] = []" "life (a # h) = life_argvs a @ life h" "life (h @ k) = life h @ life k"
  by (simp_all add: life_def)

lemma life_argv_simps [simp]:
  "life_argv (run_cmd port name q)" "life_argv (stop_cmd name)" "life_argv (rm_cmd name)"
  "\<not> life_argv (''kraft'' # ''ps'' # args)"
  by (simp_all add: life_argv_def run_cmd_def stop_cmd_def rm_cmd_def)

lemma life_argvs_quiet [simp]: "\<not> life_action a \<Longrightarrow> life_argvs a = []"
  by (auto simp: life_action_def life_argvs_def split: action.splits)

lemma life_argvs_run [simp]: "life_argvs (Run argv cwd env) = (if life_argv argv then [argv] else [])"
  by (simp add: life_argvs_def)

lemma life_quiet: "io_only (\<lambda>a. \<not> life_action a) m \<Longrightarrow> m w h = Some (r, h') \<Longrightarrow> life h' = life h"
proof (drule (1) io_onlyD, elim exE conjE)
  fix as
  assume "h' = h @ as" "list_all (\<lambda>a. \<not> life_action a) as"
  moreover have "list_all (\<lambda>a. \<not> life_action a) as \<Longrightarrow> life as = []" by (induction as) auto
  ultimately show "life h' = life h" by simp
qed

lemma run_checked_life:
  assumes "run_checked argv cwd env w h = Some (r, h')"
  shows "life h' = life h @ (if life_argv argv then [argv] else [])"
  using assms by (auto simp: run_checked_def io_bind_Some subprocess_run_def Let_def io_return_def
      split: sum.splits if_splits)

lemma run_ignoring_life:
  assumes "run_ignoring argv w h = Some (r, h')"
  shows "life h' = life h @ (if life_argv argv then [argv] else [])"
  using assms by (auto simp: run_ignoring_def io_bind_Some subprocess_run_def Let_def io_return_def
      split: sum.splits if_splits)

lemma stop_and_remove_life:
  assumes "stop_and_remove name w h = Some (r, h')"
  shows "life h' = life h @ [stop_cmd name, rm_cmd name] \<or> life h' = life h @ [stop_cmd name] \<and> r \<noteq> Inr ()"
  using assms by (auto simp: stop_and_remove_def io_then_Some dest!: run_ignoring_life)

text \<open>It raises only what starting or waiting for one of the two commands raises, and ends there.\<close>

lemma run_ignoring_ends:
  assumes "run_ignoring argv w h = Some (r, h')"
  shows "h' = h @ [Run argv None None] \<and> (r = Inr () \<or> (\<exists>e. r = Inl e \<and> w_run w h' = Inl e))"
  using assms by (auto simp: run_ignoring_def io_bind_Some subprocess_run_def Let_def io_return_def
      split: sum.splits if_splits)

lemma stop_and_remove_ends:
  assumes "stop_and_remove name w h = Some (r, h')"
  shows "life h' = life h @ [stop_cmd name, rm_cmd name] \<and> (r = Inr () \<or> (\<exists>e. r = Inl e \<and> w_run w h' = Inl e)) \<or>
    life h' = life h @ [stop_cmd name] \<and> h' = h @ [Run (stop_cmd name) None None] \<and> (\<exists>e. r = Inl e \<and> w_run w h' = Inl e)"
  using assms by (auto simp: stop_and_remove_def io_then_Some dest!: run_ignoring_ends)

lemma stop_and_remove_total: "\<exists>r h'. stop_and_remove name w h = Some (r, h')"
  by (auto simp: stop_and_remove_def run_ignoring_def io_then_def io_bind_def subprocess_run_def Let_def
      io_return_def split: sum.split)

text \<open>
  \<open>issues m A B\<close>: the commands a run of \<open>m\<close> issues are one of the lists of
  \<open>A\<close> when it returns and one of those of \<open>B\<close> when it raises.
\<close>

definition issues :: "'a io \<Rightarrow> string list list set \<Rightarrow> string list list set \<Rightarrow> bool" where
  "issues m A B \<longleftrightarrow> (\<forall>w h r h'. m w h = Some (r, h') \<longrightarrow>
     (\<exists>cs. life h' = life h @ cs \<and> (case r of Inr _ \<Rightarrow> cs \<in> A | Inl _ \<Rightarrow> cs \<in> B)))"

definition seqs :: "string list list set \<Rightarrow> string list list set \<Rightarrow> string list list set" where
  "seqs A B = (\<Union>a \<in> A. (\<lambda>b. a @ b) ` B)"

lemma seqs_simps [simp]:
  "seqs {} B = {}" "seqs (insert a A) B = (\<lambda>b. a @ b) ` B \<union> seqs A B"
  by (simp_all add: seqs_def)

named_theorems issue_rules \<open>commands issued by composed programs\<close>

lemma issuesD:
  "issues m A B \<Longrightarrow> m w h = Some (r, h') \<Longrightarrow>
   \<exists>cs. life h' = life h @ cs \<and> (case r of Inr _ \<Rightarrow> cs \<in> A | Inl _ \<Rightarrow> cs \<in> B)"
  by (simp add: issues_def)

lemma issues_mono: "issues m A B \<Longrightarrow> A \<subseteq> A' \<Longrightarrow> B \<subseteq> B' \<Longrightarrow> issues m A' B'"
  unfolding issues_def by (fastforce split: sum.splits)

lemma issues_lifeless: "io_only (\<lambda>a. \<not> life_action a) m \<Longrightarrow> issues m {[]} {[]}"
  by (auto simp: issues_def dest!: life_quiet split: sum.split)

lemma issues_bind [issue_rules]:
  assumes "issues m A B" "\<And>x. issues (f x) C D"
  shows "issues (io_bind m f) (seqs A C) (B \<union> seqs A D)"
  unfolding issues_def
proof (intro allI impI)
  fix w h r h'
  assume "io_bind m f w h = Some (r, h')"
  then consider e where "m w h = Some (Inl e, h')" "r = Inl e"
    | x h1 where "m w h = Some (Inr x, h1)" "f x w h1 = Some (r, h')" by (auto simp: io_bind_Some)
  then show "\<exists>cs. life h' = life h @ cs \<and> (case r of Inr _ \<Rightarrow> cs \<in> seqs A C | Inl _ \<Rightarrow> cs \<in> B \<union> seqs A D)"
  proof cases
    case 1
    with issuesD [OF assms(1) 1(1)] show ?thesis by auto
  next
    case (2 x h1)
    from issuesD [OF assms(1) 2(1)] obtain a where "life h1 = life h @ a" "a \<in> A" by auto
    moreover from issuesD [OF assms(2) 2(2)] obtain c where "life h' = life h1 @ c"
      "case r of Inr _ \<Rightarrow> c \<in> C | Inl _ \<Rightarrow> c \<in> D" by blast
    ultimately show ?thesis
      by (intro exI [of _ "a @ c"]) (auto simp: seqs_def split: sum.splits)
  qed
qed

lemma issues_then [issue_rules]:
  "issues m A B \<Longrightarrow> issues k C D \<Longrightarrow> issues (io_then m k) (seqs A C) (B \<union> seqs A D)"
  by (simp add: io_then_def issues_bind)

lemma issues_finally [issue_rules]:
  assumes "issues m A B" "issues f C D"
  shows "issues (io_finally m f) (seqs A C) (seqs B C \<union> seqs (A \<union> B) D)"
  unfolding issues_def
proof (intro allI impI)
  fix w h r h'
  assume "io_finally m f w h = Some (r, h')"
  then obtain r1 h1 r2 where run: "m w h = Some (r1, h1)" "f w h1 = Some (r2, h')"
    "r = (case r2 of Inl e \<Rightarrow> Inl e | Inr _ \<Rightarrow> r1)" by (rule io_finally_Some)
  from issuesD [OF assms(1) run(1)] obtain a where "life h1 = life h @ a"
    "case r1 of Inr _ \<Rightarrow> a \<in> A | Inl _ \<Rightarrow> a \<in> B" by blast
  moreover from issuesD [OF assms(2) run(2)] obtain c where "life h' = life h1 @ c"
    "case r2 of Inr _ \<Rightarrow> c \<in> C | Inl _ \<Rightarrow> c \<in> D" by blast
  ultimately show "\<exists>cs. life h' = life h @ cs \<and>
      (case r of Inr _ \<Rightarrow> cs \<in> seqs A C | Inl _ \<Rightarrow> cs \<in> seqs B C \<union> seqs (A \<union> B) D)"
    using run(3) by (intro exI [of _ "a @ c"]) (auto simp: seqs_def split: sum.splits)
qed

lemma stop_and_remove_issues [issue_rules]:
  "issues (stop_and_remove name) {[stop_cmd name, rm_cmd name]} {[stop_cmd name], [stop_cmd name, rm_cmd name]}"
  using stop_and_remove_life unfolding issues_def by (fastforce split: sum.splits)

text \<open>
  What the tools rely on when they start an instance: the one command that starts it is
  issued, nothing else that changes instances; only a start that raised may not have got
  that far.
\<close>

locale starter =
  fixes start :: "string \<Rightarrow> unit io" and cmd :: "string \<Rightarrow> string list"
  assumes start_life: "start name w h = Some (r, h') \<Longrightarrow>
    life h' = life h @ [cmd name] \<or> life h' = life h \<and> (\<exists>e. r = Inl e)"
begin

lemma start_issues: "issues (start name) {[cmd name]} {[], [cmd name]}"
  using start_life by (fastforce simp: issues_def split: sum.splits)

lemma announced_start_issues: "issues (io_then (py_print s) (start name)) {[cmd name]} {[], [cmd name]}"
  by (rule issues_mono [OF issues_then [OF issues_lifeless start_issues]]) (auto intro: io_rules simp: life_action_def)

text \<open>
  \<open>start; try: body finally: stop_and_remove\<close>: whatever the body does and however it
  ends, once the instance has been started it is stopped.
\<close>

lemma bracket_life:
  assumes body: "io_only (\<lambda>a. \<not> life_action a) body"
    and run: "io_then (start name) (io_finally body (stop_and_remove name)) w h = Some (r, h')"
  shows "life h' = life h @ [cmd name, stop_cmd name, rm_cmd name] \<or>
    life h' = life h @ [cmd name, stop_cmd name] \<and> (\<exists>e. r = Inl e) \<or>
    (life h' = life h @ [cmd name] \<or> life h' = life h) \<and> (\<exists>e. r = Inl e \<and> start name w h = Some (Inl e, h'))"
proof -
  from run consider e where "start name w h = Some (Inl e, h')" "r = Inl e"
    | h1 where "start name w h = Some (Inr (), h1)" "io_finally body (stop_and_remove name) w h1 = Some (r, h')"
    by (auto simp: io_then_Some)
  then show ?thesis
  proof cases
    case 1
    with start_life [OF 1(1)] show ?thesis by blast
  next
    case (2 h1)
    from 2(2) obtain r1 h2 r2 where b: "body w h1 = Some (r1, h2)" "stop_and_remove name w h2 = Some (r2, h')"
      "r = (case r2 of Inl e \<Rightarrow> Inl e | Inr _ \<Rightarrow> r1)" by (rule io_finally_Some)
    have "life h2 = life h @ [cmd name]" using life_quiet [OF body b(1)] start_life [OF 2(1)] by auto
    with stop_and_remove_life [OF b(2)] b(3) show ?thesis by (cases r2) auto
  qed
qed

end

lemma start_instance_life: "start_instance name w h = Some (r, h') \<Longrightarrow> life h' = life h @ [run_cmd 8080 name None]"
  by (auto simp: start_instance_def io_bind_Some io_then_Some get_project_def act_def life_action_def
      dest!: run_checked_life)

lemma kraft_run_life:
  "kraft_run name q extra w h = Some (r, h') \<Longrightarrow>
   life h' = life h @ [run_cmd 8080 name (if q = Some [] then None else q)]"
  by (auto simp: kraft_run_def io_bind_Some io_then_Some get_project_def get_environ_def act_def life_action_def
      dest!: run_checked_life)

lemma inline_start_life:
  "inline_start_instance name q addr ret logp port w h = Some (r, h') \<Longrightarrow> life h' = life h @ [run_cmd port name (Some q)] \<or>
    life h' = life h \<and> (\<exists>e. r = Inl e)"
  unfolding inline_start_instance_def Let_def io_bind_Some io_then_Some
  by (auto simp: get_project_def get_environ_def get_resolved_def act_def py_print_def life_action_def
      dest!: run_checked_life)

text \<open>What the start command of \<open>run_capture_inline.py\<close> is given, if it is issued.\<close>

lemma run_checked_issued: "run_checked argv cwd env w h = Some (r, h') \<Longrightarrow> h' = h @ [Run argv cwd env]"
  by (auto simp: run_checked_def io_bind_Some subprocess_run_def Let_def io_return_def
      split: sum.splits if_splits)

lemma print_life: "py_print s w h = Some (r, h') \<Longrightarrow> life h' = life h"
  by (auto simp: py_print_def act_def life_action_def)

lemma inline_start_env:
  assumes start: "inline_start_instance name q addr ret logp port w h = Some (r, h')" and started: "life h' \<noteq> life h"
  shows "Run (run_cmd port name (Some q)) (Some (w_project w)) (Some (monitor_env addr ret (w_resolve w logp) (w_environ w))) \<in> set h'"
proof -
  let ?env = "monitor_env addr ret (w_resolve w logp) (w_environ w)"
  let ?tail = "io_bind get_project (\<lambda>d. io_then (run_checked (run_cmd port name (Some q)) (Some d) (Some ?env)) (act (Sleep (3 / 2))))"
  from start obtain s t where s: "io_then (py_print s) (io_then (py_print t) ?tail) w h = Some (r, h')"
    by (auto simp: inline_start_instance_def io_bind_Some get_environ_def get_resolved_def Let_def)
  from s started obtain k where "?tail w k = Some (r, h')" by (auto simp: io_then_Some dest!: print_life)
  then show ?thesis by (auto simp: io_bind_Some io_then_Some get_project_def act_def dest!: run_checked_issued)
qed

interpretation plain: starter start_instance "\<lambda>name. run_cmd 8080 name None"
  by unfold_locales (simp add: start_instance_life)

interpretation inline: starter "\<lambda>name. inline_start_instance name q addr ret logp port"
  "\<lambda>name. run_cmd port name (Some q)"
  by unfold_locales (rule inline_start_life)

interpretation bench: starter "\<lambda>name. kraft_run name q extra"
  "\<lambda>name. run_cmd 8080 name (if q = Some [] then None else q)"
  by unfold_locales (simp add: kraft_run_life)

end
