(* ===== verification/Hmp.thy ===== *)
theory Hmp
  imports Kraft
begin

text \<open>
  \<open>attach_gdbstub.py\<close>: finding an instance's runtime directory, speaking QEMU's text
  monitor over its socket, choosing a free port and attaching the gdb stub. What the socket
  delivers is an answer of the world; bytes are characters.
\<close>

section \<open>The instance's runtime directory\<close>

definition kraftkit_runtime_dir :: "string \<Rightarrow> string" where
  "kraftkit_runtime_dir home = home @ ''/.local/share/kraftkit/runtime''"

fun find_machine :: "py_host \<Rightarrow> string \<Rightarrow> string \<Rightarrow> string \<Rightarrow> json list \<Rightarrow> string result" where
  "find_machine P dir name shown [] =
     Inl (RuntimeError (''no running kraft instance named '' @ py_repr_str name @
       '' (kraft ps -l -o json: '' @ shown @ '')''))"
| "find_machine P dir name shown (JObj kvs # insts) =
     (if jget kvs ''name'' = Some (JStr name) then
        (case jget kvs ''machine_id'' of
           Some (JStr s) \<Rightarrow>
             if s = [] then Inl (RuntimeError (''instance '' @ py_repr_str name @
               '' found but has no machine_id field: '' @ py_repr P (JObj kvs)))
             else Inr (path_join dir s)
         | Some v \<Rightarrow>
             if json_truthy v then Inl TypeError
             else Inl (RuntimeError (''instance '' @ py_repr_str name @
               '' found but has no machine_id field: '' @ py_repr P (JObj kvs)))
         | None \<Rightarrow> Inl (RuntimeError (''instance '' @ py_repr_str name @
               '' found but has no machine_id field: '' @ py_repr P (JObj kvs))))
      else find_machine P dir name shown insts)"
| "find_machine P dir name shown (v # insts) = Inl AttributeError"

definition find_instance_runtime_dir :: "py_host \<Rightarrow> string \<Rightarrow> string io" where
  "find_instance_runtime_dir P name =
     io_bind get_home (\<lambda>home.
     io_bind (subprocess_run True [''kraft'', ''ps'', ''-l'', ''-o'', ''json''] None None) (\<lambda>out.
       io_lift (bind_result (json_loads out) (\<lambda>v.
         bind_result (instances_of v) (find_machine P (kraftkit_runtime_dir home) name
           (py_repr P (if json_truthy v then v else JArr [])))))))"

section \<open>The monitor's dialogue\<close>

definition PROMPT :: string where
  "PROMPT = ''(qemu) ''"

partial_function (option) recv_loop :: "string \<Rightarrow> string io" where
  "recv_loop buf w h =
     (if ends_with buf PROMPT then io_return buf
      else io_bind (act_text Sock_recv) (\<lambda>chunk.
        if chunk = [] then io_raise (RuntimeError ''HMP monitor socket closed unexpectedly'')
        else recv_loop (buf @ chunk))) w h"

definition recv_until_prompt :: "string io" where
  "recv_until_prompt = recv_loop []"

text \<open>\<open>ANSI_ESCAPE_RE.sub(b"", raw)\<close> for the pattern \<open>ESC [ (digit or ;)* letter\<close>.\<close>

definition ansi_param :: "char \<Rightarrow> bool" where
  "ansi_param c = (let n = of_char c :: nat in 48 \<le> n \<and> n \<le> 57 \<or> n = 59)"

definition ansi_final :: "char \<Rightarrow> bool" where
  "ansi_final c = (let n = of_char c :: nat in 65 \<le> n \<and> n \<le> 90 \<or> 97 \<le> n \<and> n \<le> 122)"

definition ansi_tail :: "string \<Rightarrow> string option" where
  "ansi_tail cs = (case cs of
     [] \<Rightarrow> None
   | b # r \<Rightarrow> if b = CHR ''['' then (case dropWhile ansi_param r of
         [] \<Rightarrow> None
       | l # rest \<Rightarrow> if ansi_final l then Some rest else None)
     else None)"

lemma ansi_tail_shorter: "ansi_tail cs = Some rest \<Longrightarrow> length rest < length cs"
  using length_dropWhile_le [of ansi_param "tl cs"]
  by (auto simp: ansi_tail_def split: list.splits if_splits)

function strip_ansi :: "string \<Rightarrow> string" where
  "strip_ansi [] = []"
| "strip_ansi (c # cs) =
     (case (if c = CHR 0x1B then ansi_tail cs else None) of
        Some rest \<Rightarrow> strip_ansi rest
      | None \<Rightarrow> c # strip_ansi cs)"
  by pat_completeness auto
termination
  by (relation "measure length") (auto dest: ansi_tail_shorter split: if_splits)

text \<open>The third part of \<open>cleaned.partition(b"\r\n")\<close>.\<close>

fun after_crlf :: "string \<Rightarrow> string" where
  "after_crlf [] = []"
| "after_crlf (c # cs) = (if c = CHR 0x0D \<and> take 1 cs = [CHR 0x0A] then drop 1 cs else after_crlf cs)"

definition hmp_reply :: "py_host \<Rightarrow> string \<Rightarrow> string" where
  "hmp_reply P raw =
     (let rest = after_crlf (strip_ansi raw);
          reply = (if ends_with rest PROMPT then take (length rest - length PROMPT) rest else rest)
      in py_strip (host_decode P reply))"

definition hmp_command :: "py_host \<Rightarrow> string \<Rightarrow> string io" where
  "hmp_command P cmdline =
     io_then (act (Sock_send (cmdline @ [CHR 0x0A])))
     (io_bind recv_until_prompt (\<lambda>raw. io_return (hmp_reply P raw)))"

section \<open>Ports\<close>

fun try_ports :: "string \<Rightarrow> nat list \<Rightarrow> nat io" where
  "try_ports msg [] = io_raise (RuntimeError msg)"
| "try_ports msg (p # ps) =
     io_catch (io_then (act (Bind p)) (io_return p))
       (\<lambda>e. if is_os_error e then try_ports msg ps else io_raise e)"

definition find_free_port :: "nat \<Rightarrow> nat io" where
  "find_free_port start =
     try_ports (''no free TCP port found in range '' @ py_str_int (int start) @ ''-'' @ py_str_int (int start + 99))
       [start..<start + 100]"

section \<open>Attaching\<close>

text \<open>\<open>str.lower\<close> as far as the ASCII texts searched for are concerned.\<close>

definition lower :: "string \<Rightarrow> string" where
  "lower s = map (\<lambda>c. let n = of_char c :: nat in if 65 \<le> n \<and> n \<le> 90 then char_of (n + 32) else c) s"

definition gdbserver_cmd :: "int \<Rightarrow> string" where
  "gdbserver_cmd port = ''gdbserver tcp:127.0.0.1:'' @ py_str_int port"

definition check_reply :: "string \<Rightarrow> string result" where
  "check_reply reply =
     (if contains (lower reply) ''could not open gdbserver'' \<or> contains (lower reply) ''error''
      then Inl (RuntimeError (''gdbserver HMP command reported failure: '' @ py_repr_str reply))
      else if reply = [] then Inl (RuntimeError ''gdbserver HMP command returned an empty reply (unexpected)'')
      else Inr reply)"

definition attach_gdbserver :: "py_host \<Rightarrow> string \<Rightarrow> int \<Rightarrow> string io" where
  "attach_gdbserver P path port =
     io_bind (act_bool (Exists path)) (\<lambda>e.
       if \<not> e then io_raise (RuntimeError (''mon.sock not found at '' @ path))
       else io_then (act (Sock_connect path))
         (io_finally
           (io_bind recv_until_prompt (\<lambda>_.
            io_bind (hmp_command P (gdbserver_cmd port)) (\<lambda>reply. io_lift (check_reply reply))))
           (act Sock_close)))"

definition attach_main :: "py_host \<Rightarrow> string \<Rightarrow> int option \<Rightarrow> nat io" where
  "attach_main P name port_arg =
     io_bind (find_instance_runtime_dir P name) (\<lambda>dir.
     io_bind (case port_arg of Some p \<Rightarrow> io_return p | None \<Rightarrow> io_bind (find_free_port 1234) (\<lambda>p. io_return (int p))) (\<lambda>port.
     io_bind (attach_gdbserver P (path_join dir ''mon.sock'') port) (\<lambda>text.
     io_then (py_print (''gdbstub attached: '' @ py_strip text))
     (io_then (py_print (''PORT='' @ py_str_int port))
     (io_return 0)))))"

section \<open>What the dialogue does\<close>

lemma recv_loop_result:
  assumes "recv_loop buf w h = Some (r, h')"
  shows "\<exists>n. h' = h @ replicate n Sock_recv \<and> (\<forall>s. r = Inr s \<longrightarrow> ends_with s PROMPT)"
proof -
  let ?Q = "\<lambda>buf w h y. \<exists>n. snd y = h @ replicate n Sock_recv \<and> (\<forall>s. fst y = Inr s \<longrightarrow> ends_with s PROMPT)"
  have "?Q buf w h (r, h')"
  proof (rule recv_loop.raw_induct [where P = ?Q, OF _ assms])
    fix f buf w h and y :: "string result \<times> trace"
    assume IH: "\<And>buf w h y. f buf w h = Some y \<Longrightarrow> ?Q buf w h y"
      and body: "(if ends_with buf PROMPT then io_return buf
        else io_bind (act_text Sock_recv) (\<lambda>chunk.
          if chunk = [] then io_raise (RuntimeError ''HMP monitor socket closed unexpectedly'')
          else f (buf @ chunk))) w h = Some y"
    obtain r h' where y: "y = (r, h')" by (cases y)
    consider "r = Inr buf" "h' = h" "ends_with buf PROMPT" | e where "r = Inl e" "h' = h @ [Sock_recv]"
      | c where "f (buf @ c) w (h @ [Sock_recv]) = Some (r, h')"
      using body by (auto simp: y io_return_def io_bind_Some act_text_def io_raise_def split: if_splits)
    then show "?Q buf w h y"
    proof cases
      case 3
      from IH [OF this] obtain n where "h' = (h @ [Sock_recv]) @ replicate n Sock_recv"
        "\<forall>s. r = Inr s \<longrightarrow> ends_with s PROMPT" by (auto simp: y)
      then show ?thesis unfolding y by (intro exI [of _ "Suc n"]) simp
    qed (auto simp: y intro: exI [of _ 0] exI [of _ 1])
  qed
  then show ?thesis by simp
qed

lemma recv_only [io_rules]: "P Sock_recv \<Longrightarrow> io_only P recv_until_prompt"
  unfolding recv_until_prompt_def io_only_def by (force dest: recv_loop_result simp: list_all_iff)

lemma hmp_command_only [io_rules]:
  "P Sock_recv \<Longrightarrow> P (Sock_send (cmd @ [CHR 0x0A])) \<Longrightarrow> io_only P (hmp_command H cmd)"
  unfolding hmp_command_def by (intro io_rules) simp_all


definition refused :: "world \<Rightarrow> trace \<Rightarrow> nat \<Rightarrow> nat \<Rightarrow> bool" where
  "refused w h a q \<longleftrightarrow> (\<exists>e. w_unit w (h @ map Bind [a..<Suc q]) = Inl e \<and> is_os_error e)"

lemma refused_shift: "a < q \<Longrightarrow> refused w (h @ [Bind a]) (Suc a) q = refused w h a q"
  by (simp add: refused_def upt_conv_Cons [of a])

lemma try_ports_result:
  "\<exists>r h'. try_ports msg [a..<b] w h = Some (r, h') \<and>
    (\<forall>p. r = Inr p \<longrightarrow> a \<le> p \<and> p < b \<and> h' = h @ map Bind [a..<Suc p] \<and> w_unit w h' = Inr () \<and>
      (\<forall>q. a \<le> q \<and> q < p \<longrightarrow> refused w h a q)) \<and>
    (\<forall>e. r = Inl e \<longrightarrow> e = RuntimeError msg \<and> h' = h @ map Bind [a..<b] \<or> w_unit w h' = Inl e \<and> \<not> is_os_error e)"
proof (induction "b - a" arbitrary: a h)
  case 0
  then show ?case by (simp add: io_raise_def)
next
  case (Suc n)
  let ?h1 = "h @ [Bind a]"
  have ports: "[a..<b] = a # [Suc a..<b]" using Suc.hyps(2) by (simp add: upt_conv_Cons)
  show ?case
  proof (cases "w_unit w ?h1")
    case (Inr u)
    moreover have "a < b" using Suc.hyps(2) by simp
    ultimately show ?thesis
      by (intro exI [of _ "Inr a"] exI [of _ ?h1]) (auto simp: ports io_defs)
  next
    case err: (Inl e)
    show ?thesis
    proof (cases "is_os_error e")
      case False
      with err show ?thesis by (intro exI [of _ "Inl e"] exI [of _ ?h1]) (simp add: ports io_defs)
    next
      case True
      have "n = b - Suc a" using Suc.hyps(2) by simp
      from Suc.hyps(1) [OF this, of ?h1] obtain r h' where IH: "try_ports msg [Suc a..<b] w ?h1 = Some (r, h')"
        "\<And>p. r = Inr p \<Longrightarrow> Suc a \<le> p \<and> p < b \<and> h' = ?h1 @ map Bind [Suc a..<Suc p] \<and> w_unit w h' = Inr () \<and>
          (\<forall>q. Suc a \<le> q \<and> q < p \<longrightarrow> refused w ?h1 (Suc a) q)"
        "\<And>e. r = Inl e \<Longrightarrow> e = RuntimeError msg \<and> h' = ?h1 @ map Bind [Suc a..<b] \<or> w_unit w h' = Inl e \<and> \<not> is_os_error e" by blast
      have run: "try_ports msg [a..<b] w h = Some (r, h')" using IH(1) err True by (simp add: ports io_defs)
      have first: "refused w h a a" using err True by (simp add: refused_def)
      show ?thesis
      proof (cases r)
        case (Inl e)
        with IH(3) [OF Inl] run show ?thesis by (simp add: ports)
      next
        case (Inr p)
        from IH(2) [OF Inr] have p: "Suc a \<le> p" "p < b" "h' = ?h1 @ map Bind [Suc a..<Suc p]" "w_unit w h' = Inr ()"
          "\<And>q. Suc a \<le> q \<Longrightarrow> q < p \<Longrightarrow> refused w ?h1 (Suc a) q" by blast+
        have "refused w h a q" if "a \<le> q" "q < p" for q
          using that first p(5) [of q] refused_shift [of a q w h] by (cases "q = a") simp_all
        moreover have "h' = h @ map Bind [a..<Suc p]" using p(1,3) by (simp add: upt_conv_Cons [of a])
        ultimately show ?thesis using run Inr p(1,2,4) by simp
      qed
    qed
  qed
qed

text \<open>
  The port. \<open>find_free_port\<close> comes back. A port it returns is one of the hundred
  from \<open>start\<close>, could be bound on the loopback interface, and is the first such:
  every lower one was tried before and refused. It gives up only when all hundred were
  refused, or when an attempt raises something that is not an \<open>OSError\<close>.
\<close>

lemma find_free_port_result:
  "\<exists>r h'. find_free_port start w h = Some (r, h') \<and>
    (\<forall>p. r = Inr p \<longrightarrow> start \<le> p \<and> p < start + 100 \<and> h' = h @ map Bind [start..<Suc p] \<and> w_unit w h' = Inr () \<and>
      (\<forall>q. start \<le> q \<and> q < p \<longrightarrow> refused w h start q)) \<and>
    (\<forall>e. r = Inl e \<longrightarrow> h' = h @ map Bind [start..<start + 100] \<or> w_unit w h' = Inl e \<and> \<not> is_os_error e)"
  using try_ports_result [of _ start "start + 100" w h] unfolding find_free_port_def by blast

lemma find_free_port_only [io_rules]: "(\<And>p. P (Bind p)) \<Longrightarrow> io_only P (find_free_port start)"
proof -
  assume "\<And>p. P (Bind p)"
  then have "io_only P (try_ports msg ps)" for msg ps by (induction ps) (auto intro!: io_rules)
  then show ?thesis by (simp add: find_free_port_def)
qed

section \<open>Reading a reply back\<close>

text \<open>
  What the terminal sends as echo: plain characters, and escape sequences of a parameter
  text and a final letter.
\<close>

fun echo_item :: "char + string \<times> char \<Rightarrow> string" where
  "echo_item (Inl c) = [c]"
| "echo_item (Inr (ps, l)) = CHR 0x1B # CHR ''['' # ps @ [l]"

fun echo_ok :: "char + string \<times> char \<Rightarrow> bool" where
  "echo_ok (Inl c) \<longleftrightarrow> c \<noteq> CHR 0x1B \<and> c \<noteq> CHR 0x0D"
| "echo_ok (Inr (ps, l)) \<longleftrightarrow> list_all ansi_param ps \<and> ansi_final l"

definition echo_text :: "(char + string \<times> char) list \<Rightarrow> string" where
  "echo_text es = concat (map (\<lambda>e. case e of Inl c \<Rightarrow> [c] | Inr _ \<Rightarrow> []) es)"

lemma ansi_final_not_param: "ansi_final l \<Longrightarrow> \<not> ansi_param l"
  by (auto simp: ansi_final_def ansi_param_def Let_def)

lemma strip_ansi_echo:
  "list_all echo_ok es \<Longrightarrow> strip_ansi (concat (map echo_item es) @ s) = echo_text es @ strip_ansi s"
proof (induction es)
  case (Cons e es)
  show ?case
  proof (cases e)
    case (Inl c)
    with Cons show ?thesis by (simp add: echo_text_def)
  next
    case (Inr pl)
    obtain ps l where "pl = (ps, l)" by (cases pl)
    with Inr Cons show ?thesis
      by (simp add: echo_text_def ansi_tail_def dropWhile_append2 list_all_iff ansi_final_not_param)
  qed
qed (simp add: echo_text_def)

lemma strip_ansi_plain: "CHR 0x1B \<notin> set s \<Longrightarrow> strip_ansi s = s"
  by (induction s) auto

lemma after_crlf_append: "CHR 0x0D \<notin> set s \<Longrightarrow> after_crlf (s @ CHR 0x0D # CHR 0x0A # r) = r"
  by (induction s) auto

lemma echo_text_no_cr: "list_all echo_ok es \<Longrightarrow> CHR 0x0D \<notin> set (echo_text es)"
  by (induction es) (auto simp: echo_text_def split: sum.splits)

text \<open>
  Reading a reply. Whatever the terminal echoes, cursor movements included, the reply
  between the end of the echoed line and the prompt is what \<open>hmp_command\<close> returns,
  stripped.
\<close>

lemma hmp_reply_echo:
  assumes "list_all echo_ok es" "CHR 0x1B \<notin> set reply"
  shows "hmp_reply P (concat (map echo_item es) @ [CHR 0x0D, CHR 0x0A] @ reply @ PROMPT) = py_strip (host_decode P reply)"
proof -
  have "CHR 0x1B \<notin> set ([CHR 0x0D, CHR 0x0A] @ reply @ PROMPT)" using assms(2) by (simp add: PROMPT_def)
  from strip_ansi_plain [OF this]
  have "strip_ansi (concat (map echo_item es) @ [CHR 0x0D, CHR 0x0A] @ reply @ PROMPT) =
      echo_text es @ CHR 0x0D # CHR 0x0A # reply @ PROMPT"
    unfolding strip_ansi_echo [OF assms(1)] by simp
  then show ?thesis
    by (simp add: hmp_reply_def Let_def after_crlf_append [OF echo_text_no_cr [OF assms(1)]])
qed

definition hmp_host :: py_host where
  "hmp_host = \<lparr>host_hms = (\<lambda>t. Inr []), host_strerror = (\<lambda>n. []), host_errorcode = (\<lambda>n. False),
     host_float_str = (\<lambda>x. []), host_float_fmt = (\<lambda>f x. []), host_stdev = (\<lambda>xs. 0), host_decode = (\<lambda>s. s),
     host_read_float = (\<lambda>s. Inl ValueError)\<rparr>"

lemma hmp_reply_echo_example:
  "hmp_reply hmp_host ([CHR ''g'', CHR 0x1B, CHR ''['', CHR ''K'', CHR 0x0D, CHR 0x0A] @ ''Waiting'' @ PROMPT) = ''Waiting''"
proof -
  have "py_strip ''Waiting'' = ''Waiting''" by code_simp
  moreover have "ansi_final (CHR ''K'')" by code_simp
  ultimately show ?thesis
    using hmp_reply_echo [of "[Inl (CHR ''g''), Inr ([], CHR ''K'')]" "''Waiting''" hmp_host] by (simp add: hmp_host_def)
qed





end
