(* ===== verification/Gdb_Session.thy ===== *)
theory Gdb_Session
  imports Kraft
begin

text \<open>
  \<open>gdb_session.py\<close>: starting a gdb that runs \<open>monitor.py\<close>, handing it a stub,
  and stopping it. What the thread that relays gdb's output has collected is the answer of
  \<open>Proc_drain\<close>; the thread itself is in \<open>Gdb_Relay\<close>.
\<close>

definition monitor_script :: "string \<Rightarrow> string" where
  "monitor_script here = here @ ''/monitor.py''"

definition popen_gdb :: "string list \<Rightarrow> (string \<Rightarrow> string option) \<Rightarrow> nat io" where
  "popen_gdb gdb_cmd env = popen gdb_cmd None (Some env)"

definition launch_gdb_capture :: "nat \<Rightarrow> (string \<Rightarrow> string option) \<Rightarrow> nat io" where
  "launch_gdb_capture port env =
     io_bind get_project (\<lambda>d. io_bind get_here (\<lambda>here.
       popen_gdb [''stdbuf'', ''-oL'', ''-eL'', ''gdb'', ''-q'', ''-nx'',
         ''-ex'', ''file '' @ dbg_kernel d,
         ''-ex'', ''target remote 127.0.0.1:'' @ py_str_int (int port),
         ''-x'', monitor_script here, ''-ex'', ''continue''] env))"

definition launch_gdb_preloaded :: "(string \<Rightarrow> string option) \<Rightarrow> nat io" where
  "launch_gdb_preloaded env =
     io_bind get_project (\<lambda>d. io_bind get_here (\<lambda>here.
     io_bind (popen_gdb [''stdbuf'', ''-oL'', ''-eL'', ''gdb'', ''-q'', ''-nx'', ''-ex'', ''file '' @ dbg_kernel d] env) (\<lambda>p.
     io_then (act (Proc_write p (''source '' @ monitor_script here @ [CHR 0x0A])))
     (io_then (act (Proc_flush p)) (io_return p)))))"

definition attach_preloaded_gdb :: "nat \<Rightarrow> nat \<Rightarrow> unit io" where
  "attach_preloaded_gdb p port =
     io_then (act (Proc_write p (''target remote 127.0.0.1:'' @ py_str_int (int port) @ [CHR 0x0A])))
     (io_then (act (Proc_write p (''continue'' @ [CHR 0x0A])))
     (act (Proc_flush p)))"

definition drain_gdb_output :: "nat \<Rightarrow> string io" where
  "drain_gdb_output p = act_text (Proc_drain p)"

text \<open>The polite part of stopping; a broken pipe is ignored.\<close>

definition ask_to_quit :: "nat \<Rightarrow> unit io" where
  "ask_to_quit p =
     io_catch
       (io_seq [act (Proc_write p (''detach'' @ [CHR 0x0A])), act (Proc_flush p), act (Sleep (1 / 2)),
          act (Proc_write p (''quit'' @ [CHR 0x0A] @ ''y'' @ [CHR 0x0A])), act (Proc_flush p)])
       (\<lambda>e. if is_os_error e then io_return () else io_raise e)"

definition wait_or_terminate :: "nat \<Rightarrow> unit io" where
  "wait_or_terminate p =
     io_catch (act (Proc_wait p (Some 5)))
       (\<lambda>e. if e = TimeoutExpired then io_then (act (Proc_terminate p)) (act (Proc_wait p (Some 5)))
            else io_raise e)"

definition stop_gdb_capture :: "nat \<Rightarrow> string io" where
  "stop_gdb_capture p =
     io_bind (act_bool (Proc_poll p)) (\<lambda>runs.
       io_then
         (if runs then
            io_seq [act (Proc_sigint p), act (Sleep 1), ask_to_quit p, wait_or_terminate p]
          else io_return ())
         (drain_gdb_output p))"

section \<open>Stopping gdb\<close>

lemma wait_or_terminate_Some:
  assumes "wait_or_terminate p w h = Some (Inr (), h')"
  shows "w_unit w h' = Inr () \<and> (h' = h @ [Proc_wait p (Some 5)] \<or>
    w_unit w (h @ [Proc_wait p (Some 5)]) = Inl TimeoutExpired \<and>
    h' = h @ [Proc_wait p (Some 5), Proc_terminate p, Proc_wait p (Some 5)])"
  using assms
  by (auto simp: wait_or_terminate_def io_catch_def act_def io_then_Some io_raise_def split: sum.splits if_splits)

lemma ask_to_quit_Some:
  assumes "ask_to_quit p w h = Some (r, h')"
  shows "\<exists>as. h' = h @ as \<and> Proc_terminate p \<notin> set as"
proof -
  have "io_only (\<lambda>a. a \<noteq> Proc_terminate p) (ask_to_quit p)"
    unfolding ask_to_quit_def by (intro io_rules) (auto intro!: io_rules)
  from io_onlyD [OF this assms] show ?thesis by (auto simp: list_all_iff)
qed

lemma stop_parts_total:
  "\<exists>r h'. ask_to_quit p w h = Some (r, h')" "\<exists>r h'. wait_or_terminate p w h = Some (r, h')"
  by (auto simp: ask_to_quit_def wait_or_terminate_def io_defs split: sum.split)

lemma stop_gdb_capture_total: "\<exists>r h'. stop_gdb_capture p w h = Some (r, h')"
proof -
  obtain qr qh where q: "ask_to_quit p w h = Some (qr h, qh h)" for h using stop_parts_total(1) by metis
  obtain wr wh where wt: "wait_or_terminate p w h = Some (wr h, wh h)" for h using stop_parts_total(2) by metis
  show ?thesis
    by (auto simp: stop_gdb_capture_def drain_gdb_output_def io_defs q wt split: sum.split)
qed

lemma stop_gdb_capture_Inr:
  assumes "stop_gdb_capture p w h = Some (Inr out, h')"
  shows "(w_bool w (h @ [Proc_poll p]) = Inr False \<and> h' = h @ [Proc_poll p, Proc_drain p]) \<or>
    (\<exists>as k. k = h @ [Proc_poll p, Proc_sigint p, Sleep 1] @ as \<and> h' = k @ [Proc_drain p] \<and>
       as \<noteq> [] \<and> last as = Proc_wait p (Some 5) \<and> w_unit w k = Inr () \<and>
       (Proc_terminate p \<in> set as \<longrightarrow> (\<exists>g. prefix g k \<and> w_unit w g = Inl TimeoutExpired)))"
proof -
  let ?h1 = "h @ [Proc_poll p]" and ?h3 = "((h @ [Proc_poll p]) @ [Proc_sigint p]) @ [Sleep 1]"
  from assms consider "w_bool w ?h1 = Inr False" "h' = ?h1 @ [Proc_drain p]"
    | h4 k where "ask_to_quit p w ?h3 = Some (Inr (), h4)" "wait_or_terminate p w h4 = Some (Inr (), k)"
        "h' = k @ [Proc_drain p]"
    by (auto simp: stop_gdb_capture_def drain_gdb_output_def io_bind_Some io_then_Some act_def act_bool_def
        act_text_def io_return_def split: if_splits)
  then show ?thesis
  proof cases
    case (2 h4 k)
    obtain as where as: "h4 = ?h3 @ as" "Proc_terminate p \<notin> set as" using ask_to_quit_Some [OF 2(1)] by blast
    from wait_or_terminate_Some [OF 2(2)]
    consider "w_unit w k = Inr ()" "k = h4 @ [Proc_wait p (Some 5)]"
      | "w_unit w k = Inr ()" "w_unit w (h4 @ [Proc_wait p (Some 5)]) = Inl TimeoutExpired"
        "k = h4 @ [Proc_wait p (Some 5), Proc_terminate p, Proc_wait p (Some 5)]" by blast
    then show ?thesis
    proof cases
      case 1
      with as 2(3) show ?thesis by (intro disjI2 exI [of _ "as @ [Proc_wait p (Some 5)]"] exI [of _ k]) simp
    next
      case late: 2
      let ?as = "as @ [Proc_wait p (Some 5), Proc_terminate p, Proc_wait p (Some 5)]"
      have "prefix (h4 @ [Proc_wait p (Some 5)]) k" by (simp add: late(3))
      with late(2) have "\<exists>g. prefix g k \<and> w_unit w g = Inl TimeoutExpired" by blast
      moreover have "k = h @ [Proc_poll p, Proc_sigint p, Sleep 1] @ ?as" by (simp add: as(1) late(3))
      moreover have "?as \<noteq> []" "last ?as = Proc_wait p (Some 5)" by simp_all
      ultimately show ?thesis using late(1) 2(3) by blast
    qed
  qed simp
qed

text \<open>
  C31: stopping gdb. \<open>stop_gdb_capture\<close> always comes back. If it returns normally, gdb
  was seen to have ended: it had already exited, or it was interrupted and one of the two
  waits succeeded, the second one only after a time-out and a \<open>terminate\<close>.
\<close>

theorem stop_gdb_capture_ends:
  "\<exists>r h'. stop_gdb_capture p w h = Some (r, h') \<and> (\<forall>out. r = Inr out \<longrightarrow>
    (w_bool w (h @ [Proc_poll p]) = Inr False \<and> h' = h @ [Proc_poll p, Proc_drain p]) \<or>
    (\<exists>as k. k = h @ [Proc_poll p, Proc_sigint p, Sleep 1] @ as \<and> h' = k @ [Proc_drain p] \<and>
       as \<noteq> [] \<and> last as = Proc_wait p (Some 5) \<and> w_unit w k = Inr () \<and>
       (Proc_terminate p \<in> set as \<longrightarrow> (\<exists>g. prefix g k \<and> w_unit w g = Inl TimeoutExpired))))"
proof -
  obtain r h' where run: "stop_gdb_capture p w h = Some (r, h')" using stop_gdb_capture_total by metis
  show ?thesis
    by (rule exI [of _ r], rule exI [of _ h'], rule conjI [OF run], intro allI impI)
      (rule stop_gdb_capture_Inr, simp add: run)
qed

text \<open>A world in which gdb does not react to the interrupt in time.\<close>

definition slow_gdb :: world where
  "slow_gdb = \<lparr>w_unit = (\<lambda>h. if last h = Proc_wait 0 (Some 5) \<and> Proc_terminate 0 \<notin> set h then Inl TimeoutExpired else Inr ()),
     w_run = (\<lambda>h. Inr (0, [])), w_text = (\<lambda>h. Inr []), w_bool = (\<lambda>h. Inr True), w_names = (\<lambda>h. Inr []),
     w_time = (\<lambda>h. 0), w_environ = (\<lambda>x. None), w_resolve = (\<lambda>x. x), w_here = [], w_project = [], w_home = []\<rparr>"

lemma slow_gdb_run: "\<exists>h'. stop_gdb_capture 0 slow_gdb [] = Some (Inr [], h')"
  by (simp add: stop_gdb_capture_def ask_to_quit_def wait_or_terminate_def drain_gdb_output_def slow_gdb_def io_defs
      io_then_def act_def act_bool_def act_text_def)

theorem stop_gdb_capture_ends_witness:
  "\<exists>h'. stop_gdb_capture 0 slow_gdb [] = Some (Inr [], h') \<and> last (butlast h') = Proc_wait 0 (Some 5)"
proof -
  obtain h' where run: "stop_gdb_capture 0 slow_gdb [] = Some (Inr [], h')" using slow_gdb_run by blast
  with stop_gdb_capture_ends [of 0 slow_gdb "[]"] show ?thesis by (auto simp: slow_gdb_def)
qed

end
