(* ===== verification/Run_Capture.thy ===== *)
theory Run_Capture
  imports Hmp Gdb_Session
begin

text \<open>
  \<open>run_capture.py\<close>: attach gdb to an instance, started if need be, for a fixed time. The
  parsed command line is the record \<open>capture_args\<close>, shared with
  \<open>run_capture_from_boot.py\<close>.
\<close>

record capture_args =
  a_name :: string
  a_duration :: rat
  a_log :: string
  a_include :: string
  a_exclude :: string
  a_max_events :: "int option"

text \<open>The values of the options that are not given.\<close>

definition run_capture_defaults :: "string \<Rightarrow> capture_args" where
  "run_capture_defaults here =
     \<lparr>a_name = ''vmicapture'', a_duration = 30, a_log = here @ ''/logs/capture.jsonl'', a_include = [],
      a_exclude = [], a_max_events = None\<rparr>"

definition capture_env :: "capture_args \<Rightarrow> (string \<Rightarrow> string option) \<Rightarrow> string \<Rightarrow> string option" where
  "capture_env args environ =
     (let env = env_set ''VMI_LOG_PATH'' (a_log args) environ;
          env = (if a_include args \<noteq> [] then env_set ''VMI_INCLUDE_NRS'' (a_include args) env else env);
          env = (if a_exclude args \<noteq> [] then env_set ''VMI_EXCLUDE_NRS'' (a_exclude args) env else env)
      in case a_max_events args of
           Some n \<Rightarrow> if n \<noteq> 0 then env_set ''VMI_MAX_EVENTS'' (py_str_int n) env else env
         | None \<Rightarrow> env)"

text \<open>Waiting for gdb, and stopping it when the duration has elapsed.\<close>

definition wait_duration :: "py_host \<Rightarrow> string \<Rightarrow> rat \<Rightarrow> nat \<Rightarrow> unit io" where
  "wait_duration P tag d p =
     io_catch
       (io_then (act (Proc_wait p (Some d)))
       (io_then (py_print (tag @ '' gdb exited on its own before the duration elapsed (check --max-events?)''))
       (io_bind (drain_gdb_output p) (\<lambda>_. io_return ()))))
       (\<lambda>e. if e = TimeoutExpired then
            io_then (py_print (tag @ '' duration ('' @ host_float_str P d @ ''s) elapsed, detaching gdb''))
            (io_bind (stop_gdb_capture p) (\<lambda>_. io_return ()))
          else io_raise e)"

definition capture_part :: "py_host \<Rightarrow> capture_args \<Rightarrow> unit io" where
  "capture_part P args =
     io_bind (find_instance_runtime_dir P (a_name args)) (\<lambda>runtime_dir.
     io_bind (find_free_port 1234) (\<lambda>port.
     io_bind (attach_gdbserver P (path_join runtime_dir ''mon.sock'') (int port)) (\<lambda>_.
     io_then (py_print (''[run_capture] gdbstub attached on 127.0.0.1:'' @ py_str_int (int port)))
     (io_bind get_environ (\<lambda>environ.
     io_then (py_print (''[run_capture] launching gdb capture on port '' @ py_str_int (int port)))
     (io_bind (launch_gdb_capture port (capture_env args environ)) (\<lambda>p.
     wait_duration P ''[run_capture]'' (a_duration args) p)))))))"

text \<open>\<open>main\<close> after it has found out whether the instance runs.\<close>

definition run_capture_rest :: "py_host \<Rightarrow> capture_args \<Rightarrow> bool \<Rightarrow> nat io" where
  "run_capture_rest P args running =
     io_then
       (if \<not> running then
          io_then (py_print (''[run_capture] starting instance '' @ py_repr_str (a_name args)))
            (start_instance (a_name args))
        else py_print (''[run_capture] instance '' @ py_repr_str (a_name args) @ '' already running, attaching only''))
     (io_then (capture_part P args)
     (io_then
       (if \<not> running then
          io_then (py_print (''[run_capture] stopping/removing instance '' @ py_repr_str (a_name args)))
            (stop_and_remove (a_name args))
        else py_print (''[run_capture] leaving instance '' @ py_repr_str (a_name args) @
          '' running (was already running before this script)''))
     (io_bind (count_lines (a_log args) 0) (\<lambda>n_events.
     io_then (py_print (''[run_capture] captured '' @ py_str_int (int n_events) @ '' events -> '' @ a_log args))
     (io_return 0)))))"

definition run_capture_main :: "py_host \<Rightarrow> capture_args \<Rightarrow> nat io" where
  "run_capture_main P args = io_bind (instance_is_running (a_name args)) (run_capture_rest P args)"

section \<open>Commands that change instances\<close>

text \<open>A program that starts, stops and removes nothing.\<close>

abbreviation lifeless :: "'a io \<Rightarrow> bool" where
  "lifeless \<equiv> io_only (\<lambda>a. \<not> life_action a)"

lemma not_life_action [simp]:
  "\<not> life_action (Sleep t)" "\<not> life_action (Print s)" "\<not> life_action (Print_err s)" "\<not> life_action Monotonic"
  "\<not> life_action Perf_counter" "\<not> life_action (Exists p)" "\<not> life_action (Is_file p)" "\<not> life_action (Read_text p)"
  "\<not> life_action (Write_text p s)" "\<not> life_action (Unlink p)" "\<not> life_action (Mkdir p)" "\<not> life_action (Listdir p)"
  "\<not> life_action (Bind n)" "\<not> life_action (Sock_connect p)" "\<not> life_action (Sock_send s)" "\<not> life_action Sock_recv"
  "\<not> life_action Sock_close" "\<not> life_action (Proc_poll q)" "\<not> life_action (Proc_sigint q)"
  "\<not> life_action (Proc_write q s)" "\<not> life_action (Proc_flush q)" "\<not> life_action (Proc_wait q d)"
  "\<not> life_action (Proc_terminate q)" "\<not> life_action (Proc_drain q)"
  "life_action (Run argv cwd env) = life_argv argv" "life_action (Popen argv cwd env) = life_argv argv"
  by (simp_all add: life_action_def)

lemma life_argv_other [simp]: "c \<noteq> ''kraft'' \<Longrightarrow> \<not> life_argv (c # args)"
  by (simp add: life_argv_def)

lemma count_lines_only [io_rules]: "P (Exists p) \<Longrightarrow> P (Read_text p) \<Longrightarrow> io_only P (count_lines p n)"
  by (auto simp: count_lines_def intro!: io_rules)

lemma lifeless_tools [io_rules]:
  "lifeless (instance_is_running name)" "lifeless (inline_instance_is_running name)"
  "lifeless (find_instance_runtime_dir P name)" "lifeless (attach_gdbserver P path port)"
  "lifeless (launch_gdb_capture port env)" "lifeless (launch_gdb_preloaded env)"
  "lifeless (attach_preloaded_gdb p port)" "lifeless (stop_gdb_capture p)"
  "lifeless resolve_syscall_addr" "lifeless (resolve_syscall_ret_addr a)"
  by (auto simp: instance_is_running_def inline_instance_is_running_def find_instance_runtime_dir_def
      attach_gdbserver_def launch_gdb_capture_def launch_gdb_preloaded_def attach_preloaded_gdb_def popen_gdb_def
      stop_gdb_capture_def ask_to_quit_def wait_or_terminate_def drain_gdb_output_def resolve_syscall_addr_def
      resolve_syscall_ret_addr_def intro!: io_rules)

lemma wait_duration_lifeless [io_rules]: "lifeless (wait_duration P tag d p)"
  by (auto simp: wait_duration_def drain_gdb_output_def intro!: io_rules)

lemma capture_part_lifeless: "lifeless (capture_part P args)"
  by (auto simp: capture_part_def intro!: io_rules)

lemma announced_stop_issues:
  "issues (io_then (py_print s) (stop_and_remove name)) {[stop_cmd name, rm_cmd name]}
     {[], [stop_cmd name], [stop_cmd name, rm_cmd name]}"
  by (rule issues_mono [OF issues_then [OF issues_lifeless stop_and_remove_issues]]) (auto intro: io_rules)

lemma run_capture_rest_issues:
  "issues (run_capture_rest P args False)
     {[run_cmd 8080 (a_name args) None, stop_cmd (a_name args), rm_cmd (a_name args)]}
     {[], [run_cmd 8080 (a_name args) None], [run_cmd 8080 (a_name args) None, stop_cmd (a_name args)],
      [run_cmd 8080 (a_name args) None, stop_cmd (a_name args), rm_cmd (a_name args)]}"
  unfolding run_capture_rest_def not_False_eq_True if_True
  by (rule issues_mono, rule issues_then [OF plain.announced_start_issues
        issues_then [OF issues_lifeless [OF capture_part_lifeless] issues_then [OF announced_stop_issues issues_lifeless]]])
    (auto intro!: io_rules)

lemma run_capture_rest_lifeless: "lifeless (run_capture_rest P args True)"
  unfolding run_capture_rest_def by (auto intro!: io_rules capture_part_lifeless)

text \<open>
  C32: an instance that was running is left alone. If the instance is already up,
  \<open>run_capture.py\<close> starts, stops and removes nothing, however it ends; if it is not, the
  only such commands are, in this order, one that starts it, one that stops it and one that
  removes it, all three when the script ends normally.
\<close>

theorem run_capture_instances:
  assumes "run_capture_main P args w h = Some (r, h')"
    and "instance_is_running (a_name args) w h = Some (Inr running, h1)"
  shows "if running then life h' = life h
    else (\<exists>cs. life h' = life h @ cs \<and>
      prefix cs [run_cmd 8080 (a_name args) None, stop_cmd (a_name args), rm_cmd (a_name args)] \<and>
      (\<forall>n. r = Inr n \<longrightarrow> length cs = 3))"
proof -
  from assms have rest: "run_capture_rest P args running w h1 = Some (r, h')"
    by (simp add: run_capture_main_def io_bind_def)
  have h1: "life h1 = life h" by (rule life_quiet [OF lifeless_tools(1) assms(2)])
  show ?thesis
  proof (cases running)
    case True
    with rest h1 life_quiet [OF run_capture_rest_lifeless] show ?thesis by simp
  next
    case False
    with rest issuesD [OF run_capture_rest_issues] h1 show ?thesis by (force split: sum.splits)
  qed
qed

text \<open>A host where no instance is listed: \<open>kraft ps\<close> prints \<open>null\<close>.\<close>

definition null_world :: world where
  "null_world = \<lparr>w_unit = (\<lambda>h. Inr ()), w_run = (\<lambda>h. Inr (0, ''null'')), w_text = (\<lambda>h. Inr []),
     w_bool = (\<lambda>h. Inr True), w_names = (\<lambda>h. Inr []), w_time = (\<lambda>h. 0), w_environ = (\<lambda>x. None),
     w_resolve = (\<lambda>x. x), w_here = ''/w'', w_project = ''/'', w_home = ''/root''\<rparr>"

definition demo_args :: capture_args where
  "demo_args = \<lparr>a_name = ''vmicapture'', a_duration = 30, a_log = ''capture.jsonl'', a_include = [],
     a_exclude = [], a_max_events = None\<rparr>"

lemma null_prints: "prints_succeed null_world"
  by (simp add: prints_succeed_def null_world_def)

lemma null_not_running:
  "instance_is_running name null_world h = Some (Inr False, h @ [Run [''kraft'', ''ps'', ''-o'', ''json''] None None])"
proof -
  have "json_loads ''null'' = Inr JNull" by code_simp
  then show ?thesis
    by (simp add: instance_is_running_def io_bind_def subprocess_run_def io_lift_def null_world_def instances_of_def)
qed

lemma null_start: "start_instance name null_world h =
    Some (Inr (), h @ [Run (run_cmd 8080 name None) (Some ''/'') None, Sleep (3 / 2)])"
  by (simp add: start_instance_def run_checked_def io_bind_def io_then_def get_project_def subprocess_run_def act_def
      io_return_def null_world_def)

lemma null_capture: "\<exists>e h'. capture_part P args null_world h = Some (Inl e, h')"
proof -
  have "json_loads ''null'' = Inr JNull" by code_simp
  then show ?thesis
    by (simp add: capture_part_def find_instance_runtime_dir_def io_bind_def get_home_def subprocess_run_def
        io_lift_def null_world_def instances_of_def)
qed

lemma null_run: "\<exists>r h'. run_capture_main P demo_args null_world [] = Some (r, h')"
proof -
  obtain f g where "capture_part P demo_args null_world h = Some (Inl (f h), g h)" for h
    using null_capture [of P demo_args] by metis
  then show ?thesis
    by (simp add: run_capture_main_def io_bind_def null_not_running run_capture_rest_def io_then_def
        py_print_ok null_prints null_start)
qed

theorem run_capture_instances_witness:
  "\<exists>cs. life (snd (the (run_capture_main hmp_host demo_args null_world []))) = cs \<and>
    prefix cs [run_cmd 8080 ''vmicapture'' None, stop_cmd ''vmicapture'', rm_cmd ''vmicapture'']"
proof -
  obtain r h' where run: "run_capture_main hmp_host demo_args null_world [] = Some (r, h')"
    using null_run by blast
  from run_capture_instances [OF run null_not_running] run show ?thesis by (auto simp: demo_args_def)
qed

text \<open>
  An instance left behind. If the script started the instance and attaching to it or
  waiting for gdb raises, the exception ends the script and the instance is neither stopped
  nor removed.
\<close>

lemma run_capture_leaves_instance:
  assumes "instance_is_running (a_name args) w h = Some (Inr False, h1)"
    and "start_instance (a_name args) w (h1 @ [Print (''[run_capture] starting instance '' @ py_repr_str (a_name args))])
      = Some (Inr (), h2)"
    and "capture_part P args w h2 = Some (Inl e, h')" "prints_succeed w"
  shows "run_capture_main P args w h = Some (Inl e, h') \<and> life h' = life h @ [run_cmd 8080 (a_name args) None]"
proof -
  have "life h1 = life h" "life h' = life h2"
    by (rule life_quiet [OF lifeless_tools(1) assms(1)], rule life_quiet [OF capture_part_lifeless assms(3)])
  then show ?thesis
    using assms start_instance_life [OF assms(2)]
    by (simp add: run_capture_main_def run_capture_rest_def io_bind_def io_then_def py_print_ok)
qed

lemma run_capture_leaves_instance_example:
  "\<exists>e h'. run_capture_main hmp_host demo_args null_world [] = Some (Inl e, h') \<and>
     life h' = [run_cmd 8080 ''vmicapture'' None]"
proof -
  let ?h2 = "([Run [''kraft'', ''ps'', ''-o'', ''json''] None None] @
      [Print (''[run_capture] starting instance '' @ py_repr_str (a_name demo_args))]) @
      [Run (run_cmd 8080 (a_name demo_args) None) (Some ''/'') None, Sleep (3 / 2)]"
  obtain e h' where "capture_part hmp_host demo_args null_world ?h2 = Some (Inl e, h')" using null_capture by blast
  from run_capture_leaves_instance [OF _ _ this, of "[]" "[Run [''kraft'', ''ps'', ''-o'', ''json''] None None]"]
  show ?thesis by (simp add: null_not_running null_start null_prints demo_args_def)
qed

end
