(* ===== verification/Live_View.thy ===== *)
theory Live_View
  imports Py_IO Py_Value
begin

text \<open>
  The terminal view of \<open>run_capture_inline.py\<close>: rendering one event, following the
  capture file as it grows, and waiting for the arm message of the debug log. The file is
  read as it is at the moment of a read.
\<close>

section \<open>Rendering\<close>

definition get_key :: "(string \<times> json) list \<Rightarrow> string \<Rightarrow> json result" where
  "get_key evt k = (case jget evt k of None \<Rightarrow> Inl (KeyError k) | Some v \<Rightarrow> Inr v)"

text \<open>
  \<open>os.strerror(-ret) if -ret in errno.errorcode else "unknown error"\<close>: a float equal to
  an error number is found in the dictionary but refused by \<open>os.strerror\<close>.
\<close>

definition err_msg :: "py_host \<Rightarrow> json \<Rightarrow> string result" where
  "err_msg P ret =
     (let known = (\<lambda>n. Inr (if host_errorcode P n then host_strerror P n else ''unknown error''))
      in case ret of
           JInt r \<Rightarrow> known (- r)
         | JBool b \<Rightarrow> known (if b then - 1 else 0)
         | JDec m k \<Rightarrow> (let x = - dec_float m k in
             if of_int \<lfloor>x\<rfloor> = x \<and> host_errorcode P \<lfloor>x\<rfloor> then Inl TypeError else Inr ''unknown error'')
         | JSpecial s \<Rightarrow> Inr ''unknown error''
         | _ \<Rightarrow> Inl TypeError)"

text \<open>\<open>hex(ret)\<close> when \<open>ret >= 0x10000\<close>, else \<open>str(ret)\<close>.\<close>

definition ret_text :: "py_host \<Rightarrow> json \<Rightarrow> string result" where
  "ret_text P ret =
     (case ret of
        JInt r \<Rightarrow> Inr (if 0x10000 \<le> r then py_hex r else py_str_int r)
      | JBool b \<Rightarrow> Inr (py_repr P ret)
      | JDec m k \<Rightarrow> if 0x10000 \<le> dec_float m k then Inl TypeError else Inr (py_repr P ret)
      | JSpecial s \<Rightarrow> if s = ''Infinity'' then Inl TypeError else Inr (py_repr P ret)
      | _ \<Rightarrow> Inl TypeError)"

definition format_ret :: "py_host \<Rightarrow> (string \<times> json) list \<Rightarrow> string result" where
  "format_ret P evt =
     (case jget evt ''unfinished'' of
        Some why \<Rightarrow> Inr ('' = ? <unfinished: '' @ py_str P why @ ''>'')
      | None \<Rightarrow>
          (case jget evt ''ret'' of
             None \<Rightarrow> Inr []
           | Some ret \<Rightarrow>
               bind_result
                 (case jget evt ''err'' of
                    Some e \<Rightarrow> bind_result (err_msg P ret) (\<lambda>msg.
                      Inr (py_str P ret @ '' '' @ py_str P e @ '' ('' @ msg @ '')''))
                  | None \<Rightarrow> ret_text P ret)
                 (\<lambda>res. bind_result (get_key evt ''dur_us'') (\<lambda>d.
                    Inr ('' = '' @ res @ ''  <'' @ py_str P d @ ''us>'')))))"

text \<open>The timestamp as a float, and its milliseconds: \<open>int((ts % 1) * 1000)\<close>.\<close>

definition ts_value :: "json \<Rightarrow> rat result" where
  "ts_value j =
     (case j of
        JInt i \<Rightarrow> Inr (of_int i)
      | JBool b \<Rightarrow> Inr (if b then 1 else 0)
      | JDec m k \<Rightarrow> Inr (dec_float m k)
      | JSpecial s \<Rightarrow> Inl ValueError
      | _ \<Rightarrow> Inl TypeError)"

definition millis :: "rat \<Rightarrow> int" where
  "millis t = \<lfloor>fl64 (fl64 (t - of_int \<lfloor>t\<rfloor>) * 1000)\<rfloor>"

text \<open>\<open>", ".join(v)\<close> for a parsed value.\<close>

definition join_value :: "json \<Rightarrow> string result" where
  "join_value v =
     (case v of
        JArr xs \<Rightarrow> bind_result (map_result (\<lambda>x. case x of JStr s \<Rightarrow> Inr s | _ \<Rightarrow> Inl TypeError) xs)
                     (\<lambda>ss. Inr (join '', '' ss))
      | JStr s \<Rightarrow> Inr (join '', '' (map (\<lambda>c. [c]) s))
      | JObj kvs \<Rightarrow> Inr (join '', '' (map fst (dict_items kvs)))
      | _ \<Rightarrow> Inl TypeError)"

definition format_event :: "py_host \<Rightarrow> (string \<times> json) list \<Rightarrow> string result" where
  "format_event P evt =
     bind_result (ts_value (case jget evt ''ts'' of None \<Rightarrow> JDec 0 1 | Some v \<Rightarrow> v)) (\<lambda>ts.
     bind_result (host_hms P ts) (\<lambda>hms.
     bind_result (join_value (case jget evt ''args'' of None \<Rightarrow> JArr [] | Some v \<Rightarrow> v)) (\<lambda>args.
     bind_result (format_ret P evt) (\<lambda>r.
       (let t = hms @ ''.'' @ zero_pad 3 (millis ts);
            name = (case jget evt ''syscall'' of
                      Some v \<Rightarrow> py_str P v
                    | None \<Rightarrow> ''syscall_'' @ py_str P (case jget evt ''num'' of None \<Rightarrow> JNull | Some v \<Rightarrow> v))
        in Inr (''['' @ t @ ''] '' @ name @ ''('' @ args @ '')'' @ r))))))"

section \<open>Following the file\<close>

definition TAIL_POLL_S :: rat where
  "TAIL_POLL_S = 5 / 100"

text \<open>
  \<open>readline\<close> at position \<open>pos\<close> of the file as it is now; \<open>None\<close> when there is
  nothing, or only part of a line, which \<open>seek(pos)\<close> leaves for the next round.
\<close>

definition next_line :: "nat \<Rightarrow> string \<Rightarrow> string option" where
  "next_line pos content =
     (let rest = drop pos content in
      if CHR 0x0A \<in> set rest then Some (takeWhile (\<lambda>c. c \<noteq> CHR 0x0A) rest @ [CHR 0x0A]) else None)"

text \<open>\<open>deadline is not None and time.monotonic() >= deadline\<close>; the clock is not read without one.\<close>

definition past :: "rat option \<Rightarrow> bool io" where
  "past deadline = (case deadline of
     None \<Rightarrow> io_return False
   | Some d \<Rightarrow> io_bind (act_time Monotonic) (\<lambda>t. io_return (d \<le> t)))"

text \<open>
  \<open>try: ... except KeyboardInterrupt\<close> around an action that Ctrl-C can interrupt:
  \<open>None\<close> when it did.
\<close>

definition or_interrupt :: "'a io \<Rightarrow> 'a option io" where
  "or_interrupt m =
     io_catch (io_bind m (\<lambda>x. io_return (Some x)))
       (\<lambda>e. if e = KeyboardInterrupt then io_return None else io_raise e)"

text \<open>
  The body of the loop of \<open>run_interactive\<close> for one line: the new value of
  \<open>ready_seen\<close>, how many events it counted, and whether Ctrl-C ended the loop while the
  line was being shown, which is after it counted.
\<close>

definition accept_note :: string where
  "accept_note = ''[VMI] first connection accepted -- nginx is ready, showing syscalls from here on'' @ [CHR 0x0A]"

definition show_line :: "py_host \<Rightarrow> bool \<Rightarrow> string \<Rightarrow> (bool \<times> nat \<times> bool) io" where
  "show_line P ready line =
     (case json_loads line of
        Inl e \<Rightarrow> io_return (ready, 0, False)
      | Inr (JObj evt) \<Rightarrow>
          if \<not> ready \<and> jget evt ''syscall'' \<noteq> Some (JStr ''accept4'') then io_return (False, 1, False)
          else
            io_bind (or_interrupt
              (io_then (io_when (\<not> ready) (py_print accept_note))
                (io_bind (io_lift (format_event P evt)) py_print)))
              (\<lambda>done. io_return (True, 1, done = None))
      | Inr _ \<Rightarrow> io_raise AttributeError)"

text \<open>
  \<open>tail_lines\<close> and its consumer as one loop: position in the file, \<open>ready_seen\<close> and
  the number of events so far; the result says whether Ctrl-C ended it.
\<close>

partial_function (option) tail_wait :: "string \<Rightarrow> rat option \<Rightarrow> bool option io" where
  "tail_wait path deadline w h =
     io_bind (or_interrupt (act_bool (Exists path))) (\<lambda>e.
       case e of
         None \<Rightarrow> io_return None
       | Some there \<Rightarrow>
           if there then io_return (Some True)
           else io_bind (past deadline) (\<lambda>late.
             if late then io_return (Some False)
             else io_bind (or_interrupt (act (Sleep TAIL_POLL_S))) (\<lambda>r.
               case r of None \<Rightarrow> io_return None | Some u \<Rightarrow> tail_wait path deadline))) w h"

partial_function (option) tail_open ::
    "py_host \<Rightarrow> string \<Rightarrow> rat option \<Rightarrow> nat \<Rightarrow> bool \<Rightarrow> nat \<Rightarrow> (nat \<times> bool) io" where
  "tail_open P path deadline pos ready n w h =
     io_bind (past deadline) (\<lambda>late.
       if late then io_return (n, False)
       else io_bind (or_interrupt (act_text (Read_text path))) (\<lambda>r.
         case r of
           None \<Rightarrow> io_return (n, True)
         | Some content \<Rightarrow>
             (case next_line pos content of
                None \<Rightarrow> io_bind (or_interrupt (act (Sleep TAIL_POLL_S))) (\<lambda>r.
                  case r of None \<Rightarrow> io_return (n, True) | Some u \<Rightarrow> tail_open P path deadline pos ready n)
              | Some line \<Rightarrow> io_bind (show_line P ready line) (\<lambda>x.
                  case x of (ready', k, intr) \<Rightarrow>
                    if intr then io_return (n + k, True)
                    else tail_open P path deadline (pos + length line) ready' (n + k))))) w h"

text \<open>The banner, the deadline, the generator after its wait, and the note after Ctrl-C.\<close>

definition view_banner :: "py_host \<Rightarrow> string \<Rightarrow> rat option \<Rightarrow> string" where
  "view_banner P path duration =
     ''[VMI] monitoring syscalls (tailing '' @ path @
       (case duration of
          None \<Rightarrow> []
        | Some d \<Rightarrow> if d = 0 then [] else '', auto-stop in '' @ host_float_str P d @ ''s'') @ '')''"

definition stop_hint :: string where
  "stop_hint = ''[VMI] press Ctrl-C to stop'' @ [CHR 0x0A]"

definition ctrl_c_note :: string where
  "ctrl_c_note = CHR 0x0A # ''[VMI] Ctrl-C received, stopping...''"

definition view_deadline :: "rat option \<Rightarrow> rat option io" where
  "view_deadline duration =
     (case duration of
        None \<Rightarrow> io_return None
      | Some d \<Rightarrow> io_bind (act_time Monotonic) (\<lambda>t. io_return (Some (t + d))))"

definition tail_events :: "py_host \<Rightarrow> string \<Rightarrow> rat option \<Rightarrow> bool \<Rightarrow> bool option \<Rightarrow> (nat \<times> bool) io" where
  "tail_events P path deadline ready e =
     (case e of
        None \<Rightarrow> io_return (0, True)
      | Some there \<Rightarrow> if there then tail_open P path deadline 0 ready 0 else io_return (0, False))"

definition run_interactive :: "py_host \<Rightarrow> string \<Rightarrow> rat option \<Rightarrow> bool \<Rightarrow> nat io" where
  "run_interactive P path duration show_after_ready =
     io_bind (view_deadline duration) (\<lambda>deadline.
     io_then (py_print (view_banner P path duration))
     (io_then (py_print stop_hint)
     (io_bind (tail_wait path deadline) (\<lambda>e.
      io_bind (tail_events P path deadline (\<not> show_after_ready) e) (\<lambda>x.
        io_then (io_when (snd x) (py_print ctrl_c_note)) (io_return (fst x)))))))"

section \<open>Waiting for the arm message\<close>

definition arm_marked :: "string \<Rightarrow> bool" where
  "arm_marked txt \<longleftrightarrow> contains txt ''readback=0xcc confirmed'' \<or> contains txt ''first real hit observed''"

partial_function (option) armed_loop :: "string \<Rightarrow> rat \<Rightarrow> bool io" where
  "armed_loop path deadline w h =
     io_bind (act_time Monotonic) (\<lambda>t.
       if t < deadline then
         io_bind (act_bool (Exists path)) (\<lambda>e.
           io_bind (if e then act_text (Read_text path) else io_return []) (\<lambda>txt.
             if e \<and> arm_marked txt
             then io_return True
             else io_then (act (Sleep (1 / 10))) (armed_loop path deadline)))
       else io_return False) w h"

definition wait_for_armed_message :: "string \<Rightarrow> rat \<Rightarrow> bool io" where
  "wait_for_armed_message path timeout_s =
     io_bind (act_time Monotonic) (\<lambda>t. armed_loop path (t + timeout_s))"

end
