(* ===== verification/Live_View_Proofs.thy ===== *)
theory Live_View_Proofs
  imports Live_View "HOL-Library.Sublist"
begin

text \<open>
  What the terminal view shows and that it comes back: the lines printed are the rendering of
  a beginning of the capture file's complete lines, each once and in order; with a deadline
  both loops return; the arm message is reported only if the debug log has it.
\<close>

section \<open>What the view shows\<close>

text \<open>The complete lines of a text, newline included.\<close>

definition complete_lines :: "string \<Rightarrow> string list" where
  "complete_lines s = map (\<lambda>l. l @ [CHR 0x0A]) (butlast (split_on (CHR 0x0A) s))"

lemma complete_lines_none: "CHR 0x0A \<notin> set s \<Longrightarrow> complete_lines s = []"
  by (simp add: complete_lines_def split_on_no_sep)

lemma complete_lines_append:
  "CHR 0x0A \<notin> set l \<Longrightarrow> complete_lines (l @ CHR 0x0A # r) = (l @ [CHR 0x0A]) # complete_lines r"
  by (simp add: complete_lines_def split_on_append)

lemma next_line_Some:
  assumes "next_line pos content = Some line"
  shows "\<exists>l. line = l @ [CHR 0x0A] \<and> CHR 0x0A \<notin> set l \<and>
    drop pos content = line @ drop (pos + length line) content"
proof -
  let ?rest = "drop pos content"
  have nl: "CHR 0x0A \<in> set ?rest" and line: "line = takeWhile (\<lambda>c. c \<noteq> CHR 0x0A) ?rest @ [CHR 0x0A]"
    using assms by (simp_all add: next_line_def Let_def split: if_splits)
  from nl obtain l r where lr: "?rest = l @ CHR 0x0A # r" "CHR 0x0A \<notin> set l"
    by (meson split_list_first)
  then have "takeWhile (\<lambda>c. c \<noteq> CHR 0x0A) ?rest = l" by (simp add: takeWhile_append2) (auto simp: takeWhile_append)
  with line have "line = l @ [CHR 0x0A]" by simp
  moreover have "drop (pos + length line) content = drop (length line) ?rest" by (simp add: add.commute)
  ultimately show ?thesis using lr by simp
qed

lemma next_line_complete:
  assumes "next_line pos content = Some line"
  shows "complete_lines (drop pos content) = line # complete_lines (drop (pos + length line) content)"
proof -
  obtain l where "line = l @ [CHR 0x0A]" "CHR 0x0A \<notin> set l"
    "drop pos content = line @ drop (pos + length line) content"
    using next_line_Some [OF assms] by blast
  then show ?thesis using complete_lines_append [of l] by (metis append.assoc append_Cons append_Nil)
qed

text \<open>A read of an earlier, shorter state of the file gives the same line, if it gives one.\<close>

lemma next_line_take:
  assumes "next_line pos (take k content) = Some line"
  shows "next_line pos content = Some line"
proof -
  obtain l where l: "line = l @ [CHR 0x0A]" "CHR 0x0A \<notin> set l"
    "drop pos (take k content) = line @ drop (pos + length line) (take k content)"
    using next_line_Some [OF assms] by blast
  have "drop pos (take k content @ drop k content) =
      drop pos (take k content) @ drop (pos - length (take k content)) (drop k content)"
    by (rule drop_append)
  then have "\<exists>r. drop pos content = drop pos (take k content) @ r" by auto
  then obtain r where "drop pos content = l @ CHR 0x0A # r" using l by auto
  with l(1,2) show ?thesis
    by (simp add: next_line_def Let_def takeWhile_append takeWhile_eq_all_conv)
qed

text \<open>
  The effect of \<open>show_line\<close> as a value: what is printed, and the new counters. When
  Ctrl-C cuts the printing short, only a beginning of that has been attempted.
\<close>

definition show_text :: "py_host \<Rightarrow> bool \<Rightarrow> string \<Rightarrow> (string list \<times> bool \<times> nat) result" where
  "show_text P ready line =
     (case json_loads line of
        Inl e \<Rightarrow> Inr ([], ready, 0)
      | Inr (JObj evt) \<Rightarrow>
          if ready then bind_result (format_event P evt) (\<lambda>s. Inr ([s], True, 1))
          else if jget evt ''syscall'' = Some (JStr ''accept4'') then
            bind_result (format_event P evt) (\<lambda>s. Inr ([accept_note, s], True, 1))
          else Inr ([], False, 1)
      | Inr _ \<Rightarrow> Inl AttributeError)"

definition begun :: "py_host \<Rightarrow> bool \<Rightarrow> string \<Rightarrow> string list \<Rightarrow> bool" where
  "begun P ready line part \<longleftrightarrow>
     (\<forall>whole ready' k. show_text P ready line = Inr (whole, ready', k) \<longrightarrow> part \<noteq> [] \<and> prefix part whole)"

lemma or_interrupt_Some:
  "or_interrupt m w h = Some (Inr r, h') \<longleftrightarrow>
     (\<exists>x. r = Some x \<and> m w h = Some (Inr x, h')) \<or> r = None \<and> m w h = Some (Inl KeyboardInterrupt, h')"
  by (auto simp: or_interrupt_def io_catch_def io_bind_def io_return_def io_raise_def split: option.splits sum.splits)

lemma show_line_Some:
  assumes "show_line P ready line w h = Some (Inr (r, k, i), h')"
  shows "\<exists>outs. h' = h @ map Print outs \<and>
    (if i then k = 1 \<and> begun P ready line outs else show_text P ready line = Inr (outs, r, k))"
proof (cases "json_loads line")
  case (Inl e)
  with assms show ?thesis by (auto simp: show_line_def show_text_def io_return_def)
next
  case (Inr v)
  show ?thesis
  proof (cases v)
    case (JObj evt)
    show ?thesis
    proof (cases "\<not> ready \<and> jget evt ''syscall'' \<noteq> Some (JStr ''accept4'')")
      case True
      with assms Inr JObj show ?thesis by (auto simp: show_line_def show_text_def io_return_def)
    next
      case False
      let ?show = "io_then (io_when (\<not> ready) (py_print accept_note)) (io_bind (io_lift (format_event P evt)) py_print)"
      from False assms Inr JObj obtain fin where shown: "or_interrupt ?show w h = Some (Inr fin, h')"
        and rki: "r" "k = 1" "i = (fin = None)"
        by (auto simp: show_line_def io_bind_Some io_return_def)
      let ?heads = "if ready then [] else [accept_note]"
      have rendering: "show_text P ready line = bind_result (format_event P evt) (\<lambda>s. Inr (?heads @ [s], True, 1))"
        using False Inr JObj by (auto simp: show_text_def)
      show ?thesis
      proof (cases fin)
        case (Some u)
        with shown have "?show w h = Some (Inr (), h')" by (simp add: or_interrupt_Some)
        then obtain s where "format_event P evt = Inr s" "h' = h @ map Print (?heads @ [s])"
          by (auto simp: io_then_Some io_bind_Some io_when_def py_print_def act_def io_lift_def io_return_def
              split: if_splits)
        with rendering rki Some show ?thesis by (intro exI [of _ "?heads @ [s]"]) simp
      next
        case None
        with shown have "?show w h = Some (Inl KeyboardInterrupt, h')" by (simp add: or_interrupt_Some)
        then consider "\<not> ready" "h' = h @ map Print ?heads"
          | "format_event P evt = Inl KeyboardInterrupt" "h' = h @ map Print ?heads"
          | s where "format_event P evt = Inr s" "h' = h @ map Print (?heads @ [s])"
          by (auto simp: io_then_Some io_bind_Some io_when_def py_print_def act_def io_lift_def io_return_def
              split: if_splits)
        then obtain part where "h' = h @ map Print part" "begun P ready line part"
        proof cases
          case 1
          with rendering that [of ?heads] show thesis by (auto simp: begun_def bind_result_def split: sum.splits)
        next
          case 2
          with rendering that [of ?heads] show thesis by (auto simp: begun_def)
        next
          case (3 s)
          with rendering that [of "?heads @ [s]"] show thesis by (auto simp: begun_def)
        qed
        with rki None show ?thesis by auto
      qed
    qed
  qed (use assms Inr in \<open>simp_all add: show_line_def io_raise_def\<close>)
qed

fun view :: "py_host \<Rightarrow> bool \<Rightarrow> string list \<Rightarrow> (string list \<times> bool \<times> nat) result" where
  "view P ready [] = Inr ([], ready, 0)"
| "view P ready (l # ls) =
     bind_result (show_text P ready l) (\<lambda>(outs, ready', k).
     bind_result (view P ready' ls) (\<lambda>(outs', ready'', k'). Inr (outs @ outs', ready'', k + k')))"

definition is_print :: "action \<Rightarrow> bool" where
  "is_print a = (case a of Print _ \<Rightarrow> True | _ \<Rightarrow> False)"

definition prints :: "trace \<Rightarrow> string list" where
  "prints h = concat (map (\<lambda>a. case a of Print s \<Rightarrow> [s] | _ \<Rightarrow> []) h)"

lemma prints_simps [simp]:
  "prints [] = []" "prints (h @ k) = prints h @ prints k" "prints (map Print outs) = outs"
  "prints [Print s] = [s]" "prints [Sleep t] = []" "prints [Monotonic] = []" "prints [Read_text p] = []"
  "prints [Exists p] = []"
  "prints (Read_text p # h) = prints h"
  by (simp_all add: prints_def comp_def)

lemma past_Some:
  assumes "past deadline w h = Some (r, h')"
  shows "(\<exists>b. r = Inr b) \<and> (\<exists>as. h' = h @ as \<and> prints as = [])"
  using assms by (auto simp: past_def io_defs split: option.splits)

lemma or_interrupt_act:
  "or_interrupt (act a) w h = Some (case w_unit w (h @ [a]) of
      Inr u \<Rightarrow> Inr (Some u) | Inl e \<Rightarrow> if e = KeyboardInterrupt then Inr None else Inl e, h @ [a])"
  "or_interrupt (act_text a) w h = Some (case w_text w (h @ [a]) of
      Inr s \<Rightarrow> Inr (Some s) | Inl e \<Rightarrow> if e = KeyboardInterrupt then Inr None else Inl e, h @ [a])"
  "or_interrupt (act_bool a) w h = Some (case w_bool w (h @ [a]) of
      Inr b \<Rightarrow> Inr (Some b) | Inl e \<Rightarrow> if e = KeyboardInterrupt then Inr None else Inl e, h @ [a])"
  by (simp_all add: or_interrupt_def io_defs split: sum.split)

text \<open>
  The file while QEMU appends to it: every read that succeeds sees a beginning of the text
  \<open>C\<close> that has been written in the end.
\<close>

definition growing_file :: "world \<Rightarrow> string \<Rightarrow> string \<Rightarrow> bool" where
  "growing_file w path C \<longleftrightarrow>
     (\<forall>h c. w_text w (h @ [Read_text path]) = Inr c \<longrightarrow> (\<exists>k. c = take k C))"

text \<open>
  What has been shown of the lines of the file: some of them in full, and possibly the
  beginning of the next one.
\<close>

inductive seen :: "py_host \<Rightarrow> bool \<Rightarrow> string list \<Rightarrow> string list \<Rightarrow> nat \<Rightarrow> bool \<Rightarrow> bool" for P where
  seen_stop: "seen P ready ls [] 0 intr"
| seen_line: "show_text P ready l = Inr (outs, ready', k) \<Longrightarrow> seen P ready' ls outs' n intr \<Longrightarrow>
    seen P ready (l # ls) (outs @ outs') (k + n) intr"
| seen_cut: "begun P ready l part \<Longrightarrow> seen P ready (l # ls) part 1 True"

lemma seen_view:
  "seen P ready ls outs n intr \<Longrightarrow> \<exists>m full ready' k part. view P ready (take m ls) = Inr (full, ready', k) \<and>
     outs = full @ part \<and>
     (part = [] \<and> n = k \<or> intr \<and> m < length ls \<and> n = Suc k \<and> begun P ready' (ls ! m) part)"
proof (induction rule: seen.induct)
  case (seen_stop ready ls intr)
  show ?case by (intro exI [of _ 0] exI [of _ "[]"] exI [of _ ready]) simp
next
  case (seen_line ready l outs ready' k ls outs' n intr)
  then obtain m full r k' part where "view P ready' (take m ls) = Inr (full, r, k')" "outs' = full @ part"
    "part = [] \<and> n = k' \<or> intr \<and> m < length ls \<and> n = Suc k' \<and> begun P r (ls ! m) part"
    by blast
  with seen_line(1) show ?case
    by (intro exI [of _ "Suc m"] exI [of _ "outs @ full"] exI [of _ r] exI [of _ "k + k'"] exI [of _ part]) auto
next
  case (seen_cut ready l part ls)
  then show ?case
    by (intro exI [of _ 0] exI [of _ "[]"] exI [of _ ready] exI [of _ 0] exI [of _ part]) simp
qed

text \<open>One round of the loop, given what the rounds after it do; induction over the rounds.\<close>

abbreviation tail_round ::
    "py_host \<Rightarrow> string \<Rightarrow> rat option \<Rightarrow> (nat \<Rightarrow> bool \<Rightarrow> nat \<Rightarrow> (nat \<times> bool) io) \<Rightarrow> nat \<Rightarrow> bool \<Rightarrow> nat \<Rightarrow>
     (nat \<times> bool) io" where
  "tail_round P path deadline f pos ready n \<equiv>
     io_bind (past deadline) (\<lambda>late.
       if late then io_return (n, False)
       else io_bind (or_interrupt (act_text (Read_text path))) (\<lambda>r.
         case r of
           None \<Rightarrow> io_return (n, True)
         | Some content \<Rightarrow>
             (case next_line pos content of
                None \<Rightarrow> io_bind (or_interrupt (act (Sleep TAIL_POLL_S))) (\<lambda>r.
                  case r of None \<Rightarrow> io_return (n, True) | Some u \<Rightarrow> f pos ready n)
              | Some line \<Rightarrow> io_bind (show_line P ready line) (\<lambda>x.
                  case x of (ready', k, intr) \<Rightarrow>
                    if intr then io_return (n + k, True) else f (pos + length line) ready' (n + k)))))"

lemma tail_open_induct:
  assumes run: "tail_open P path deadline pos ready n w h = Some y"
    and round: "\<And>f pos ready n h y.
      (\<And>pos ready n h y. f pos ready n w h = Some y \<Longrightarrow> Q pos ready n h y) \<Longrightarrow>
      tail_round P path deadline f pos ready n w h = Some y \<Longrightarrow> Q pos ready n h y"
  shows "Q pos ready n h y"
proof -
  let ?R = "\<lambda>x y. case x of (((((((P', path'), deadline'), pos), ready), n), w'), h) \<Rightarrow>
    P' = P \<longrightarrow> path' = path \<longrightarrow> deadline' = deadline \<longrightarrow> w' = w \<longrightarrow> Q pos ready n h y"
  have "?R (((((((P, path), deadline), pos), ready), n), w), h) y"
    using run
  proof (rule tail_open.raw_induct [where Pa = "?R", rotated])
    fix f and P' :: py_host and path' deadline' pos ready n w' h y
    assume IH: "\<And>P' path' deadline' pos ready n w' h y. f P' path' deadline' pos ready n w' h = Some y \<Longrightarrow>
        ?R (((((((P', path'), deadline'), pos), ready), n), w'), h) y"
      and body: "tail_round P' path' deadline' (f P' path' deadline') pos ready n w' h = Some y"
    have IH': "P' = P \<Longrightarrow> path' = path \<Longrightarrow> deadline' = deadline \<Longrightarrow> w' = w \<Longrightarrow>
        f P' path' deadline' pos ready n w h = Some y \<Longrightarrow> Q pos ready n h y" for pos ready n h y
      using IH by fastforce
    show "?R (((((((P', path'), deadline'), pos), ready), n), w'), h) y"
      unfolding prod.case
    proof (intro impI)
      assume eq: "P' = P" "path' = path" "deadline' = deadline" "w' = w"
      show "Q pos ready n h y"
        by (rule round [OF IH' [OF eq, unfolded eq] body [unfolded eq]])
    qed
  qed
  then show ?thesis by simp
qed

text \<open>The ways a round can go.\<close>

lemma tail_round_cases:
  assumes "tail_round P path deadline f pos ready n w h = Some (Inr (n', intr), h')"
  obtains as where "n' = n" "h' = h @ as" "prints as = []"
    | as where "f pos ready n w (h @ as) = Some (Inr (n', intr), h')" "prints as = []"
    | as c l r k i h1 where "w_text w (h @ as @ [Read_text path]) = Inr c" "prints as = []" "next_line pos c = Some l"
        "show_line P ready l w (h @ as @ [Read_text path]) = Some (Inr (r, k, i), h1)"
        "if i then n' = n + k \<and> intr \<and> h' = h1 else f (pos + length l) r (n + k) w h1 = Some (Inr (n', intr), h')"
proof -
  from assms obtain late h1 where p: "past deadline w h = Some (Inr late, h1)" by (auto simp: io_bind_Some dest: past_Some)
  from past_Some [OF p] obtain as where as: "h1 = h @ as" "prints as = []" by blast
  let ?h2 = "h @ as @ [Read_text path]" and ?h3 = "h @ as @ [Read_text path, Sleep TAIL_POLL_S]"
  have quiet: "prints (as @ [Read_text path]) = []" "prints (as @ [Read_text path, Sleep TAIL_POLL_S]) = []"
    using as prints_simps(2) [of "[Read_text path]" "[Sleep TAIL_POLL_S]"] by simp_all
  consider "late" | "\<not> late" "w_text w ?h2 = Inl KeyboardInterrupt"
    | c where "\<not> late" "w_text w ?h2 = Inr c" "next_line pos c = None"
    | c l where "\<not> late" "w_text w ?h2 = Inr c" "next_line pos c = Some l"
    using assms p as
    by (cases "w_text w ?h2") (auto simp: io_bind_Some or_interrupt_act split: if_splits option.splits)
  then show thesis
  proof cases
    case 1
    with assms p have "n' = n" "h' = h1" by (auto simp: io_bind_Some io_return_def)
    with as show thesis using that(1) by blast
  next
    case 2
    with assms p as have "n' = n" "h' = ?h2" by (auto simp: io_bind_Some or_interrupt_act io_return_def)
    with quiet(1) show thesis using that(1) [of "as @ [Read_text path]"] by simp
  next
    case (3 c)
    with assms p as have "n' = n \<and> h' = ?h3 \<or> f pos ready n w ?h3 = Some (Inr (n', intr), h')"
      by (cases "w_unit w ?h3") (auto simp: io_bind_Some or_interrupt_act io_return_def split: if_splits)
    with quiet(2) show thesis
      using that(1,2) [of "as @ [Read_text path, Sleep TAIL_POLL_S]"] by auto
  next
    case (4 c l)
    with assms p as obtain r k i h1 where "show_line P ready l w ?h2 = Some (Inr (r, k, i), h1)"
      "(if i then io_return (n + k, True) else f (pos + length l) r (n + k)) w h1 = Some (Inr (n', intr), h')"
      by (auto simp: io_bind_Some or_interrupt_act split: prod.splits)
    with 4 as(2) show thesis using that(3) [of as c l r k i h1] by (auto simp: io_return_def split: if_splits)
  qed
qed

lemma tail_open_shows:
  assumes grow: "growing_file w path C"
    and run: "tail_open P path deadline pos ready n w h = Some (Inr (n', intr), h')"
  shows "\<exists>outs k. seen P ready (complete_lines (drop pos C)) outs k intr \<and> n' = n + k \<and> prints h' = prints h @ outs"
proof -
  define Q where "Q = (\<lambda>pos ready n h (y :: (nat \<times> bool) result \<times> trace). \<forall>n' intr h'. y = (Inr (n', intr), h') \<longrightarrow>
    (\<exists>outs k. seen P ready (complete_lines (drop pos C)) outs k intr \<and> n' = n + k \<and> prints h' = prints h @ outs))"
  have "Q pos ready n h (Inr (n', intr), h')"
    using run
  proof (rule tail_open_induct [where Q = Q])
    fix f pos ready n h and y :: "(nat \<times> bool) result \<times> trace"
    assume IH: "\<And>pos ready n h y. f pos ready n w h = Some y \<Longrightarrow> Q pos ready n h y"
      and body: "tail_round P path deadline f pos ready n w h = Some y"
    show "Q pos ready n h y"
      unfolding Q_def
    proof (intro allI impI)
      fix n' intr h'
      assume "y = (Inr (n', intr), h')"
      with body have "tail_round P path deadline f pos ready n w h = Some (Inr (n', intr), h')" by simp
      then show "\<exists>outs k. seen P ready (complete_lines (drop pos C)) outs k intr \<and> n' = n + k \<and> prints h' = prints h @ outs"
      proof (cases rule: tail_round_cases)
        case (1 as)
        then show ?thesis using seen_stop by fastforce
      next
        case (2 as)
        from IH [OF 2(1)] 2(2) show ?thesis by (simp add: Q_def)
      next
        case (3 as c l r k i h1)
        from 3(1) grow obtain j where "c = take j C" unfolding growing_file_def by (metis append.assoc)
        with 3(3) have "next_line pos (take j C) = Some l" by simp
        then have "next_line pos C = Some l" by (rule next_line_take)
        note lines = next_line_complete [OF this]
        from show_line_Some [OF 3(4)] obtain outs where outs: "prints h1 = prints h @ outs"
          "if i then k = 1 \<and> begun P ready l outs else show_text P ready l = Inr (outs, r, k)"
          using 3(2) by auto
        show ?thesis
        proof (cases i)
          case True
          with outs 3(5) have "seen P ready (l # complete_lines (drop (pos + length l) C)) outs k intr"
            by (auto intro: seen_cut [unfolded One_nat_def])
          with True outs(1) 3(5) lines show ?thesis by auto
        next
          case False
          with 3(5) IH [of "pos + length l" r "n + k" h1 "(Inr (n', intr), h')"] obtain outs' k' where
            "seen P r (complete_lines (drop (pos + length l) C)) outs' k' intr" "n' = n + k + k'"
            "prints h' = prints h1 @ outs'"
            by (auto simp: Q_def)
          with False outs lines show ?thesis
            by (intro exI [of _ "outs @ outs'"] exI [of _ "k + k'"]) (auto intro: seen_line)
        qed
      qed
    qed
  qed
  then show ?thesis by (simp add: Q_def)
qed

section \<open>The view comes back\<close>

definition slept :: "trace \<Rightarrow> rat" where
  "slept h = sum_list (map (\<lambda>a. case a of Sleep t \<Rightarrow> t | _ \<Rightarrow> 0) h)"

lemma slept_simps [simp]:
  "slept [] = 0" "slept (h @ k) = slept h + slept k" "slept [Sleep t] = t" "slept [Monotonic] = 0"
  "slept [Read_text p] = 0" "slept [Exists p] = 0" "slept (map Print outs) = 0"
  "slept (Sleep t # h) = t + slept h" "slept (Monotonic # h) = slept h" "slept (Read_text p # h) = slept h"
  "slept (Exists p # h) = slept h"
  by (simp_all add: slept_def comp_def)

text \<open>The monotonic clock advances by at least the time slept.\<close>

definition clock_runs :: "world \<Rightarrow> bool" where
  "clock_runs w \<longleftrightarrow> (\<forall>h. slept h \<le> w_time w (h @ [Monotonic]))"

text \<open>The rounds a loop with a deadline may still sleep.\<close>

definition naps :: "rat \<Rightarrow> rat \<Rightarrow> trace \<Rightarrow> nat" where
  "naps nap d h = nat \<lceil>(d - slept h) / nap\<rceil>"

lemma naps_less:
  assumes "0 < nap" "slept h < d" "slept h' = slept h + nap"
  shows "naps nap d h' < naps nap d h"
proof -
  have "(d - slept h') / nap = (d - slept h) / nap - 1" using assms by (simp add: field_simps)
  then have "\<lceil>(d - slept h') / nap\<rceil> = \<lceil>(d - slept h) / nap\<rceil> - 1" by simp
  moreover have "0 < (d - slept h) / nap" using assms by simp
  then have "0 < \<lceil>(d - slept h) / nap\<rceil>" by simp
  ultimately show ?thesis by (simp add: naps_def)
qed

lemma naps_same: "slept h' = slept h \<Longrightarrow> naps nap d h' = naps nap d h"
  by (simp add: naps_def)

lemma past_deadline:
  assumes "clock_runs w"
  shows "\<exists>late. past (Some d) w h = Some (Inr late, h @ [Monotonic]) \<and> (\<not> late \<longrightarrow> slept h < d)"
  using assms by (force simp: past_def io_defs clock_runs_def not_le intro: le_less_trans)

lemma past_only [io_rules]: "P Monotonic \<Longrightarrow> io_only P (past deadline)"
  by (auto simp: past_def intro!: io_rules split: option.split)

lemma or_interrupt_only [io_rules]: "io_only P m \<Longrightarrow> io_only P (or_interrupt m)"
  by (auto simp: or_interrupt_def intro!: io_rules)

lemma show_line_total: "\<exists>r h'. show_line P ready l w h = Some (r, h') \<and> slept h' = slept h"
proof -
  have "io_only (\<lambda>a. case a of Sleep t \<Rightarrow> False | _ \<Rightarrow> True) (show_line P ready l)"
    by (auto simp: show_line_def split: sum.split json.split intro!: io_rules)
  moreover have "\<exists>r h'. show_line P ready l w h = Some (r, h')"
    by (auto simp: show_line_def or_interrupt_def io_defs split: sum.split json.split)
  ultimately obtain r as where "show_line P ready l w h = Some (r, h @ as)"
    "list_all (\<lambda>a. case a of Sleep t \<Rightarrow> False | _ \<Rightarrow> True) as"
    by (metis io_onlyD)
  moreover from this(2) have "slept as = 0"
    by (induction as) (auto simp: slept_def split: action.splits)
  ultimately show ?thesis by auto
qed

lemma tail_open_returns:
  assumes clock: "clock_runs w" and grow: "growing_file w path C"
  shows "(length C - pos) + naps TAIL_POLL_S d h \<le> N \<Longrightarrow>
    \<exists>y. tail_open P path (Some d) pos ready n w h = Some y"
proof (induction N arbitrary: pos ready n h rule: less_induct)
  case (less N)
  obtain late where late: "past (Some d) w h = Some (Inr late, h @ [Monotonic])" "\<not> late \<Longrightarrow> slept h < d"
    using past_deadline [OF clock] by blast
  let ?h2 = "(h @ [Monotonic]) @ [Read_text path]" and ?h3 = "((h @ [Monotonic]) @ [Read_text path]) @ [Sleep TAIL_POLL_S]"
  note unfold = tail_open.simps [of P path "Some d" pos ready n w h]
  show ?case
  proof (cases "late \<or> (\<exists>e. w_text w ?h2 = Inl e)")
    case True
    then show ?thesis
      by (auto simp: unfold io_bind_def late(1) or_interrupt_act io_return_def)
  next
    case False
    then obtain c where c: "w_text w ?h2 = Inr c" by (cases "w_text w ?h2") auto
    obtain k where k: "c = take k C" using grow c unfolding growing_file_def by blast
    show ?thesis
    proof (cases "next_line pos c")
      case None
      have "naps TAIL_POLL_S d ?h3 < naps TAIL_POLL_S d h"
        using late(2) False by (intro naps_less) (simp_all add: TAIL_POLL_S_def)
      then have "(length C - pos) + naps TAIL_POLL_S d ?h3 < N" using less.prems by simp
      from less.IH [OF this order_refl] False None c show ?thesis
        by (auto simp: unfold io_bind_def late(1) or_interrupt_act io_return_def split: sum.split)
    next
      case (Some l)
      then have "next_line pos C = Some l" using next_line_take [of pos k C l] k by simp
      from next_line_Some [OF this] obtain m where m: "l = m @ [CHR 0x0A]"
        "drop pos C = l @ drop (pos + length l) C" by blast
      then have "0 < length l" "length (drop pos C) = length l + length (drop (pos + length l) C)"
        by (simp, metis length_append)
      then have len: "length C - (pos + length l) < length C - pos" by simp
      obtain r h4 where s: "show_line P ready l w ?h2 = Some (r, h4)" "slept h4 = slept ?h2"
        using show_line_total by blast
      have "(length C - (pos + length l)) + naps TAIL_POLL_S d h4 < N"
        using len less.prems naps_same [of h4 h] s(2) by simp
      from less.IH [OF this order_refl] False Some c s(1) show ?thesis
        by (cases r) (auto simp: unfold io_bind_def late(1) or_interrupt_act io_return_def split: prod.split)
    qed
  qed
qed

abbreviation wait_round :: "string \<Rightarrow> rat option \<Rightarrow> (string \<Rightarrow> rat option \<Rightarrow> bool option io) \<Rightarrow> bool option io" where
  "wait_round path deadline f \<equiv>
     io_bind (or_interrupt (act_bool (Exists path))) (\<lambda>e.
       case e of
         None \<Rightarrow> io_return None
       | Some there \<Rightarrow>
           if there then io_return (Some True)
           else io_bind (past deadline) (\<lambda>late.
             if late then io_return (Some False)
             else io_bind (or_interrupt (act (Sleep TAIL_POLL_S))) (\<lambda>r.
               case r of None \<Rightarrow> io_return None | Some u \<Rightarrow> f path deadline)))"

lemma tail_wait_only [io_rules]:
  assumes "A (Exists path)" "A Monotonic" "A (Sleep TAIL_POLL_S)"
  shows "io_only A (tail_wait path deadline)"
  unfolding io_only_def
proof (intro allI impI)
  fix w h r h'
  let ?Q = "\<lambda>p deadline w h y. p = path \<longrightarrow> (\<exists>as. snd y = h @ as \<and> list_all A as)"
  assume run: "tail_wait path deadline w h = Some (r, h')"
  have "?Q path deadline w h (r, h')"
  proof (rule tail_wait.raw_induct [where P = ?Q, OF _ run])
    fix f p deadline w h and y :: "bool option result \<times> trace"
    assume IH: "\<And>p deadline w h y. f p deadline w h = Some y \<Longrightarrow> ?Q p deadline w h y"
      and body: "wait_round p deadline f w h = Some y"
    have f: "io_only A (f path deadline)" unfolding io_only_def using IH by fastforce
    have "io_only A (wait_round path deadline f)"
      by (intro io_rules f assms)
    with body show "?Q p deadline w h y" by (cases y) (auto dest: io_onlyD)
  qed
  then show "\<exists>as. h' = h @ as \<and> list_all A as" by simp
qed

lemma armed_loop_only [io_rules]:
  assumes "A (Exists path)" "A Monotonic" "A (Read_text path)" "A (Sleep (1 / 10))"
  shows "io_only A (armed_loop path deadline)"
  unfolding io_only_def
proof (intro allI impI)
  fix w h r h'
  let ?Q = "\<lambda>p deadline w h y. p = path \<longrightarrow> (\<exists>as. snd y = h @ as \<and> list_all A as)"
  assume run: "armed_loop path deadline w h = Some (r, h')"
  have "?Q path deadline w h (r, h')"
  proof (rule armed_loop.raw_induct [where P = ?Q, OF _ run])
    fix f p deadline w h and y :: "bool result \<times> trace"
    assume IH: "\<And>p deadline w h y. f p deadline w h = Some y \<Longrightarrow> ?Q p deadline w h y"
      and body: "io_bind (act_time Monotonic) (\<lambda>t.
        if t < deadline then
          io_bind (act_bool (Exists p)) (\<lambda>e.
            io_bind (if e then act_text (Read_text p) else io_return []) (\<lambda>txt.
              if e \<and> arm_marked txt then io_return True
              else io_then (act (Sleep (1 / 10))) (f p deadline)))
        else io_return False) w h = Some y"
    have f: "io_only A (f path deadline)" unfolding io_only_def using IH by fastforce
    have "io_only A (io_bind (act_time Monotonic) (\<lambda>t.
        if t < deadline then
          io_bind (act_bool (Exists path)) (\<lambda>e.
            io_bind (if e then act_text (Read_text path) else io_return []) (\<lambda>txt.
              if e \<and> arm_marked txt then io_return True
              else io_then (act (Sleep (1 / 10))) (f path deadline)))
        else io_return False))"
      by (intro io_rules f assms)
    with body show "?Q p deadline w h y" by (cases y) (auto dest: io_onlyD)
  qed
  then show "\<exists>as. h' = h @ as \<and> list_all A as" by simp
qed

lemma tail_wait_quiet: "io_only (\<lambda>a. \<not> is_print a) (tail_wait path deadline)"
  by (intro io_rules) (simp_all add: is_print_def)

lemma no_prints: "list_all (\<lambda>a. \<not> is_print a) as \<Longrightarrow> prints as = []"
  by (induction as) (auto simp: prints_def is_print_def split: action.splits)

lemma tail_wait_returns:
  assumes clock: "clock_runs w"
  shows "\<exists>y. tail_wait path (Some d) w h = Some y"
proof (induction "naps TAIL_POLL_S d h" arbitrary: h rule: less_induct)
  case less
  let ?h1 = "h @ [Exists path]" and ?h3 = "((h @ [Exists path]) @ [Monotonic]) @ [Sleep TAIL_POLL_S]"
  obtain late where late: "past (Some d) w ?h1 = Some (Inr late, ?h1 @ [Monotonic])" "\<not> late \<Longrightarrow> slept ?h1 < d"
    using past_deadline [OF clock] by blast
  note unfold = tail_wait.simps [of path "Some d" w h]
  show ?case
  proof (cases "w_bool w ?h1 = Inr False \<and> \<not> late")
    case True
    then have "naps TAIL_POLL_S d ?h3 < naps TAIL_POLL_S d h"
      using late(2) by (intro naps_less) (simp_all add: TAIL_POLL_S_def)
    from less [OF this] True late(1) show ?thesis
      by (auto simp: unfold io_bind_def or_interrupt_act io_return_def split: sum.split)
  next
    case False
    then show ?thesis
      using late(1) by (auto simp: unfold io_bind_def or_interrupt_act io_return_def split: sum.split)
  qed
qed

section \<open>What the view may do\<close>

lemma show_line_only [io_rules]: "(\<And>s. A (Print s)) \<Longrightarrow> io_only A (show_line P ready l)"
  by (auto simp: show_line_def split: sum.split json.split intro!: io_rules)

lemma tail_open_only [io_rules]:
  assumes "A Monotonic" "A (Read_text path)" "A (Sleep TAIL_POLL_S)" "\<And>s. A (Print s)"
  shows "io_only A (tail_open P path deadline pos ready n)"
  unfolding io_only_def
proof (intro allI impI)
  fix w h r h'
  let ?R = "\<lambda>x y. case x of (((((((P', path'), deadline'), pos), ready), n), w), h) \<Rightarrow>
    path' = path \<longrightarrow> (\<exists>as. snd y = h @ as \<and> list_all A as)"
  assume run: "tail_open P path deadline pos ready n w h = Some (r, h')"
  have "?R (((((((P, path), deadline), pos), ready), n), w), h) (r, h')"
    using run
  proof (rule tail_open.raw_induct [where Pa = "?R", rotated])
    fix f and P' :: py_host and path' deadline' pos ready n w h and y :: "(nat \<times> bool) result \<times> trace"
    assume IH: "\<And>P' path' deadline' pos ready n w h y. f P' path' deadline' pos ready n w h = Some y \<Longrightarrow>
        ?R (((((((P', path'), deadline'), pos), ready), n), w), h) y"
      and body: "tail_round P' path' deadline' (f P' path' deadline') pos ready n w h = Some y"
    have f: "io_only A (f P' path deadline' pos ready n)" for pos ready n
      unfolding io_only_def using IH [of P' path deadline' pos ready n] by fastforce
    have "io_only A (tail_round P' path deadline' (f P' path deadline') pos ready n)"
      by (auto intro!: io_rules f assms split: prod.split)
    with body show "?R (((((((P', path'), deadline'), pos), ready), n), w), h) y"
      by (cases y) (auto dest: io_onlyD)
  qed
  then show "\<exists>as. h' = h @ as \<and> list_all A as" by simp
qed

section \<open>Single rounds, and a run\<close>

lemma tail_open_late:
  "d \<le> w_time w (h @ [Monotonic]) \<Longrightarrow>
   tail_open P path (Some d) pos ready n w h = Some (Inr (n, False), h @ [Monotonic])"
  by (subst tail_open.simps) (simp add: past_def io_bind_def act_time_def io_return_def)

lemma show_line_text:
  assumes "show_text P ready l = Inr (outs, r, k)" "prints_succeed w"
  shows "show_line P ready l w h = Some (Inr (r, k, False), h @ map Print outs)"
  using assms
  by (auto simp: show_line_def show_text_def prints_succeed_def or_interrupt_def io_defs Let_def bind_result_def
      split: sum.splits json.splits if_splits)

lemma tail_open_line:
  assumes "w_time w (h @ [Monotonic]) < d" "w_text w (h @ [Monotonic, Read_text path]) = Inr c"
    and "next_line pos c = Some l" "show_text P ready l = Inr (outs, r, k)" "prints_succeed w"
  shows "tail_open P path (Some d) pos ready n w h =
    tail_open P path (Some d) (pos + length l) r (n + k) w (h @ [Monotonic, Read_text path] @ map Print outs)"
  using assms
  by (subst tail_open.simps)
    (simp add: past_def io_bind_def act_time_def io_return_def or_interrupt_act show_line_text)

lemma tail_open_idle:
  assumes "w_time w (h @ [Monotonic]) < d" "w_text w (h @ [Monotonic, Read_text path]) = Inr c"
    and "next_line pos c = None" "w_unit w (h @ [Monotonic, Read_text path, Sleep TAIL_POLL_S]) = Inr u"
  shows "tail_open P path (Some d) pos ready n w h =
    tail_open P path (Some d) pos ready n w (h @ [Monotonic, Read_text path, Sleep TAIL_POLL_S])"
  using assms
  by (subst tail_open.simps)
    (simp add: past_def io_bind_def act_time_def io_return_def or_interrupt_act)

text \<open>A host, and a file with one complete line and the beginning of another.\<close>

definition demo_host :: py_host where
  "demo_host = \<lparr>host_hms = (\<lambda>t. Inr ''09:30:00''), host_strerror = (\<lambda>n. ''Bad file descriptor''),
     host_errorcode = (\<lambda>n. n = 9), host_float_str = (\<lambda>x. ''0.05''),
     host_float_fmt = (\<lambda>f x. ''0.1''), host_stdev = (\<lambda>xs. 0),
     host_decode = (\<lambda>s. s),
     host_read_float = (\<lambda>s. Inl ValueError)\<rparr>"

definition demo_line :: string where
  "demo_line = json_dumps (JObj [(''num'', JInt 3), (''syscall'', JStr ''close''), (''args'', JArr [JStr ''0x9''])])
     @ [CHR 0x0A]"

definition demo_world :: world where
  "demo_world = \<lparr>w_unit = (\<lambda>h. Inr ()), w_run = (\<lambda>h. Inr (0, [])), w_text = (\<lambda>h. Inr (demo_line @ ''{'')),
     w_bool = (\<lambda>h. Inr True), w_names = (\<lambda>h. Inr []), w_time = slept, w_environ = (\<lambda>x. None),
     w_resolve = (\<lambda>x. x), w_here = ''/w'', w_project = ''/'', w_home = ''/root''\<rparr>"

lemma demo_world_simps [simp]:
  "w_unit demo_world h = Inr ()" "w_text demo_world h = Inr (demo_line @ ''{'')"
  "w_bool demo_world h = Inr True" "w_time demo_world h = slept h"
  by (simp_all add: demo_world_def)

lemma demo_prints: "prints_succeed demo_world"
  by (simp add: prints_succeed_def)

lemma demo_grows: "growing_file demo_world path (demo_line @ ''{'')" and demo_clock: "clock_runs demo_world"
  by (auto simp: growing_file_def clock_runs_def intro: exI [of _ "length (demo_line @ ''{'')"])

lemma demo_shown:
  "next_line 0 (demo_line @ ''{'') = Some demo_line" "next_line (length demo_line) (demo_line @ ''{'') = None"
  "show_text demo_host True demo_line = Inr ([''[09:30:00.000] close(0x9)''], True, 1)"
  by code_simp+

lemma demo_view:
  "\<exists>h'. run_interactive demo_host ''log'' (Some (1 / 20)) False demo_world [] = Some (Inr 1, h')"
proof -
  let ?show = "[''[09:30:00.000] close(0x9)'']"
  have "tail_open demo_host ''log'' (Some (1 / 20)) 0 True 0 demo_world h =
      Some (Inr (1, False), (((h @ [Monotonic, Read_text ''log''] @ map Print ?show) @
        [Monotonic, Read_text ''log'', Sleep TAIL_POLL_S]) @ [Monotonic]))" if "slept h = 0" for h
    using that
    by (simp add: tail_open_line [OF _ _ demo_shown(1,3) demo_prints] tail_open_idle [OF _ _ demo_shown(2)]
        tail_open_late TAIL_POLL_S_def del: append_assoc list.map)
  then show ?thesis
    by (simp add: run_interactive_def view_deadline_def tail_wait.simps tail_events_def or_interrupt_act io_bind_def
        io_then_def io_when_def act_time_def py_print_def act_def io_return_def slept_def)
qed

section \<open>Properties\<close>

lemma prints_list_all: "io_only (\<lambda>a. \<not> is_print a) m \<Longrightarrow> m w h = Some (r, h') \<Longrightarrow> prints h' = prints h"
  by (drule (1) io_onlyD) (auto simp: no_prints)

lemma view_deadline_quiet: "io_only (\<lambda>a. \<not> is_print a) (view_deadline duration)"
  by (auto simp: view_deadline_def is_print_def intro!: io_rules split: option.split)

lemma tail_events_shows:
  assumes "growing_file w path C" "tail_events P path deadline ready e w h = Some (Inr (n, intr), h')"
  shows "\<exists>outs. seen P ready (complete_lines C) outs n intr \<and> prints h' = prints h @ outs"
proof (cases "e = Some True")
  case True
  with assms(2) have "tail_open P path deadline 0 ready 0 w h = Some (Inr (n, intr), h')" by (simp add: tail_events_def)
  from tail_open_shows [OF assms(1) this] show ?thesis by simp
next
  case False
  with assms(2) have "n = 0" "h' = h" by (auto simp: tail_events_def io_return_def split: option.splits if_splits)
  then show ?thesis using seen_stop by fastforce
qed

lemma run_interactive_parts:
  assumes "run_interactive P path duration after_ready w h = Some (Inr n, h')"
  obtains deadline h1 e intr h2 where
    "tail_events P path deadline (\<not> after_ready) e w h1 = Some (Inr (n, intr), h2)"
    "prints h1 = prints h @ [view_banner P path duration, stop_hint]"
    "prints h' = prints h2 @ (if intr then [ctrl_c_note] else [])"
proof -
  let ?start = "\<lambda>h1. (h1 @ [Print (view_banner P path duration)]) @ [Print stop_hint]"
  obtain deadline h0 e h1 x h2 where run: "view_deadline duration w h = Some (Inr deadline, h0)"
    "tail_wait path deadline w (?start h0) = Some (Inr e, h1)"
    "tail_events P path deadline (\<not> after_ready) e w h1 = Some (Inr x, h2)"
    and fin: "n = fst x" "prints h' = prints h2 @ (if snd x then [ctrl_c_note] else [])"
    using assms
    by (auto simp: run_interactive_def io_bind_Some io_then_Some py_print_def act_def io_when_def io_return_def
        split: if_splits)
  have "prints h0 = prints h" by (rule prints_list_all [OF view_deadline_quiet run(1)])
  moreover have "prints h1 = prints (?start h0)" by (rule prints_list_all [OF tail_wait_quiet run(2)])
  ultimately have h1: "prints h1 = prints h @ [view_banner P path duration, stop_hint]"
    by (simp del: append_assoc)
  from run(3) fin(1) have "tail_events P path deadline (\<not> after_ready) e w h1 = Some (Inr (n, snd x), h2)" by simp
  from that [OF this h1 fin(2)] show thesis .
qed

text \<open>
  C11: the terminal view is the capture file. Apart from its banner and the note after
  Ctrl-C, \<open>run_interactive\<close> prints the rendering of the first complete lines of the
  file, each exactly once and in order, and returns the number of events among them; a line
  still being written is never shown. If Ctrl-C comes while a line is being printed, a
  beginning of its rendering follows and the line is counted.
\<close>

theorem live_view_shows:
  assumes "growing_file w path C"
    and "run_interactive P path duration after_ready w h = Some (Inr n, h')"
  shows "\<exists>m outs ready k part tail. view P (\<not> after_ready) (take m (complete_lines C)) = Inr (outs, ready, k) \<and>
    prints h' = prints h @ [view_banner P path duration, stop_hint] @ outs @ part @ tail \<and>
    (tail = [] \<or> tail = [ctrl_c_note]) \<and>
    (part = [] \<and> n = k \<or>
     tail = [ctrl_c_note] \<and> n = Suc k \<and> m < length (complete_lines C) \<and> begun P ready (complete_lines C ! m) part)"
proof -
  obtain deadline h1 e intr h2 where run: "tail_events P path deadline (\<not> after_ready) e w h1 = Some (Inr (n, intr), h2)"
    and texts: "prints h1 = prints h @ [view_banner P path duration, stop_hint]"
      "prints h' = prints h2 @ (if intr then [ctrl_c_note] else [])"
    using run_interactive_parts [OF assms(2)] .
  obtain outs where outs: "seen P (\<not> after_ready) (complete_lines C) outs n intr" "prints h2 = prints h1 @ outs"
    using tail_events_shows [OF assms(1) run] by blast
  from seen_view [OF outs(1)] obtain m full ready k part where
    "view P (\<not> after_ready) (take m (complete_lines C)) = Inr (full, ready, k)" "outs = full @ part"
    "part = [] \<and> n = k \<or> intr \<and> m < length (complete_lines C) \<and> n = Suc k \<and> begun P ready (complete_lines C ! m) part"
    by blast
  with texts outs(2) show ?thesis
    by (intro exI [of _ m] exI [of _ full] exI [of _ ready] exI [of _ k] exI [of _ part]
        exI [of _ "if intr then [ctrl_c_note] else []"]) auto
qed

theorem live_view_shows_witness:
  "\<exists>m outs ready k. view demo_host True (take m (complete_lines (demo_line @ ''{''))) = Inr (outs, ready, k) \<and> k \<le> 1"
proof -
  obtain h' where "run_interactive demo_host ''log'' (Some (1 / 20)) False demo_world [] = Some (Inr 1, h')"
    using demo_view by blast
  from live_view_shows [OF demo_grows this] show ?thesis by auto
qed

text \<open>The loops of the view on a clock that advances with every reading, whatever the file does.\<close>

lemma past_ticking:
  assumes "ticking eps w"
  shows "\<exists>late. past (Some d) w h = Some (Inr late, h @ [Monotonic]) \<and> (\<not> late \<longrightarrow> readings h < nat \<lceil>d / eps\<rceil>)"
  using ticking_early [OF assms] by (force simp: past_def io_defs not_le)

lemma show_line_ends: "\<exists>r as. show_line P ready l w h = Some (r, h @ as)"
proof -
  obtain r h' where run: "show_line P ready l w h = Some (r, h')" using show_line_total by blast
  have "io_only (\<lambda>a. True) (show_line P ready l)" by (rule show_line_only) simp
  from io_onlyD [OF this run] run show ?thesis by auto
qed

lemma tail_open_ends:
  assumes tick: "ticking eps w"
  shows "nat \<lceil>d / eps\<rceil> - readings h \<le> N \<Longrightarrow> \<exists>y. tail_open P path (Some d) pos ready n w h = Some y"
proof (induction N arbitrary: pos ready n h rule: less_induct)
  case (less N)
  let ?h1 = "h @ [Monotonic]" and ?h2 = "(h @ [Monotonic]) @ [Read_text path]"
  obtain late where late: "past (Some d) w h = Some (Inr late, ?h1)" "\<not> late \<Longrightarrow> readings h < nat \<lceil>d / eps\<rceil>"
    using past_ticking [OF tick] by blast
  have IH: "\<exists>y. tail_open P path (Some d) pos ready n w (?h2 @ as) = Some y" if "\<not> late" for pos ready n as
  proof -
    have "nat \<lceil>d / eps\<rceil> - readings (?h2 @ as) < N" using late(2) [OF that] less.prems by simp
    from less.IH [OF this order_refl] show ?thesis .
  qed
  note unfold = tail_open.simps [of P path "Some d" pos ready n w h]
  show ?case
  proof (cases "late \<or> (\<exists>e. w_text w ?h2 = Inl e)")
    case True
    then show ?thesis by (auto simp: unfold io_bind_def late(1) or_interrupt_act io_return_def)
  next
    case False
    then obtain c where c: "w_text w ?h2 = Inr c" by (cases "w_text w ?h2") auto
    show ?thesis
    proof (cases "next_line pos c")
      case None
      with False c IH [of pos ready n "[Sleep TAIL_POLL_S]"] show ?thesis
        by (auto simp: unfold io_bind_def late(1) or_interrupt_act io_return_def split: sum.split)
    next
      case (Some l)
      obtain r as where s: "show_line P ready l w ?h2 = Some (r, ?h2 @ as)" using show_line_ends by blast
      with False Some c IH [of _ _ _ as] show ?thesis
        by (cases r) (auto simp: unfold io_bind_def late(1) or_interrupt_act io_return_def split: prod.split)
    qed
  qed
qed

lemma tail_wait_ends:
  assumes tick: "ticking eps w"
  shows "\<exists>y. tail_wait path (Some d) w h = Some y"
proof (induction "nat \<lceil>d / eps\<rceil> - readings h" arbitrary: h rule: less_induct)
  case less
  let ?h1 = "h @ [Exists path]" and ?h3 = "((h @ [Exists path]) @ [Monotonic]) @ [Sleep TAIL_POLL_S]"
  obtain late where late: "past (Some d) w ?h1 = Some (Inr late, ?h1 @ [Monotonic])"
      "\<not> late \<Longrightarrow> readings ?h1 < nat \<lceil>d / eps\<rceil>"
    using past_ticking [OF tick] by blast
  note unfold = tail_wait.simps [of path "Some d" w h]
  show ?case
  proof (cases "w_bool w ?h1 = Inr False \<and> \<not> late")
    case True
    then have "nat \<lceil>d / eps\<rceil> - readings ?h3 < nat \<lceil>d / eps\<rceil> - readings h" using late(2) by (simp add: readings_def)
    from less [OF this] True late(1) show ?thesis
      by (auto simp: unfold io_bind_def or_interrupt_act io_return_def split: sum.split)
  next
    case False
    then show ?thesis
      using late(1) by (auto simp: unfold io_bind_def or_interrupt_act io_return_def split: sum.split)
  qed
qed

lemma run_interactive_ends:
  assumes wait: "\<And>d h. \<exists>y. tail_wait path (Some d) w h = Some y"
    and follow: "\<And>d ready h. \<exists>y. tail_open P path (Some d) 0 ready 0 w h = Some y"
  shows "\<exists>r h'. run_interactive P path (Some d) after_ready w h = Some (r, h')"
proof -
  let ?dl = "w_time w (h @ [Monotonic]) + d"
  let ?h1 = "((h @ [Monotonic]) @ [Print (view_banner P path (Some d))]) @ [Print stop_hint]"
  obtain r h2 where run: "tail_wait path (Some ?dl) w ?h1 = Some (r, h2)" using wait by fast
  have "\<exists>y. tail_events P path (Some ?dl) ready e w h2 = Some y" for ready e
    using follow by (auto simp: tail_events_def io_return_def split: option.split)
  then obtain ev where ev: "tail_events P path (Some ?dl) ready e w h2 = Some (ev ready e)" for ready e by metis
  show ?thesis
    using run ev
    by (auto simp: run_interactive_def view_deadline_def io_bind_def io_then_def act_time_def py_print_def act_def
        io_return_def io_when_def split: sum.split prod.split)
qed

text \<open>
  C28: \<open>--duration\<close> is kept. On a clock that advances with every reading,
  \<open>run_interactive\<close> with a duration comes back, whatever the file and the terminal do: the
  file may be missing, shrink, or grow for ever faster than the view reads it.
\<close>

theorem live_view_returns:
  assumes "ticking eps w"
  shows "\<exists>r h'. run_interactive P path (Some d) after_ready w h = Some (r, h')"
  by (rule run_interactive_ends [OF tail_wait_ends [OF assms] tail_open_ends [OF assms order_refl]])

text \<open>A file that has another line each time it is read.\<close>

definition endless_world :: world where
  "endless_world = demo_world\<lparr>w_time := (\<lambda>h. of_nat (readings h)),
     w_text := (\<lambda>h. Inr (concat (replicate (length h) demo_line)))\<rparr>"

theorem live_view_returns_witness:
  "\<exists>r h'. run_interactive demo_host ''log'' (Some 3) True endless_world [] = Some (r, h')"
  by (rule live_view_returns [of 1]) (simp add: ticking_def endless_world_def)

text \<open>A file of finite length needs only a clock that runs while the process sleeps.\<close>

lemma live_view_returns_idle:
  assumes "clock_runs w" "growing_file w path C"
  shows "\<exists>r h'. run_interactive P path (Some d) after_ready w h = Some (r, h')"
  by (rule run_interactive_ends [OF tail_wait_returns [OF assms(1)] tail_open_returns [OF assms order_refl]])

lemma armed_loop_result:
  assumes clock: "clock_runs w"
  shows "\<exists>r h'. armed_loop path d w h = Some (r, h') \<and>
    (r = Inr True \<longrightarrow> (\<exists>txt k. h' = k @ [Read_text path] \<and> w_text w h' = Inr txt \<and> arm_marked txt)) \<and>
    (r = Inr False \<longrightarrow> (\<exists>k. h' = k @ [Monotonic] \<and> d \<le> w_time w h'))"
proof (induction "naps (1 / 10) d h" arbitrary: h rule: less_induct)
  case less
  let ?h1 = "h @ [Monotonic]" and ?h2 = "(h @ [Monotonic]) @ [Exists path]"
  let ?h3 = "?h2 @ [Read_text path]"
  have again: "\<exists>r h'. armed_loop path d w (k @ [Sleep (1 / 10)]) = Some (r, h') \<and>
    (r = Inr True \<longrightarrow> (\<exists>txt k. h' = k @ [Read_text path] \<and> w_text w h' = Inr txt \<and> arm_marked txt)) \<and>
    (r = Inr False \<longrightarrow> (\<exists>k. h' = k @ [Monotonic] \<and> d \<le> w_time w h'))"
    if "slept k = slept h" "w_time w ?h1 < d" for k
  proof (rule less)
    have "slept h \<le> w_time w ?h1" using clock by (simp add: clock_runs_def)
    with that show "naps (1 / 10) d (k @ [Sleep (1 / 10)]) < naps (1 / 10) d h"
      by (intro naps_less) simp_all
  qed
  note unfold = armed_loop.simps [of path d w h]
  show ?case
  proof (cases "w_time w ?h1 < d")
    case False
    then show ?thesis by (auto simp: unfold io_bind_def act_time_def io_return_def)
  next
    case early: True
    show ?thesis
    proof (cases "w_bool w ?h2")
      case (Inl x)
      with early show ?thesis by (simp add: unfold io_bind_def act_time_def act_bool_def)
    next
      case (Inr e)
      show ?thesis
      proof (cases "e \<and> (\<forall>c. w_text w ?h3 = Inr c \<longrightarrow> arm_marked c)")
        case True
        with early Inr show ?thesis
          by (cases "w_text w ?h3")
            (auto simp: unfold io_bind_def act_time_def act_bool_def act_text_def io_return_def)
      next
        case False
        define k where "k = (if e then ?h3 else ?h2)"
        have "slept k = slept h" by (simp add: k_def)
        from again [OF this early] False early Inr show ?thesis
          by (cases "w_unit w (k @ [Sleep (1 / 10)])")
            (auto simp: unfold k_def io_bind_def io_then_def act_time_def act_bool_def act_text_def act_def
              io_return_def)
      qed
    qed
  qed
qed

text \<open>
  The arm message. With a clock that runs, \<open>wait_for_armed_message\<close> returns; it
  says yes only if its last read of the debug log has one of the two messages, and no only
  once the timeout has passed.
\<close>

lemma armed_message:
  assumes "clock_runs w"
  shows "\<exists>r h'. wait_for_armed_message path timeout w h = Some (r, h') \<and>
    (r = Inr True \<longrightarrow> (\<exists>txt k. h' = k @ [Read_text path] \<and> w_text w h' = Inr txt \<and> arm_marked txt)) \<and>
    (r = Inr False \<longrightarrow> (\<exists>k. h' = k @ [Monotonic] \<and> w_time w (h @ [Monotonic]) + timeout \<le> w_time w h'))"
  using armed_loop_result [OF assms, of path "w_time w (h @ [Monotonic]) + timeout" "h @ [Monotonic]"]
  by (simp add: wait_for_armed_message_def io_bind_def act_time_def)

lemma armed_message_example:
  "\<exists>r h'. wait_for_armed_message ''log.debug.log'' 5 demo_world [] = Some (r, h') \<and> r \<noteq> Inr True"
proof -
  have "\<not> arm_marked (demo_line @ ''{'')" by code_simp
  then show ?thesis using armed_message [OF demo_clock, of "''log.debug.log''" 5 "[]"] by force
qed

lemma millis_near:
  fixes z :: rat
  assumes "0 \<le> e" "e < 1000" "of_int q + of_int e / 1000 - 1 / 2000 \<le> z" "z \<le> of_int q + of_int e / 1000 + 1 / 2000"
  shows "\<lfloor>z\<rfloor> = q \<or> e = 0 \<and> \<lfloor>z\<rfloor> = q - 1"
proof (cases "e = 0")
  case True
  with assms(3,4) show ?thesis by (simp add: floor_eq_iff, linarith?)
next
  case False
  then have "1 \<le> (of_int e :: rat)" "(of_int e :: rat) \<le> 999" using assms(1,2) by simp_all
  with assms(3,4) show ?thesis by (simp add: floor_eq_iff)
qed

text \<open>
  The milliseconds shown. For a timestamp of the capture file, in microseconds before
  2038, they are the timestamp's milliseconds, except that one less is shown for some
  timestamps that are a whole number of milliseconds.
\<close>

lemma millis_shown:
  assumes "0 \<le> us" "us < 2 ^ 31 * 1000000"
  shows "millis (dec_float us 6) = us div 1000 mod 1000 \<or>
    us mod 1000 = 0 \<and> millis (dec_float us 6) = us div 1000 mod 1000 - 1"
proof -
  define s r where "s = us div 1000000" and "r = us mod 1000000"
  define q e where "q = r div 1000" and "e = r mod 1000"
  have us: "us = s * 1000000 + r" "0 \<le> s" "s < 2 ^ 31" "0 \<le> r" "r < 1000000"
    using assms by (simp_all add: s_def r_def)
  have r: "r = q * 1000 + e" "0 \<le> q" "q < 1000" "0 \<le> e" "e < 1000"
    using us(4,5) by (simp_all add: q_def e_def)
  have "us = 1000 * (s * 1000 + q) + e" using us(1) r(1) by simp
  then have "us div 1000 = s * 1000 + q" "us mod 1000 = e"
    using r(4,5) by (rule int_div_pos_eq, rule int_mod_pos_eq)
  with r(2,3) have ms: "us div 1000 mod 1000 = q" "us mod 1000 = e" by simp_all
  show ?thesis
  proof (cases "r = 0")
    case True
    then have "dec_float us 6 = of_int s" using us(1-3) by (simp add: dec_float_def fl64_of_int)
    then show ?thesis using True ms q_def by (simp add: millis_def fl64_def)
  next
    case False
    define t where "t = dec_float us 6"
    define f :: rat where "f = of_int r / 1000000"
    have xf: "of_int us / 10 ^ 6 = of_int s + f" by (simp add: us(1) f_def add_divide_distrib)
    have f: "1 / 1000000 \<le> f" "f \<le> 999999 / 1000000" using us False by (simp_all add: f_def divide_right_mono)
    have "s \<le> 2147483647" using us(3) by simp
    then have "(of_int s :: rat) \<le> of_int 2147483647" by (simp only: of_int_le_iff)
    then have t: "\<bar>t - (of_int s + f)\<bar> \<le> 1 / 2 ^ 23"
      using fl64_near [of "of_int s + f" 30] us(2) f unfolding t_def dec_float_def xf by simp
    note tb = abs_le_D1 [OF t] abs_le_D2 [OF t]
    have fl: "\<lfloor>t\<rfloor> = s" using tb f by (simp add: floor_eq_iff)
    define y where "y = fl64 (t - of_int s)"
    have y: "\<bar>y - (t - of_int s)\<bar> \<le> 1 / 2 ^ 53" "0 \<le> t - of_int s" "t - of_int s < 1"
      using fl64_near [of "t - of_int s" 0] fl by (simp_all add: y_def floor_eq_iff)
    have yf: "f - 1 / 2 ^ 22 \<le> y" "y \<le> f + 1 / 2 ^ 22"
      using tb abs_le_D1 [OF y(1)] abs_le_D2 [OF y(1)] by simp_all
    have z: "\<bar>fl64 (y * 1000) - y * 1000\<bar> \<le> 1 / 2 ^ 44"
      using fl64_near [of "y * 1000" 9] yf f by simp
    have "millis t = \<lfloor>fl64 (y * 1000)\<rfloor>" by (simp add: millis_def fl y_def)
    moreover have f1000: "f * 1000 = of_int q + of_int e / 1000" by (simp add: f_def r(1) add_divide_distrib)
    have "f * 1000 - 1 / 2000 \<le> fl64 (y * 1000)" "fl64 (y * 1000) \<le> f * 1000 + 1 / 2000"
      using yf abs_le_D1 [OF z] abs_le_D2 [OF z] by simp_all
    note this [unfolded f1000]
    ultimately show ?thesis
      using millis_near [where e = e and q = q and z = "fl64 (y * 1000)"] r(4,5) unfolding ms t_def by simp
  qed
qed

lemma millis_shown_example: "millis (dec_float 1791770511299999 6) = 299"
  using millis_shown [of 1791770511299999] by simp

text \<open>An event written with \<open>.300000\<close> that is shown with \<open>.299\<close>.\<close>

lemma millis_one_less: "millis (dec_float 1791770511300000 6) = 299"
  by code_simp

end
