(* ===== verification/Capture_Inline.thy ===== *)
theory Capture_Inline
  imports Run_Capture Live_View_Proofs
begin

text \<open>
  The main program of \<open>run_capture_inline.py\<close>, in stages: resolving the hook
  addresses, preparing the log files, starting the instance with the patched QEMU, waiting
  for the arm message, and the capture itself, which stops the instance in a
  \<open>finally\<close> clause.
\<close>

record inline_args =
  i_name :: string
  i_duration :: "rat option"
  i_log :: string
  i_qemu :: string
  i_addr :: "string option"
  i_ret_addr :: "string option"
  i_no_ret :: bool
  i_port :: int
  i_quiet :: bool
  i_show_after_ready :: bool

definition DEFAULT_QEMU :: string where
  "DEFAULT_QEMU = ''/home/matsu/qemu-vmi-syscall-monitor/qemu-6.2-vmi/build/qemu-system-x86_64''"

text \<open>The values of the options that are not given.\<close>

definition inline_defaults :: "string \<Rightarrow> inline_args" where
  "inline_defaults here =
     \<lparr>i_name = ''vmiinline'', i_duration = None, i_log = here @ ''/logs/capture_inline.jsonl'',
      i_qemu = DEFAULT_QEMU, i_addr = None, i_ret_addr = None, i_no_ret = False, i_port = 8080,
      i_quiet = False, i_show_after_ready = False\<rparr>"

definition ARM_CHECK_TIMEOUT_S :: rat where
  "ARM_CHECK_TIMEOUT_S = 5"

definition given :: "string option \<Rightarrow> string option" where
  "given v = (if v = Some [] then None else v)"

definition path_parent :: "string \<Rightarrow> string" where
  "path_parent p = (let r = dropWhile (\<lambda>c. c \<noteq> CHR ''/'') (rev p) in
     if r = [] then ''.'' else if r = ''/'' then ''/'' else rev (tl r))"

definition path_name :: "string \<Rightarrow> string" where
  "path_name p = rev (takeWhile (\<lambda>c. c \<noteq> CHR ''/'') (rev p))"

definition hook_addresses :: "inline_args \<Rightarrow> (int \<times> int option) io" where
  "hook_addresses args =
     io_bind (case given (i_addr args) of Some t \<Rightarrow> io_lift (py_int 0 t) | None \<Rightarrow> resolve_syscall_addr) (\<lambda>addr.
     io_then (py_print (''[run_capture_inline] _ukplat_syscall = '' @ py_hex addr))
     (if i_no_ret args then
        io_then (py_print ''[run_capture_inline] --no-ret: return values not captured'') (io_return (addr, None))
      else
        io_bind (case given (i_ret_addr args) of Some t \<Rightarrow> io_lift (py_int 0 t) | None \<Rightarrow> resolve_syscall_ret_addr addr)
          (\<lambda>ret. io_then (py_print (''[run_capture_inline] syscall return hook = '' @ py_hex ret))
            (io_return (addr, Some ret)))))"

definition debug_log_path :: "inline_args \<Rightarrow> string" where
  "debug_log_path args = i_log args @ ''.debug.log''"

definition unlink_if_there :: "string \<Rightarrow> unit io" where
  "unlink_if_there p = io_bind (act_bool (Exists p)) (\<lambda>e. io_when e (act (Unlink p)))"

definition prepare_logs :: "inline_args \<Rightarrow> unit io" where
  "prepare_logs args =
     io_then (act (Mkdir (path_parent (i_log args))))
     (io_then (unlink_if_there (i_log args)) (unlink_if_there (debug_log_path args)))"

partial_function (option) sleep_forever :: "unit io" where
  "sleep_forever w h = io_then (act (Sleep 3600)) sleep_forever w h"

definition quiet_capture :: "py_host \<Rightarrow> inline_args \<Rightarrow> nat io" where
  "quiet_capture P args =
     io_then (py_print (''[run_capture_inline] --quiet: not tailing to terminal; '' @
       (case i_duration args of
          Some d \<Rightarrow> if d \<noteq> 0 then ''auto-stop in '' @ host_float_str P d @ ''s'' else ''press Ctrl-C to stop''
        | None \<Rightarrow> ''press Ctrl-C to stop'')))
     (io_then
       (io_catch (case i_duration args of Some d \<Rightarrow> act (Sleep d) | None \<Rightarrow> sleep_forever)
         (\<lambda>e. if e = KeyboardInterrupt then py_print ctrl_c_note else io_raise e))
       (count_lines (i_log args) 0))"

text \<open>The \<open>try\<close> statement: the capture, and the \<open>finally\<close> clause that stops the instance.\<close>

definition inline_capture :: "py_host \<Rightarrow> inline_args \<Rightarrow> nat io" where
  "inline_capture P args =
     io_finally
       (if i_quiet args then quiet_capture P args
        else run_interactive P (i_log args) (i_duration args) (i_show_after_ready args))
       (io_then (py_print (''[run_capture_inline] stopping/removing instance '' @ py_repr_str (i_name args)))
         (stop_and_remove (i_name args)))"

definition report_armed :: "py_host \<Rightarrow> inline_args \<Rightarrow> int \<Rightarrow> unit io" where
  "report_armed P args addr =
     io_bind (wait_for_armed_message (debug_log_path args) ARM_CHECK_TIMEOUT_S) (\<lambda>armed.
       if armed then py_print (''[VMI] breakpoint armed at _ukplat_syscall ('' @ py_hex addr @ '')'')
       else py_print (''[VMI] breakpoint arm not yet confirmed after '' @ host_float_str P ARM_CHECK_TIMEOUT_S @
         ''s (still retrying inside QEMU -- see '' @ path_name (debug_log_path args) @ ''); continuing anyway''))"

definition report_total :: "inline_args \<Rightarrow> nat \<Rightarrow> nat io" where
  "report_total args n_events =
     io_bind (count_lines (i_log args) n_events) (\<lambda>total.
     io_then (py_print (''[run_capture_inline] captured '' @ py_str_int (int total) @ '' events -> '' @ i_log args))
     (io_then (io_when (total = 0) (py_print_err (''[run_capture_inline] WARNING: 0 events captured -- check that '' @
        ''VMI_MONITOR_ADDR reached the QEMU process (see its stderr/log '' @
        ''for '' @ [CHR 0x27] @ ''vmi-monitor: enabled'' @ [CHR 0x27] @ '' / '' @ [CHR 0x27] @
        ''breakpoint armed and VERIFIED'' @ [CHR 0x27] @ '')'')))
     (io_return 0)))"

definition inline_session :: "py_host \<Rightarrow> inline_args \<Rightarrow> int \<Rightarrow> int option \<Rightarrow> nat io" where
  "inline_session P args addr ret_addr =
     io_then (py_print ''[VMI] starting Unikraft VM...'')
     (io_then (inline_start_instance (i_name args) (i_qemu args) addr ret_addr (i_log args) (i_port args))
     (io_then (report_armed P args addr)
     (io_bind (inline_capture P args) (report_total args))))"

definition inline_main :: "py_host \<Rightarrow> inline_args \<Rightarrow> nat io" where
  "inline_main P args =
     io_bind (act_bool (Is_file (i_qemu args))) (\<lambda>there.
       if \<not> there then
         io_then (py_print_err (''[run_capture_inline] ERROR: --qemu path does not exist: '' @ i_qemu args)) (io_return 1)
       else
         io_bind (hook_addresses args) (\<lambda>a.
         io_then (prepare_logs args)
         (io_bind (inline_instance_is_running (i_name args)) (\<lambda>running.
           if running then
             io_then (py_print_err (''[run_capture_inline] ERROR: instance '' @ py_repr_str (i_name args) @
               '' already running; stop it first (this script always starts its own)'')) (io_return 1)
           else inline_session P args (fst a) (snd a)))))"

section \<open>Commands that change instances\<close>

lemma sleep_forever_only [io_rules]:
  assumes "P (Sleep 3600)"
  shows "io_only P sleep_forever"
  unfolding io_only_def
proof (intro allI impI)
  fix w h r h'
  let ?Q = "\<lambda>w h y. \<exists>as. snd y = h @ as \<and> list_all P as"
  assume run: "sleep_forever w h = Some (r, h')"
  have "?Q w h (r, h')"
  proof (rule sleep_forever.raw_induct [where P = ?Q, OF _ run])
    fix f w h and y :: "unit result \<times> trace"
    assume IH: "\<And>w h y. f w h = Some y \<Longrightarrow> ?Q w h y" and body: "io_then (act (Sleep 3600)) f w h = Some y"
    have "io_only P f" unfolding io_only_def using IH by fastforce
    then have "io_only P (io_then (act (Sleep 3600)) f)" using assms by (intro io_rules)
    with body show "?Q w h y" by (cases y) (auto dest: io_onlyD)
  qed
  then show "\<exists>as. h' = h @ as \<and> list_all P as" by simp
qed

lemma view_lifeless [io_rules]: "lifeless (run_interactive P path duration after_ready)"
  by (auto simp: run_interactive_def view_deadline_def tail_events_def intro!: io_rules split: option.split)

lemma inline_parts_lifeless [io_rules]:
  "lifeless (hook_addresses args)" "lifeless (prepare_logs args)" "lifeless (quiet_capture P args)"
  "lifeless (report_armed P args addr)" "lifeless (report_total args n)"
  by (auto simp: hook_addresses_def prepare_logs_def unlink_if_there_def quiet_capture_def report_armed_def
      wait_for_armed_message_def report_total_def intro!: io_rules split: option.split)

lemma inline_capture_issues:
  "issues (inline_capture P args) {[stop_cmd (i_name args), rm_cmd (i_name args)]}
    {[], [stop_cmd (i_name args)], [stop_cmd (i_name args), rm_cmd (i_name args)]}"
  unfolding inline_capture_def
  by (rule issues_mono [OF issues_finally [OF issues_lifeless announced_stop_issues]]) (auto intro!: io_rules)

definition announcement :: "string \<Rightarrow> string" where
  "announcement name = ''[run_capture_inline] stopping/removing instance '' @ py_repr_str name"

text \<open>
  C10: the instance is stopped. However the capture itself ends -- at its deadline, by Ctrl-C,
  or by an exception while reading, decoding or printing an event --, the \<open>finally\<close>
  clause announces that it stops the instance. If the announcement can be printed, the command
  that stops the instance is issued, and the one that removes it unless the first could not be
  run; the result is that of the capture unless one of the two commands could not be run. If
  the announcement cannot be printed, that error is the result, and neither is issued.
\<close>

theorem inline_capture_stops:
  assumes "inline_capture P args w h = Some (r, h')"
  shows "\<exists>r1 h1. (if i_quiet args then quiet_capture P args
        else run_interactive P (i_log args) (i_duration args) (i_show_after_ready args)) w h = Some (r1, h1) \<and>
    life h1 = life h \<and>
    (case w_unit w (h1 @ [Print (announcement (i_name args))]) of
       Inr _ \<Rightarrow>
         life h' = life h @ [stop_cmd (i_name args), rm_cmd (i_name args)] \<and>
           (r = r1 \<or> (\<exists>e. r = Inl e \<and> w_run w h' = Inl e)) \<or>
         life h' = life h @ [stop_cmd (i_name args)] \<and> (\<exists>e. r = Inl e \<and> w_run w h' = Inl e)
     | Inl e \<Rightarrow> r = Inl e \<and> h' = h1 @ [Print (announcement (i_name args))])"
proof -
  let ?body = "if i_quiet args then quiet_capture P args
        else run_interactive P (i_log args) (i_duration args) (i_show_after_ready args)"
  let ?note = "Print (announcement (i_name args))"
  let ?stop = "io_then (act ?note) (stop_and_remove (i_name args))"
  from assms obtain r1 h1 r2 where run: "?body w h = Some (r1, h1)" "?stop w h1 = Some (r2, h')"
    "r = (case r2 of Inl e \<Rightarrow> Inl e | Inr _ \<Rightarrow> r1)"
    unfolding inline_capture_def py_print_def announcement_def by (rule io_finally_Some)
  have "lifeless ?body" by (intro io_rules)
  from life_quiet [OF this run(1)] have quiet: "life h1 = life h" "life (h1 @ [?note]) = life h"
    by simp_all
  show ?thesis
  proof (intro exI conjI)
    show "?body w h = Some (r1, h1)" "life h1 = life h" by (rule run(1), rule quiet(1))
    show "case w_unit w (h1 @ [?note]) of
       Inr _ \<Rightarrow>
         life h' = life h @ [stop_cmd (i_name args), rm_cmd (i_name args)] \<and>
           (r = r1 \<or> (\<exists>e. r = Inl e \<and> w_run w h' = Inl e)) \<or>
         life h' = life h @ [stop_cmd (i_name args)] \<and> (\<exists>e. r = Inl e \<and> w_run w h' = Inl e)
     | Inl e \<Rightarrow> r = Inl e \<and> h' = h1 @ [?note]"
    proof (cases "w_unit w (h1 @ [?note])")
      case (Inl e)
      with run(2,3) show ?thesis by (auto simp: io_then_Some act_def)
    next
      case (Inr u)
      with run(2) have "stop_and_remove (i_name args) w (h1 @ [?note]) = Some (r2, h')" by (auto simp: io_then_Some act_def)
      from stop_and_remove_ends [OF this] Inr quiet(2) run(3) show ?thesis by auto
    qed
  qed
qed

text \<open>
  So an instance can be left running: with a terminal that has gone away the capture ends
  with the error of its own \<open>print\<close>, and the announcement raises it again.
\<close>

lemma inline_capture_keeps_instance:
  assumes "\<And>k s. w_unit w (k @ [Print s]) = Inl BrokenPipeError" "i_quiet args"
  shows "\<exists>h'. inline_capture P args w h = Some (Inl BrokenPipeError, h') \<and> life h' = life h"
  using assms by (simp add: inline_capture_def quiet_capture_def io_finally_def io_then_def io_bind_def py_print_def act_def)

lemma inline_session_issues:
  "issues (inline_session P args addr ret)
    {[run_cmd (i_port args) (i_name args) (Some (i_qemu args)), stop_cmd (i_name args), rm_cmd (i_name args)]}
    {[], [run_cmd (i_port args) (i_name args) (Some (i_qemu args))],
     [run_cmd (i_port args) (i_name args) (Some (i_qemu args)), stop_cmd (i_name args)],
     [run_cmd (i_port args) (i_name args) (Some (i_qemu args)), stop_cmd (i_name args), rm_cmd (i_name args)]}"
  unfolding inline_session_def
  by (rule issues_mono, rule issues_then [OF issues_lifeless issues_then [OF inline.start_issues
        issues_then [OF issues_lifeless issues_bind [OF inline_capture_issues issues_lifeless]]]])
    (auto intro!: io_rules)

lemma inline_session_env:
  assumes run: "inline_session P args addr ret w h = Some (r, h')" and started: "life h' \<noteq> life h"
  shows "Run (run_cmd (i_port args) (i_name args) (Some (i_qemu args))) (Some (w_project w))
    (Some (monitor_env addr ret (w_resolve w (i_log args)) (w_environ w))) \<in> set h'"
proof -
  let ?start = "inline_start_instance (i_name args) (i_qemu args) addr ret (i_log args) (i_port args)"
  let ?rest = "io_then (report_armed P args addr) (io_bind (inline_capture P args) (report_total args))"
  let ?h1 = "h @ [Print ''[VMI] starting Unikraft VM...'']"
  have start: "Run (run_cmd (i_port args) (i_name args) (Some (i_qemu args))) (Some (w_project w))
      (Some (monitor_env addr ret (w_resolve w (i_log args)) (w_environ w))) \<in> set k"
    if "?start w ?h1 = Some (r, k)" "life k \<noteq> life ?h1" for r k
    using inline_start_env [OF that] .
  have first: "io_then (py_print ''[VMI] starting Unikraft VM...'') m w h =
      (case w_unit w ?h1 of Inl e \<Rightarrow> Some (Inl e, ?h1) | Inr _ \<Rightarrow> m w ?h1)" for m :: "nat io"
    by (simp add: io_then_def io_bind_def py_print_def act_def split: sum.split)
  from run consider e where "h' = ?h1" "r = Inl e" | "io_then ?start ?rest w ?h1 = Some (r, h')"
    unfolding inline_session_def first by (auto split: sum.splits)
  then consider e where "h' = ?h1" "r = Inl e" | e where "?start w ?h1 = Some (Inl e, h')" "r = Inl e"
    | k where "?start w ?h1 = Some (Inr (), k)" "?rest w k = Some (r, h')"
    unfolding io_then_Some [of ?start] by blast
  then show ?thesis
  proof cases
    case 1
    with started show ?thesis by simp
  next
    case 2
    with started show ?thesis by (intro start) (auto simp: life_action_def)
  next
    case (3 k)
    have "io_only (\<lambda>a. True) ?rest"
      by (intro io_rules io_only_mono [OF inline_parts_lifeless(4)] io_only_mono [OF inline_parts_lifeless(5)])
        (auto simp: inline_capture_def quiet_capture_def stop_and_remove_def run_ignoring_def intro!: io_rules
          io_only_mono [OF view_lifeless] split: option.split)
    from io_onlyD [OF this 3(2)] obtain as where "h' = k @ as" by blast
    with start [OF 3(1)] inline_start_life [OF 3(1)] show ?thesis by auto
  qed
qed

lemma hook_addresses_given:
  assumes "hook_addresses args w k = Some (Inr x, k')" "i_addr args = Some (py_hex addr)" "0 \<le> addr"
    and "i_no_ret args \<or> i_ret_addr args = Some (py_hex a) \<and> 0 \<le> a"
  shows "x = (addr, if i_no_ret args then None else Some a)"
proof -
  have "given (Some (py_hex b)) = Some (py_hex b)" if "0 \<le> b" for b using that by (simp add: given_def py_hex_def)
  with assms show ?thesis
    by (auto simp: hook_addresses_def io_bind_Some io_then_Some io_lift_def io_return_def py_int_hex
        split: if_splits)
qed

lemma inline_session_value: "inline_session P args addr ret w h = Some (Inr n, h') \<Longrightarrow> n = 0"
  by (auto simp: inline_session_def report_total_def io_bind_Some io_then_Some io_return_def)

text \<open>
  The checks of \<open>main\<close> up to the question whether the instance runs, and a refusal: the
  message, and the exit status unless the message cannot be printed.
\<close>

definition checks_done :: "inline_args \<Rightarrow> world \<Rightarrow> trace \<Rightarrow> bool \<Rightarrow> trace \<Rightarrow> bool" where
  "checks_done args w h running h4 \<longleftrightarrow> w_bool w (h @ [Is_file (i_qemu args)]) = Inr True \<and>
     (\<exists>a h2 h3. hook_addresses args w (h @ [Is_file (i_qemu args)]) = Some (Inr a, h2) \<and>
       prepare_logs args w h2 = Some (Inr (), h3) \<and>
       inline_instance_is_running (i_name args) w h3 = Some (Inr running, h4))"

definition refused :: "world \<Rightarrow> nat \<Rightarrow> string \<Rightarrow> nat result \<Rightarrow> trace \<Rightarrow> bool" where
  "refused w n msg r h' \<longleftrightarrow> (\<exists>k. h' = k @ [Print_err msg]) \<and> r = (case w_unit w h' of Inl e \<Rightarrow> Inl e | Inr _ \<Rightarrow> Inr n)"

definition missing_text :: "inline_args \<Rightarrow> string" where
  "missing_text args = ''[run_capture_inline] ERROR: --qemu path does not exist: '' @ i_qemu args"

definition running_text :: "inline_args \<Rightarrow> string" where
  "running_text args = ''[run_capture_inline] ERROR: instance '' @ py_repr_str (i_name args) @
     '' already running; stop it first (this script always starts its own)''"

lemma refusal:
  assumes "io_then (py_print_err msg) (io_return n) w k = Some (r, h')"
  shows "refused w n msg r h' \<and> life h' = life k"
  using assms by (auto simp: refused_def io_then_Some py_print_err_def act_def io_return_def life_action_def)

lemma inline_main_refuses:
  assumes "inline_main P args w h = Some (r, h')"
  shows "w_bool w (h @ [Is_file (i_qemu args)]) = Inr False \<Longrightarrow> refused w 1 (missing_text args) r h' \<and> life h' = life h"
    and "checks_done args w h True h4 \<Longrightarrow> refused w 1 (running_text args) r h' \<and> life h' = life h"
proof -
  let ?h1 = "h @ [Is_file (i_qemu args)]"
  show "refused w 1 (missing_text args) r h' \<and> life h' = life h" if "w_bool w ?h1 = Inr False"
  proof -
    from assms that have "io_then (py_print_err (missing_text args)) (io_return 1) w ?h1 = Some (r, h')"
      by (simp add: inline_main_def io_bind_def act_bool_def missing_text_def)
    from refusal [OF this] show ?thesis by simp
  qed
  show "refused w 1 (running_text args) r h' \<and> life h' = life h" if checks: "checks_done args w h True h4"
  proof -
    from checks obtain a h2 h3 where run: "w_bool w ?h1 = Inr True" "hook_addresses args w ?h1 = Some (Inr a, h2)"
      "prepare_logs args w h2 = Some (Inr (), h3)" "inline_instance_is_running (i_name args) w h3 = Some (Inr True, h4)"
      by (auto simp: checks_done_def)
    with assms have "io_then (py_print_err (running_text args)) (io_return 1) w h4 = Some (r, h')"
      by (simp add: inline_main_def io_bind_def io_then_def act_bool_def running_text_def)
    from refusal [OF this] life_quiet [OF inline_parts_lifeless(1) run(2)] life_quiet [OF inline_parts_lifeless(2) run(3)]
      life_quiet [OF lifeless_tools(2) run(4)] show ?thesis by simp
  qed
qed

lemma inline_main_phases:
  assumes "inline_main P args w h = Some (r, h')"
  shows "life h' = life h \<and> (r = Inr 1 \<or> (\<exists>e. r = Inl e)) \<or>
    (\<exists>addr ret k k' h1. hook_addresses args w k = Some (Inr (addr, ret), k') \<and> life h1 = life h \<and>
      checks_done args w h False h1 \<and>
      inline_session P args addr ret w h1 = Some (r, h'))"
proof -
  note quiet = life_quiet [OF inline_parts_lifeless(1)] life_quiet [OF inline_parts_lifeless(2)]
    life_quiet [OF lifeless_tools(2)]
  from assms consider e where "h' = h @ [Is_file (i_qemu args)]" "r = Inl e"
    | s where "io_then (py_print_err s) (io_return 1) w (h @ [Is_file (i_qemu args)]) = Some (r, h')"
    | e where "hook_addresses args w (h @ [Is_file (i_qemu args)]) = Some (Inl e, h')" "r = Inl e"
    | a h2 e where "hook_addresses args w (h @ [Is_file (i_qemu args)]) = Some (Inr a, h2)"
        "prepare_logs args w h2 = Some (Inl e, h')" "r = Inl e"
    | a h2 h3 e where "hook_addresses args w (h @ [Is_file (i_qemu args)]) = Some (Inr a, h2)"
        "prepare_logs args w h2 = Some (Inr (), h3)" "inline_instance_is_running (i_name args) w h3 = Some (Inl e, h')"
        "r = Inl e"
    | a h2 h3 h4 s where "hook_addresses args w (h @ [Is_file (i_qemu args)]) = Some (Inr a, h2)"
        "prepare_logs args w h2 = Some (Inr (), h3)" "inline_instance_is_running (i_name args) w h3 = Some (Inr True, h4)"
        "io_then (py_print_err s) (io_return 1) w h4 = Some (r, h')"
    | a h2 h3 h4 where "hook_addresses args w (h @ [Is_file (i_qemu args)]) = Some (Inr a, h2)"
        "prepare_logs args w h2 = Some (Inr (), h3)" "inline_instance_is_running (i_name args) w h3 = Some (Inr False, h4)"
        "w_bool w (h @ [Is_file (i_qemu args)]) = Inr True" "inline_session P args (fst a) (snd a) w h4 = Some (r, h')"
    unfolding inline_main_def io_bind_Some
    by (auto simp: io_bind_Some io_then_Some [of "prepare_logs args"] act_bool_def split: if_splits)
  then show ?thesis
  proof cases
    case (7 a h2 h3 h4)
    have "life h4 = life h" using quiet(1) [OF 7(1)] quiet(2) [OF 7(2)] quiet(3) [OF 7(3)] by simp
    moreover have "hook_addresses args w (h @ [Is_file (i_qemu args)]) = Some (Inr (fst a, snd a), h2)" using 7(1) by simp
    moreover have "checks_done args w h False h4" using 7(1-4) unfolding checks_done_def by blast
    ultimately show ?thesis using 7(5) by blast
  qed (auto dest!: quiet complain_Some)
qed

text \<open>
  The tool only touches instances it started. If QEMU is missing or the instance already
  runs, \<open>run_capture_inline.py\<close> returns 1 and starts, stops and removes nothing; otherwise
  the only such commands are, in this order, the one that starts its own instance, the one
  that stops it and the one that removes it, all three when it returns 0.
\<close>

lemma inline_main_instances:
  assumes "inline_main P args w h = Some (r, h')"
  shows "\<exists>cs. life h' = life h @ cs \<and>
    prefix cs [run_cmd (i_port args) (i_name args) (Some (i_qemu args)), stop_cmd (i_name args), rm_cmd (i_name args)] \<and>
    (r = Inr 0 \<longrightarrow> length cs = 3) \<and> (r = Inr 1 \<longrightarrow> cs = []) \<and> (\<forall>n. r = Inr n \<longrightarrow> n \<le> 1) \<and>
    (cs \<noteq> [] \<longrightarrow> (\<exists>h4. checks_done args w h False h4))"
  using inline_main_phases [OF assms]
proof (elim disjE exE conjE)
  fix addr ret k k' h1
  assume h1: "life h1 = life h" "checks_done args w h False h1" and run: "inline_session P args addr ret w h1 = Some (r, h')"
  show ?thesis
    using issuesD [OF inline_session_issues run] inline_session_value [where w = w and h = h1 and h' = h'] run h1
    by (fastforce split: sum.splits)
qed auto

text \<open>
  An instance left behind. The wait for the arm message stands between the start of the
  instance and the \<open>try\<close> statement: if it raises, for instance because the user
  presses Ctrl-C, the script ends and the instance is neither stopped nor removed.
\<close>

lemma inline_leaves_instance:
  assumes "inline_start_instance (i_name args) (i_qemu args) addr ret (i_log args) (i_port args) w
      (h @ [Print ''[VMI] starting Unikraft VM...'']) = Some (Inr (), h1)"
    and "report_armed P args addr w h1 = Some (Inl e, h')" "prints_succeed w"
  shows "inline_session P args addr ret w h = Some (Inl e, h') \<and>
    life h' = life h @ [run_cmd (i_port args) (i_name args) (Some (i_qemu args))]"
  using assms inline_start_life [OF assms(1)] life_quiet [OF inline_parts_lifeless(4) assms(2)]
  by (auto simp: inline_session_def io_then_def io_bind_def py_print_ok)

section \<open>A run\<close>

definition inline_world :: "string \<Rightarrow> (trace \<Rightarrow> unit result) \<Rightarrow> world" where
  "inline_world text answer = null_world\<lparr>w_text := (\<lambda>h. Inr text), w_unit := answer\<rparr>"

definition armed_text :: string where
  "armed_text = ''[arm] readback=0xcc confirmed at 0x101000''"

definition demo_inline :: inline_args where
  "demo_inline = \<lparr>i_name = ''vmiinline'', i_duration = Some 15, i_log = ''logs/c.jsonl'', i_qemu = ''/opt/qemu'',
     i_addr = Some (py_hex 0x101000), i_ret_addr = Some (py_hex 0x101080), i_no_ret = False, i_port = 8080, i_quiet = True,
     i_show_after_ready = False\<rparr>"

lemma inline_world_simps [simp]:
  "w_unit (inline_world t f) h = f h" "w_text (inline_world t f) h = Inr t" "w_bool (inline_world t f) h = Inr True"
  "w_time (inline_world t f) h = 0" "w_run (inline_world t f) h = Inr (0, ''null'')"
  "w_environ (inline_world t f) = (\<lambda>x. None)" "w_resolve (inline_world t f) = (\<lambda>x. x)"
  "w_project (inline_world t f) = ''/''"
  by (simp_all add: inline_world_def null_world_def)

lemma inline_prints: "(\<And>k s. f (k @ [Print s]) = Inr ()) \<Longrightarrow> prints_succeed (inline_world t f)"
  by (simp add: prints_succeed_def)

lemma inline_capture_run:
  "\<exists>h'. inline_capture P demo_inline (inline_world t (\<lambda>h. Inr ())) h = Some (Inr (length (text_lines t)), h')"
  by (simp add: inline_capture_def demo_inline_def quiet_capture_def count_lines_def stop_and_remove_def run_ignoring_def
      io_finally_def io_then_def io_bind_def io_catch_def act_def act_bool_def act_text_def py_print_def io_return_def
      subprocess_run_def)

text \<open>The wait of \<open>--quiet\<close> ends with an exception that is not Ctrl-C.\<close>

definition broken_wait :: "trace \<Rightarrow> unit result" where
  "broken_wait h = (if last h = Sleep 15 then Inl OSError else Inr ())"

theorem inline_capture_stops_witness:
  "\<exists>h'. inline_capture hmp_host demo_inline (inline_world [] broken_wait) [] = Some (Inl OSError, h') \<and>
     life h' = [stop_cmd ''vmiinline'', rm_cmd ''vmiinline'']"
proof -
  have "\<exists>h'. inline_capture hmp_host demo_inline (inline_world [] broken_wait) [] = Some (Inl OSError, h')"
    by (simp add: inline_capture_def demo_inline_def quiet_capture_def stop_and_remove_def run_ignoring_def broken_wait_def
        io_finally_def io_then_def io_bind_def io_catch_def act_def py_print_def io_return_def io_raise_def
        subprocess_run_def)
  then obtain h' where run: "inline_capture hmp_host demo_inline (inline_world [] broken_wait) [] = Some (Inl OSError, h')"
    by blast
  from inline_capture_stops [OF run] run show ?thesis by (auto simp: demo_inline_def broken_wait_def)
qed

lemma inline_start_run:
  assumes "\<And>k s. f (k @ [Print s]) = Inr ()"
  shows "inline_start_instance name q addr ret logp port (inline_world t f) h = (let env = monitor_env addr ret logp (\<lambda>x. None);
     h2 = h @ [Print (''[run_capture_inline] '' @ join '' '' (run_cmd port name (Some q))),
       Print (''[run_capture_inline] env VMI_MONITOR_ADDR='' @ the (env ''VMI_MONITOR_ADDR'') @
         '' VMI_MONITOR_RET_ADDR='' @ (case env ''VMI_MONITOR_RET_ADDR'' of None \<Rightarrow> ''(unset)'' | Some a \<Rightarrow> a) @
         '' VMI_MONITOR_LOG='' @ the (env ''VMI_MONITOR_LOG'')),
       Run (run_cmd port name (Some q)) (Some ''/'') (Some env), Sleep (3 / 2)]
   in Some (f h2, h2))"
  using assms by (simp add: inline_start_instance_def Let_def run_checked_def io_then_def io_bind_def py_print_ok inline_prints get_environ_def
      get_resolved_def get_project_def subprocess_run_def act_def io_return_def)

lemma report_armed_run:
  assumes "\<And>k s. f (k @ [Print s]) = Inr ()"
  shows "arm_marked t \<Longrightarrow> \<exists>h'. report_armed P args addr (inline_world t f) h = Some (Inr (), h')"
  using assms by (simp add: report_armed_def wait_for_armed_message_def armed_loop.simps ARM_CHECK_TIMEOUT_S_def io_bind_def
      act_time_def act_bool_def act_text_def io_return_def py_print_ok inline_prints)

lemma report_armed_interrupted:
  "\<not> arm_marked t \<Longrightarrow> (\<And>k. f (k @ [Sleep (1 / 10)]) = Inl e) \<Longrightarrow>
   \<exists>h'. report_armed P args addr (inline_world t f) h = Some (Inl e, h')"
  by (simp add: report_armed_def wait_for_armed_message_def armed_loop.simps ARM_CHECK_TIMEOUT_S_def io_bind_def
      io_then_def act_time_def act_bool_def act_text_def act_def)

lemma inline_session_run:
  "\<exists>h'. inline_session P demo_inline addr ret (inline_world armed_text (\<lambda>h. Inr ())) h = Some (Inr 0, h')"
proof -
  let ?w = "inline_world armed_text (\<lambda>h. Inr ())"
  let ?h0 = "h @ [Print ''[VMI] starting Unikraft VM...'']"
  have marked: "arm_marked armed_text" by code_simp
  obtain h1 where 1: "inline_start_instance (i_name demo_inline) (i_qemu demo_inline) addr ret (i_log demo_inline)
      (i_port demo_inline) ?w ?h0 = Some (Inr (), h1)"
    by (simp add: inline_start_run Let_def)
  obtain h2 where 2: "report_armed P demo_inline addr ?w h1 = Some (Inr (), h2)"
    using report_armed_run [OF _ marked, of "\<lambda>h. Inr ()"] by blast
  obtain h3 where 3: "inline_capture P demo_inline ?w h2 = Some (Inr (length (text_lines armed_text)), h3)"
    using inline_capture_run by blast
  obtain h4 where 4: "report_total demo_inline (length (text_lines armed_text)) ?w h3 = Some (Inr 0, h4)"
    by (cases "text_lines armed_text = []")
      (simp_all add: report_total_def count_lines_def io_then_def io_bind_def act_bool_def act_text_def io_return_def
        io_when_def py_print_err_def py_print_def act_def)
  have "py_print ''[VMI] starting Unikraft VM...'' ?w h = Some (Inr (), ?h0)" by (simp add: py_print_def act_def)
  with 1 2 3 4 show ?thesis by (simp add: inline_session_def io_then_def io_bind_def)
qed

lemma demo_addresses:
  "\<exists>h'. hook_addresses demo_inline (inline_world t f) h = Some (Inr (0x101000, Some 0x101080), h')"
  if "\<And>k s. f (k @ [Print s]) = Inr ()" for f
proof -
  have "given (Some (py_hex a)) = Some (py_hex a)" if "0 \<le> a" for a using that by (simp add: given_def py_hex_def)
  with that show ?thesis
    by (simp add: hook_addresses_def demo_inline_def py_int_hex io_then_def io_bind_def io_lift_def py_print_ok inline_prints
        io_return_def)
qed

lemma demo_prepared: "\<exists>h'. prepare_logs demo_inline (inline_world t (\<lambda>h. Inr ())) h = Some (Inr (), h')"
  by (simp add: prepare_logs_def unlink_if_there_def io_then_def io_bind_def act_bool_def act_def io_when_def)

lemma demo_not_running: "\<exists>h'. inline_instance_is_running name (inline_world t f) h = Some (Inr False, h')"
proof -
  have "json_loads ''null'' = Inr JNull" by code_simp
  then show ?thesis
    by (simp add: inline_instance_is_running_def io_bind_def subprocess_run_def io_lift_def instances_of_def)
qed

lemma inline_main_run:
  "\<exists>h'. inline_main P demo_inline (inline_world armed_text (\<lambda>h. Inr ())) [] = Some (Inr 0, h')"
proof -
  let ?w = "inline_world armed_text (\<lambda>h. Inr ())"
  obtain h2 where 2: "hook_addresses demo_inline ?w [Is_file (i_qemu demo_inline)] = Some (Inr (0x101000, Some 0x101080), h2)"
    using demo_addresses [of "\<lambda>h. Inr ()"] by auto
  obtain h3 where 3: "prepare_logs demo_inline ?w h2 = Some (Inr (), h3)" using demo_prepared by blast
  obtain h4 where 4: "inline_instance_is_running (i_name demo_inline) ?w h3 = Some (Inr False, h4)"
    using demo_not_running by blast
  obtain h5 where 5: "inline_session P demo_inline 0x101000 (Some 0x101080) ?w h4 = Some (Inr 0, h5)"
    using inline_session_run by blast
  have "act_bool (Is_file (i_qemu demo_inline)) ?w [] = Some (Inr True, [Is_file (i_qemu demo_inline)])"
    by (simp add: act_bool_def)
  with 2 3 4 5 show ?thesis by (simp add: inline_main_def io_then_def io_bind_def)
qed

lemma inline_main_instances_example:
  "\<exists>h'. inline_main hmp_host demo_inline (inline_world armed_text (\<lambda>h. Inr ())) [] = Some (Inr 0, h') \<and>
     length (life h') = 3"
proof -
  obtain h' where run: "inline_main hmp_host demo_inline (inline_world armed_text (\<lambda>h. Inr ())) [] = Some (Inr 0, h')"
    using inline_main_run by blast
  from inline_main_instances [OF run] run show ?thesis by auto
qed

lemma inline_leaves_instance_example:
  "\<exists>h'. inline_session hmp_host demo_inline 0x101000 None
      (inline_world [] (\<lambda>h. if last h = Sleep (1 / 10) then Inl KeyboardInterrupt else Inr ())) [] =
      Some (Inl KeyboardInterrupt, h') \<and> life h' = [run_cmd 8080 ''vmiinline'' (Some ''/opt/qemu'')]"
proof -
  let ?f = "\<lambda>h. if last h = Sleep (1 / 10) then Inl KeyboardInterrupt else Inr ()"
  obtain h1 where start: "inline_start_instance (i_name demo_inline) (i_qemu demo_inline) 0x101000 None (i_log demo_inline)
      (i_port demo_inline) (inline_world [] ?f) ([] @ [Print ''[VMI] starting Unikraft VM...'']) = Some (Inr (), h1)"
    by (simp add: inline_start_run Let_def)
  have "\<not> arm_marked []" by code_simp
  then obtain h' where "report_armed hmp_host demo_inline 0x101000 (inline_world [] ?f) h1 = Some (Inl KeyboardInterrupt, h')"
    using report_armed_interrupted [of "[]" ?f KeyboardInterrupt] by fastforce
  from inline_leaves_instance [OF start this] show ?thesis by (simp add: demo_inline_def prints_succeed_def)
qed

end
