(* ===== verification/Bench.thy ===== *)
theory Bench
  imports Run_Capture
begin

text \<open>
  \<open>bench_overhead.py\<close> and \<open>bench_overhead_inline.py\<close>: reading the report of
  \<open>ab\<close>, repeating and summarising measurements, and the text of the result file.
  Figures are the rational values of the doubles.
\<close>

section \<open>Reading the report\<close>

text \<open>The regular expressions of \<open>AB_PATTERNS\<close> as scanners of what follows a position.\<close>

definition eat_lit :: "string \<Rightarrow> string \<Rightarrow> string option" where
  "eat_lit lit s = (if starts_with s lit then Some (drop (length lit) s) else None)"

definition eat_ws :: "string \<Rightarrow> string option" where
  "eat_ws s = (case s of [] \<Rightarrow> None | c # cs \<Rightarrow> if py_space c then Some (dropWhile py_space cs) else None)"

definition ab_digit :: "char \<Rightarrow> bool" where
  "ab_digit c = (let n = of_char c :: nat in 48 \<le> n \<and> n \<le> 57)"

definition run_of :: "(char \<Rightarrow> bool) \<Rightarrow> string \<Rightarrow> (string \<times> string) option" where
  "run_of p s = (if takeWhile p s = [] then None else Some (takeWhile p s, dropWhile p s))"

definition figure :: "char \<Rightarrow> bool" where
  "figure c \<longleftrightarrow> ab_digit c \<or> c = CHR ''.''"

definition requests_per_sec_at :: "string \<Rightarrow> string option" where
  "requests_per_sec_at s =
     Option.bind (eat_lit ''Requests per second:'' s) (\<lambda>r. Option.bind (eat_ws r) (\<lambda>r.
       map_option fst (run_of figure r)))"

definition mean_ms_at :: "string \<Rightarrow> string option" where
  "mean_ms_at s =
     Option.bind (eat_lit ''Time per request:'' s) (\<lambda>r. Option.bind (eat_ws r) (\<lambda>r.
     Option.bind (run_of figure r) (\<lambda>(t, r). Option.bind (eat_ws r) (\<lambda>r.
     Option.bind (eat_lit ''[ms]'' r) (\<lambda>r. Option.bind (eat_ws r) (\<lambda>r.
     Option.bind (eat_lit ''(mean)'' r) (\<lambda>_. Some t)))))))"

definition percentile_at :: "string \<Rightarrow> string \<Rightarrow> string option" where
  "percentile_at q s =
     Option.bind (eat_lit q (dropWhile py_space s)) (\<lambda>r. Option.bind (eat_ws r) (\<lambda>r. map_option fst (run_of ab_digit r)))"

definition failed_requests_at :: "string \<Rightarrow> string option" where
  "failed_requests_at s =
     Option.bind (eat_lit ''Failed requests:'' s) (\<lambda>r. Option.bind (eat_ws r) (\<lambda>r. map_option fst (run_of ab_digit r)))"

text \<open>\<open>search\<close>: the first position that matches; with \<open>^\<close> the first line start.\<close>

fun search_any :: "(string \<Rightarrow> 'a option) \<Rightarrow> string \<Rightarrow> 'a option" where
  "search_any m [] = m []"
| "search_any m (c # cs) = (case m (c # cs) of Some x \<Rightarrow> Some x | None \<Rightarrow> search_any m cs)"

function search_bol :: "(string \<Rightarrow> 'a option) \<Rightarrow> string \<Rightarrow> 'a option" where
  "search_bol m s =
     (case m s of
        Some x \<Rightarrow> Some x
      | None \<Rightarrow> (case dropWhile (\<lambda>c. c \<noteq> CHR 0x0A) s of [] \<Rightarrow> None | c # r \<Rightarrow> search_bol m r))"
  by pat_completeness auto
termination
proof (relation "measure (\<lambda>(m, s). length s)")
  fix m :: "string \<Rightarrow> 'a option" and s c r
  assume "dropWhile (\<lambda>c. c \<noteq> CHR 0x0A) s = c # r"
  with length_dropWhile_le [of "\<lambda>c. c \<noteq> CHR 0x0A" s] have "Suc (length r) \<le> length s" by simp
  then show "((m, r), (m, s)) \<in> measure (\<lambda>(m, s). length s)" by simp
qed simp

declare search_bol.simps [simp del]

definition AB_PATTERNS :: "(string \<times> (string \<Rightarrow> string option)) list" where
  "AB_PATTERNS =
     [(''requests_per_sec'', search_any requests_per_sec_at),
      (''mean_ms'', search_any mean_ms_at),
      (''p50_ms'', search_bol (percentile_at ''50%'')),
      (''p90_ms'', search_bol (percentile_at ''90%'')),
      (''p99_ms'', search_bol (percentile_at ''99%'')),
      (''failed_requests'', search_any failed_requests_at)]"

text \<open>\<open>float\<close> on the texts the patterns yield: digits with at most one point.\<close>

definition py_float :: "string \<Rightarrow> rat result" where
  "py_float s =
     (case split_on (CHR ''.'') s of
        [a] \<Rightarrow> if a = [] then Inl ValueError else Inr (dec_float (int (digits_val 10 a)) 0)
      | [a, b] \<Rightarrow> if a @ b = [] then Inl ValueError else Inr (dec_float (int (digits_val 10 (a @ b))) (length b))
      | _ \<Rightarrow> Inl ValueError)"

fun parse_ab :: "(string \<times> (string \<Rightarrow> string option)) list \<Rightarrow> string \<Rightarrow> (string \<times> rat) list result" where
  "parse_ab [] s = Inr []"
| "parse_ab ((key, pat) # pats) s =
     (case pat s of
        None \<Rightarrow> Inl (RuntimeError (''could not parse '' @ py_repr_str key @ '' from ab output:'' @ [CHR 0x0A] @ s))
      | Some t \<Rightarrow> bind_result (py_float t) (\<lambda>x. bind_result (parse_ab pats s) (\<lambda>r. Inr ((key, x) # r))))"

definition ab_cmd :: "int \<Rightarrow> int \<Rightarrow> string list" where
  "ab_cmd requests concurrency =
     [''ab'', ''-n'', py_str_int requests, ''-c'', py_str_int concurrency, ''http://localhost:8080/'']"

definition run_ab :: "int \<Rightarrow> int \<Rightarrow> (string \<times> rat) list io" where
  "run_ab requests concurrency =
     io_bind (subprocess_run False (ab_cmd requests concurrency) None None) (\<lambda>out. io_lift (parse_ab AB_PATTERNS out))"

section \<open>Repetitions and summaries\<close>

definition rep_error :: "py_host \<Rightarrow> string list \<Rightarrow> py_exn \<Rightarrow> string option" where
  "rep_error P cmd e = (case e of
     RuntimeError m \<Rightarrow> Some m
   | TimeoutExpired \<Rightarrow> Some (''Command '' @ [CHR 0x27] @ py_repr P (JArr (map JStr cmd)) @ [CHR 0x27] @
       '' timed out after 120 seconds'')
   | _ \<Rightarrow> None)"

definition one_rep :: "py_host \<Rightarrow> int \<Rightarrow> int \<Rightarrow> int \<Rightarrow> string \<Rightarrow> nat \<Rightarrow> (string \<times> rat) list option io" where
  "one_rep P requests concurrency reps label i =
     io_catch (io_bind (run_ab requests concurrency) (\<lambda>r. io_return (Some r)))
       (\<lambda>e. case rep_error P (ab_cmd requests concurrency) e of
          Some t \<Rightarrow> io_then (py_print (''[bench] WARNING: '' @ label @ '' rep '' @ py_str_int (int i + 1) @ ''/'' @
            py_str_int reps @ '' failed, skipping: '' @ t)) (io_return None)
        | None \<Rightarrow> io_raise e)"

definition somes :: "'a option list \<Rightarrow> 'a list" where
  "somes xs = concat (map (\<lambda>x. case x of None \<Rightarrow> [] | Some y \<Rightarrow> [y]) xs)"

definition run_ab_reps :: "py_host \<Rightarrow> int \<Rightarrow> int \<Rightarrow> int \<Rightarrow> string \<Rightarrow> (string \<times> rat) list list io" where
  "run_ab_reps P requests concurrency reps label =
     io_bind (io_map (one_rep P requests concurrency reps label) [0..<nat reps]) (\<lambda>rs.
       (let results = somes rs in
        if results = [] then
          io_raise (RuntimeError (''all '' @ py_str_int reps @ '' reps of '' @ py_repr_str label @
            '' failed -- nothing to report''))
        else io_then (io_when (int (length results) < reps)
               (py_print (''[bench] '' @ label @ '': '' @ py_str_int (int (length results)) @ ''/'' @ py_str_int reps @
                 '' reps succeeded'')))
             (io_return results)))"

definition py_mean :: "rat list \<Rightarrow> rat" where
  "py_mean xs = fl64 (sum_list xs / of_nat (length xs))"

definition column :: "string \<Rightarrow> (string \<times> rat) list list \<Rightarrow> rat list" where
  "column key reps = map (\<lambda>r. the (map_of r key)) reps"

text \<open>Mean and standard deviation per key.\<close>

definition summarize :: "py_host \<Rightarrow> (string \<times> rat) list list \<Rightarrow> (string \<times> rat \<times> rat) list" where
  "summarize P reps =
     map (\<lambda>key. (key, py_mean (column key reps),
            if 1 < length reps then host_stdev P (column key reps) else 0))
       (map fst (hd reps))"

definition pad_right :: "nat \<Rightarrow> string \<Rightarrow> string" where
  "pad_right n s = s @ replicate (n - length s) (CHR '' '')"

definition print_summary :: "py_host \<Rightarrow> string \<Rightarrow> (string \<times> rat \<times> rat) list \<Rightarrow> unit io" where
  "print_summary P label summary =
     io_then (py_print ([CHR 0x0A] @ ''== '' @ label @ '' ==''))
       (io_seq (map (\<lambda>(key, mean, sd). py_print (''  '' @ pad_right 20 key @ '' '' @ host_float_fmt P ''10.3f'' mean @
          '' +/- '' @ host_float_fmt P ''.3f'' sd)) summary))"

section \<open>The result file\<close>

definition indented :: "nat \<Rightarrow> string list \<Rightarrow> char \<Rightarrow> char \<Rightarrow> string" where
  "indented n items a b =
     (if items = [] then [a, b]
      else [a, CHR 0x0A] @ join ('','' @ [CHR 0x0A]) (map (\<lambda>t. replicate (n + 2) (CHR '' '') @ t) items) @
           [CHR 0x0A] @ replicate n (CHR '' '') @ [b])"

fun json_indent :: "nat \<Rightarrow> json \<Rightarrow> string" where
  "json_indent n (JArr xs) = indented n (map (json_indent (n + 2)) xs) (CHR ''['') (CHR '']'')"
| "json_indent n (JObj kvs) =
     indented n (map (\<lambda>(k, v). json_str k @ '': '' @ json_indent (n + 2) v) kvs) (CHR ''{'') (CHR ''}'')"
| "json_indent n v = json_dumps v"

text \<open>A float is written as its \<open>repr\<close>.\<close>

definition jfloat :: "py_host \<Rightarrow> rat \<Rightarrow> json" where
  "jfloat P x = JSpecial (host_float_str P x)"

definition json_reps :: "py_host \<Rightarrow> (string \<times> rat) list list \<Rightarrow> json" where
  "json_reps P reps = JArr (map (\<lambda>r. JObj (map (\<lambda>(k, x). (k, jfloat P x)) r)) reps)"

definition json_summary :: "py_host \<Rightarrow> (string \<times> rat \<times> rat) list \<Rightarrow> json" where
  "json_summary P s = JObj (map (\<lambda>(k, m, d). (k, JObj [(''mean'', jfloat P m), (''stddev'', jfloat P d)])) s)"

definition json_condition :: "py_host \<Rightarrow> (string \<times> rat) list list \<Rightarrow> json" where
  "json_condition P reps = JObj [(''per_rep'', json_reps P reps), (''summary'', json_summary P (summarize P reps))]"

definition mean_rps :: "py_host \<Rightarrow> (string \<times> rat) list list \<Rightarrow> rat" where
  "mean_rps P reps = fst (the (map_of (summarize P reps) ''requests_per_sec''))"

end
