(* ===== verification/Difflib.thy ===== *)
theory Difflib
  imports Py_Value
begin

text \<open>
  What \<open>validate_strace.py\<close> uses of \<open>difflib\<close>: the class \<open>SequenceMatcher\<close>
  (without junk, with and without the \<open>autojunk\<close> heuristic, which is on by default and
  leaves frequent elements out of the search) and \<open>unified_diff\<close>. Elements are compared
  as parsed values: that Python also takes \<open>1\<close>, \<open>1.0\<close> and \<open>True\<close> for the same
  element is not modelled.
\<close>

section \<open>The longest match\<close>

text \<open>How far two sequences agree, on elements that may be matched.\<close>

fun common :: "('a \<Rightarrow> bool) \<Rightarrow> 'a list \<Rightarrow> 'a list \<Rightarrow> nat" where
  "common ok (x # xs) (y # ys) = (if x = y \<and> ok x then Suc (common ok xs ys) else 0)"
| "common ok _ _ = 0"

text \<open>
  The search of \<open>find_longest_match\<close>: of all pairs of positions, in lexicographic order,
  the first whose common run is longest.
\<close>

definition better ::
    "('a \<Rightarrow> bool) \<Rightarrow> 'a list \<Rightarrow> 'a list \<Rightarrow> nat \<times> nat \<times> nat \<Rightarrow> nat \<times> nat \<Rightarrow> nat \<times> nat \<times> nat" where
  "better ok a b best ij =
     (let k = common ok (drop (fst ij) a) (drop (snd ij) b) in
      if snd (snd best) < k then (fst ij, snd ij, k) else best)"

definition longest_match :: "('a \<Rightarrow> bool) \<Rightarrow> 'a list \<Rightarrow> 'a list \<Rightarrow> nat \<times> nat \<times> nat" where
  "longest_match ok a b = foldl (better ok a b) (0, 0, 0) (List.product [0..<length a] [0..<length b])"

text \<open>The match found is extended on both sides by whatever agrees.\<close>

abbreviation agree :: "'a list \<Rightarrow> 'a list \<Rightarrow> nat" where
  "agree \<equiv> common (\<lambda>_. True)"

definition find_longest_match :: "('a \<Rightarrow> bool) \<Rightarrow> 'a list \<Rightarrow> 'a list \<Rightarrow> nat \<times> nat \<times> nat" where
  "find_longest_match ok a b =
     (case longest_match ok a b of (i, j, k) \<Rightarrow>
       (let l = agree (rev (take i a)) (rev (take j b)); r = agree (drop (i + k) a) (drop (j + k) b) in
        (i - l, j - l, l + k + r)))"

section \<open>Matching blocks\<close>

definition shift :: "nat \<Rightarrow> nat \<Rightarrow> nat \<times> nat \<times> nat \<Rightarrow> nat \<times> nat \<times> nat" where
  "shift p q m = (case m of (i, j, k) \<Rightarrow> (i + p, j + q, k))"

text \<open>A stretch of the two sequences that is the same.\<close>

definition run_ok :: "'a list \<Rightarrow> 'a list \<Rightarrow> nat \<times> nat \<times> nat \<Rightarrow> bool" where
  "run_ok a b m = (case m of (i, j, k) \<Rightarrow>
     i + k \<le> length a \<and> j + k \<le> length b \<and> take k (drop i a) = take k (drop j b))"

lemma common_le: "common ok xs ys \<le> length xs" "common ok xs ys \<le> length ys"
  by (induction ok xs ys rule: common.induct) auto

lemma common_take: "take (common ok xs ys) xs = take (common ok xs ys) ys"
  by (induction ok xs ys rule: common.induct) auto

lemma common_all: "list_all ok (take (common ok xs ys) xs)"
  by (induction ok xs ys rule: common.induct) auto

lemma common_ge:
  "take k xs = take k ys \<Longrightarrow> list_all ok (take k xs) \<Longrightarrow> k \<le> length xs \<Longrightarrow> k \<le> length ys \<Longrightarrow> k \<le> common ok xs ys"
proof (induction ok xs ys arbitrary: k rule: common.induct)
  case (1 ok x xs y ys)
  then show ?case by (cases k) auto
qed auto

lemma run_ok_common:
  "run_ok a b (i, j, k) \<Longrightarrow> list_all ok (take k (drop i a)) \<Longrightarrow> k \<le> common ok (drop i a) (drop j b)"
  by (auto simp: run_ok_def intro!: common_ge)

lemma common_run_ok: "i \<le> length a \<Longrightarrow> j \<le> length b \<Longrightarrow> run_ok a b (i, j, common ok (drop i a) (drop j b))"
  using common_le [of ok "drop i a" "drop j b"] common_take [of ok "drop i a" "drop j b"] by (auto simp: run_ok_def)

lemma foldl_better:
  assumes "set ps \<subseteq> {..length a} \<times> {..length b}" "run_ok a b m"
  shows "run_ok a b (foldl (better ok a b) m ps) \<and> snd (snd m) \<le> snd (snd (foldl (better ok a b) m ps)) \<and>
    (\<forall>p \<in> set ps. common ok (drop (fst p) a) (drop (snd p) b) \<le> snd (snd (foldl (better ok a b) m ps)))"
  using assms
proof (induction ps arbitrary: m)
  case (Cons p ps)
  let ?m = "better ok a b m p"
  have "fst p \<le> length a" "snd p \<le> length b" using Cons.prems(1) by auto
  then have ok: "run_ok a b ?m" "snd (snd m) \<le> snd (snd ?m)" "common ok (drop (fst p) a) (drop (snd p) b) \<le> snd (snd ?m)"
    using Cons.prems(2) common_run_ok [of "fst p" a "snd p" b] by (auto simp: better_def Let_def)
  have "set ps \<subseteq> {..length a} \<times> {..length b}" using Cons.prems(1) by simp
  from Cons.IH [OF this ok(1)] ok show ?case by (auto intro: order_trans)
qed simp

lemma longest_match_ok:
  assumes "longest_match ok a b = (i, j, k)"
  shows "run_ok a b (i, j, k)"
    and "run_ok a b (i', j', k') \<Longrightarrow> list_all ok (take k' (drop i' a)) \<Longrightarrow> k' \<le> k"
proof -
  let ?ps = "List.product [0..<length a] [0..<length b]"
  have "set ?ps \<subseteq> {..length a} \<times> {..length b}" "run_ok a b (0, 0, 0)" by (auto simp: run_ok_def)
  note best = foldl_better [OF this, of ok, folded longest_match_def, unfolded assms]
  show "run_ok a b (i, j, k)" using best by simp
  assume ok: "run_ok a b (i', j', k')" "list_all ok (take k' (drop i' a))"
  show "k' \<le> k"
  proof (cases "k' = 0")
    case False
    with ok have "(i', j') \<in> set ?ps" by (auto simp: run_ok_def)
    with best have "common ok (drop i' a) (drop j' b) \<le> k" by fastforce
    with run_ok_common [OF ok] show ?thesis by simp
  qed simp
qed

lemma run_ok_join:
  "run_ok a b (i, j, k) \<Longrightarrow> run_ok a b (i + k, j + k, k') \<Longrightarrow> run_ok a b (i, j, k + k')"
  by (auto simp: run_ok_def take_add add.commute)

lemma agree_before:
  assumes "i \<le> length a" "j \<le> length b"
  defines "l \<equiv> agree (rev (take i a)) (rev (take j b))"
  shows "l \<le> i" "l \<le> j" "run_ok a b (i - l, j - l, l)"
proof -
  show le: "l \<le> i" "l \<le> j"
    using assms common_le [of "\<lambda>_. True" "rev (take i a)" "rev (take j b)"] by auto
  have "take l (rev (take i a)) = take l (rev (take j b))" unfolding l_def by (rule common_take)
  then have "drop (i - l) (take i a) = drop (j - l) (take j b)"
    using assms(1,2) by (simp add: take_rev)
  then have "take l (drop (i - l) a) = take l (drop (j - l) b)" using le by (simp add: drop_take)
  with assms(1,2) le show "run_ok a b (i - l, j - l, l)" by (simp add: run_ok_def)
qed

lemma find_longest_match_ok:
  assumes "find_longest_match ok a b = (i, j, k)"
  shows "run_ok a b (i, j, k)"
    and "run_ok a b (i', j', k') \<Longrightarrow> list_all ok (take k' (drop i' a)) \<Longrightarrow> k' \<le> k"
proof -
  obtain i0 j0 k0 where m: "longest_match ok a b = (i0, j0, k0)" by (cases "longest_match ok a b")
  let ?l = "agree (rev (take i0 a)) (rev (take j0 b))" and ?r = "agree (drop (i0 + k0) a) (drop (j0 + k0) b)"
  have f: "i = i0 - ?l" "j = j0 - ?l" "k = ?l + k0 + ?r"
    using assms m by (simp_all add: find_longest_match_def Let_def)
  note ok = longest_match_ok [OF m]
  have le: "i0 + k0 \<le> length a" "j0 + k0 \<le> length b" using ok(1) by (simp_all add: run_ok_def)
  have "run_ok a b (i0 - ?l, j0 - ?l, ?l + k0)"
    using le agree_before [of i0 a j0 b] ok(1) by (intro run_ok_join) simp_all
  moreover have "run_ok a b (i0 - ?l + (?l + k0), j0 - ?l + (?l + k0), ?r)"
    using le agree_before(1,2) [of i0 a j0 b] common_run_ok [of "i0 + k0" a "j0 + k0" b] by simp
  ultimately show "run_ok a b (i, j, k)" using run_ok_join unfolding f by fastforce
  show "k' \<le> k" if "run_ok a b (i', j', k')" "list_all ok (take k' (drop i' a))"
    using ok(2) [OF that] f(3) by simp
qed

text \<open>\<open>get_matching_blocks\<close>: left of the longest match, the match, right of it.\<close>

function raw_blocks :: "('a \<Rightarrow> bool) \<Rightarrow> 'a list \<Rightarrow> 'a list \<Rightarrow> (nat \<times> nat \<times> nat) list" where
  "raw_blocks ok a b =
     (case find_longest_match ok a b of (i, j, k) \<Rightarrow>
        if k = 0 then []
        else raw_blocks ok (take i a) (take j b) @ (i, j, k) #
          map (shift (i + k) (j + k)) (raw_blocks ok (drop (i + k) a) (drop (j + k) b)))"
  by pat_completeness auto
termination
  by (relation "measure (\<lambda>(ok, a, b). length a)")
    (auto dest!: find_longest_match_ok(1) [OF sym] simp: run_ok_def)

declare raw_blocks.simps [simp del]

text \<open>Adjacent blocks are merged, and a dummy of size 0 closes the list.\<close>

fun merge_blocks :: "(nat \<times> nat \<times> nat) list \<Rightarrow> (nat \<times> nat \<times> nat) list" where
  "merge_blocks ((i, j, k) # (i', j', k') # ms) =
     (if i + k = i' \<and> j + k = j' then merge_blocks ((i, j, k + k') # ms)
      else (i, j, k) # merge_blocks ((i', j', k') # ms))"
| "merge_blocks ms = ms"

definition matching_blocks :: "('a \<Rightarrow> bool) \<Rightarrow> 'a list \<Rightarrow> 'a list \<Rightarrow> (nat \<times> nat \<times> nat) list" where
  "matching_blocks ok a b = merge_blocks (raw_blocks ok a b) @ [(length a, length b, 0)]"

text \<open>The elements \<open>autojunk\<close> takes out: in a long sequence, those with more than 1 percent.\<close>

definition popular :: "'a list \<Rightarrow> 'a \<Rightarrow> bool" where
  "popular b x \<longleftrightarrow> 200 \<le> length b \<and> length b div 100 + 1 < count_list b x"

text \<open>\<open>ratio\<close> without \<open>autojunk\<close>.\<close>

definition sm_ratio :: "'a list \<Rightarrow> 'a list \<Rightarrow> rat" where
  "sm_ratio a b =
     (if length a + length b = 0 then 1
      else fl64 (2 * of_nat (sum_list (map (\<lambda>(i, j, k). k) (matching_blocks (\<lambda>_. True) a b))) / of_nat (length a + length b)))"

text \<open>\<open>max(blocks, key=size, default=None)\<close> over the blocks of positive size: the first greatest.\<close>

definition longest_block :: "(nat \<times> nat \<times> nat) list \<Rightarrow> (nat \<times> nat \<times> nat) option" where
  "longest_block ms =
     (case filter (\<lambda>(i, j, k). 0 < k) ms of
        [] \<Rightarrow> None
      | m # ms \<Rightarrow> Some (foldl (\<lambda>x y. if snd (snd x) < snd (snd y) then y else x) m ms))"

section \<open>Unified diffs\<close>

datatype op_tag = Equal | Replace | Delete | Insert

text \<open>\<open>(tag, i1, i2, j1, j2)\<close>: \<open>a[i1:i2]\<close> becomes \<open>b[j1:j2]\<close>.\<close>

datatype opcode = Op (op_tag: op_tag) (op_i1: nat) (op_i2: nat) (op_j1: nat) (op_j2: nat)

definition change_op :: "nat \<Rightarrow> nat \<Rightarrow> nat \<Rightarrow> nat \<Rightarrow> opcode list" where
  "change_op i ai j bj =
     (if i < ai \<and> j < bj then [Op Replace i ai j bj]
      else if i < ai then [Op Delete i ai j bj]
      else if j < bj then [Op Insert i ai j bj] else [])"

text \<open>\<open>get_opcodes\<close>, from the positions reached.\<close>

fun opcodes_from :: "nat \<Rightarrow> nat \<Rightarrow> (nat \<times> nat \<times> nat) list \<Rightarrow> opcode list" where
  "opcodes_from i j [] = []"
| "opcodes_from i j ((ai, bj, k) # ms) =
     change_op i ai j bj @ (if k = 0 then [] else [Op Equal ai (ai + k) bj (bj + k)]) @
     opcodes_from (ai + k) (bj + k) ms"

text \<open>
  \<open>get_grouped_opcodes(3)\<close>: the first and the last code are cut down to three elements
  of context, and a long stretch without changes ends a group.
\<close>

definition cut_front :: "opcode \<Rightarrow> opcode" where
  "cut_front c = (case c of Op t i1 i2 j1 j2 \<Rightarrow>
     if t = Equal then Op t (max i1 (i2 - 3)) i2 (max j1 (j2 - 3)) j2 else c)"

definition cut_back :: "opcode \<Rightarrow> opcode" where
  "cut_back c = (case c of Op t i1 i2 j1 j2 \<Rightarrow>
     if t = Equal then Op t i1 (min i2 (i1 + 3)) j1 (min j2 (j1 + 3)) else c)"

definition trimmed :: "opcode list \<Rightarrow> opcode list" where
  "trimmed codes =
     (let cs = (if codes = [] then [Op Equal 0 1 0 1] else codes);
          cs = cut_front (hd cs) # tl cs
      in butlast cs @ [cut_back (last cs)])"

fun group_codes :: "opcode list \<Rightarrow> opcode list \<Rightarrow> opcode list list" where
  "group_codes grp [] =
     (if grp = [] \<or> length grp = 1 \<and> op_tag (hd grp) = Equal then [] else [grp])"
| "group_codes grp (Op t i1 i2 j1 j2 # cs) =
     (if t = Equal \<and> 6 < i2 - i1
      then (grp @ [Op t i1 (min i2 (i1 + 3)) j1 (min j2 (j1 + 3))]) #
        group_codes [Op t (max i1 (i2 - 3)) i2 (max j1 (j2 - 3)) j2] cs
      else group_codes (grp @ [Op t i1 i2 j1 j2]) cs)"

definition grouped_opcodes :: "'a list \<Rightarrow> 'a list \<Rightarrow> opcode list list" where
  "grouped_opcodes a b =
     group_codes [] (trimmed (opcodes_from 0 0 (matching_blocks (\<lambda>x. \<not> popular b x) a b)))"

definition piece :: "nat \<Rightarrow> nat \<Rightarrow> 'a list \<Rightarrow> 'a list" where
  "piece i j xs = take (j - i) (drop i xs)"

text \<open>The elements a code shows, each with the mark in front of it.\<close>

definition op_items :: "'a list \<Rightarrow> 'a list \<Rightarrow> opcode \<Rightarrow> (char \<times> 'a) list" where
  "op_items a b c = (case c of Op t i1 i2 j1 j2 \<Rightarrow>
     if t = Equal then map (Pair (CHR '' '')) (piece i1 i2 a)
     else (if t = Replace \<or> t = Delete then map (Pair (CHR ''-'')) (piece i1 i2 a) else []) @
       (if t = Replace \<or> t = Insert then map (Pair (CHR ''+'')) (piece j1 j2 b) else []))"

text \<open>A group with the stretches it covers, and its text.\<close>

datatype 'a hunk = Hunk nat nat nat nat "(char \<times> 'a) list"

definition hunk_of :: "'a list \<Rightarrow> 'a list \<Rightarrow> opcode list \<Rightarrow> 'a hunk" where
  "hunk_of a b g =
     Hunk (op_i1 (hd g)) (op_i2 (last g)) (op_j1 (hd g)) (op_j2 (last g)) (concat (map (op_items a b) g))"

definition hunks :: "'a list \<Rightarrow> 'a list \<Rightarrow> 'a hunk list" where
  "hunks a b = map (hunk_of a b) (grouped_opcodes a b)"

definition format_range_unified :: "nat \<Rightarrow> nat \<Rightarrow> string" where
  "format_range_unified start stop =
     (let beginning = start + 1; n = stop - start in
      if n = 1 then py_str_int (int beginning)
      else py_str_int (int (if n = 0 then beginning - 1 else beginning)) @ '','' @ py_str_int (int n))"

text \<open>Only texts can be put behind a mark.\<close>

definition item_line :: "char \<times> json \<Rightarrow> string result" where
  "item_line x = (case snd x of JStr s \<Rightarrow> Inr (fst x # s) | _ \<Rightarrow> Inl TypeError)"

fun hunk_lines :: "json hunk \<Rightarrow> string list result" where
  "hunk_lines (Hunk i1 i2 j1 j2 items) =
     bind_result (map_result item_line items) (\<lambda>ls.
       Inr ((''@@ -'' @ format_range_unified i1 i2 @ '' +'' @ format_range_unified j1 j2 @ '' @@'') # ls))"

definition is_str :: "json \<Rightarrow> bool" where
  "is_str v = (case v of JStr s \<Rightarrow> True | _ \<Rightarrow> False)"

text \<open>\<open>list(difflib.unified_diff(a, b, fromfile, tofile, lineterm=""))\<close>; the types of the first elements are checked first.\<close>

definition unified_diff :: "string \<Rightarrow> string \<Rightarrow> json list \<Rightarrow> json list \<Rightarrow> string list result" where
  "unified_diff fromfile tofile a b =
     (if a \<noteq> [] \<and> \<not> is_str (hd a) \<or> b \<noteq> [] \<and> \<not> is_str (hd b) then Inl TypeError
      else bind_result (map_result hunk_lines (hunks a b)) (\<lambda>hs.
        Inr (if hs = [] then [] else (''--- '' @ fromfile) # (''+++ '' @ tofile) # concat hs)))"

end
