(* ===== verification/Difflib_Proofs.thy ===== *)
theory Difflib_Proofs
  imports Difflib
begin

text \<open>
  What \<open>difflib\<close>'s answers mean: the blocks are common runs in order, the longest one is a
  longest common run, the opcodes lead from one sequence to the other, a unified diff
  patches the first sequence into the second and is empty exactly if they are the same.
\<close>

section \<open>Matching blocks are common runs\<close>

lemma run_ok_take: "run_ok (take p a) (take q b) m \<Longrightarrow> run_ok a b m"
  by (cases m) (auto simp: run_ok_def take_drop [symmetric] drop_take min_def split: if_splits)

lemma run_ok_drop: "run_ok (drop p a) (drop q b) m \<Longrightarrow> p \<le> length a \<Longrightarrow> q \<le> length b \<Longrightarrow> run_ok a b (shift p q m)"
  by (cases m) (auto simp: run_ok_def shift_def add.commute add.left_commute)

lemma raw_blocks_ok: "m \<in> set (raw_blocks ok a b) \<Longrightarrow> run_ok a b m"
proof (induction ok a b arbitrary: m rule: raw_blocks.induct)
  case (1 ok a b)
  obtain i j k where lm: "find_longest_match ok a b = (i, j, k)" by (cases "find_longest_match ok a b")
  note run = find_longest_match_ok(1) [OF lm]
  have k: "k \<noteq> 0" using 1(3) lm by (subst (asm) raw_blocks.simps) (auto split: if_splits)
  from 1(3) lm k consider "m \<in> set (raw_blocks ok (take i a) (take j b))" | "m = (i, j, k)"
    | m' where "m' \<in> set (raw_blocks ok (drop (i + k) a) (drop (j + k) b))" "m = shift (i + k) (j + k) m'"
    by (subst (asm) raw_blocks.simps) auto
  then show ?case
  proof cases
    case 1
    from "1.IH"(1) [OF lm [symmetric] refl k this] show ?thesis by (rule run_ok_take)
  next
    case 2
    with run show ?thesis by simp
  next
    case (3 m')
    from "1.IH"(2) [OF lm [symmetric] refl k 3(1)] run 3(2) show ?thesis
      by (auto simp: run_ok_def [of a b "(i, j, k)"] intro: run_ok_drop)
  qed
qed

lemma merge_blocks_ok:
  "(\<And>m. m \<in> set ms \<Longrightarrow> run_ok a b m) \<Longrightarrow> m \<in> set (merge_blocks ms) \<Longrightarrow> run_ok a b m"
  by (induction ms rule: merge_blocks.induct) (auto split: if_splits intro: run_ok_join)

lemma merge_blocks_covers: "m \<in> set ms \<Longrightarrow> \<exists>m' \<in> set (merge_blocks ms). snd (snd m) \<le> snd (snd m')"
proof (induction ms arbitrary: m rule: merge_blocks.induct)
  case (1 i j k i' j' k' ms)
  show ?case
  proof (cases "i + k = i' \<and> j + k = j'")
    case True
    obtain n where "n \<in> set ((i, j, k + k') # ms)" "snd (snd m) \<le> snd (snd n)"
    proof (cases "m \<in> set ms")
      case True
      then show ?thesis by (intro that [of m]) auto
    next
      case False
      with "1.prems" show ?thesis by (intro that [of "(i, j, k + k')"]) auto
    qed
    with "1.IH"(1) [OF True this(1)] True show ?thesis by (auto intro: order_trans)
  next
    case False
    with "1.prems" "1.IH"(2) [OF False, of m] show ?thesis by auto
  qed
qed auto

lemma max_block:
  "foldl (\<lambda>x y. if snd (snd x) < snd (snd y) then y else x) m ms \<in> set (m # ms) \<and>
   (\<forall>n \<in> set (m # ms). snd (snd n) \<le> snd (snd (foldl (\<lambda>x y. if snd (snd x) < snd (snd y) then y else x) m (ms :: (nat \<times> nat \<times> nat) list))))"
proof (induction ms arbitrary: m)
  case (Cons y ms)
  from Cons.IH [of "if snd (snd m) < snd (snd y) then y else m"] show ?case by (auto split: if_splits)
qed simp

lemma longest_block_run:
  "case longest_block (matching_blocks (\<lambda>_. True) a b) of
     Some (i, j, k) \<Rightarrow> run_ok a b (i, j, k) \<and> 0 < k \<and> (\<forall>i' j' k'. run_ok a b (i', j', k') \<longrightarrow> k' \<le> k)
   | None \<Rightarrow> set a \<inter> set b = {}"
proof -
  obtain i0 j0 k0 where lm: "find_longest_match (\<lambda>_. True) a b = (i0, j0, k0)" by (cases "find_longest_match (\<lambda>_. True) a b")
  let ?ms = "matching_blocks (\<lambda>_. True) a b" and ?pos = "\<lambda>(i :: nat, j :: nat, k :: nat). 0 < k"
  have ok: "run_ok a b m" if "m \<in> set (filter ?pos ?ms)" for m
    using that merge_blocks_ok [OF raw_blocks_ok] by (auto simp: matching_blocks_def)
  have found: "\<exists>m \<in> set (filter ?pos ?ms). k0 \<le> snd (snd m)" if "0 < k0"
  proof -
    have "(i0, j0, k0) \<in> set (raw_blocks (\<lambda>_. True) a b)" using that lm by (subst raw_blocks.simps) simp
    from merge_blocks_covers [OF this] that show ?thesis by (force simp: matching_blocks_def)
  qed
  show ?thesis
  proof (cases "filter ?pos ?ms")
    case Nil
    then have "k0 = 0" using found by fastforce
    have "x \<notin> set b" if x: "x \<in> set a" for x
    proof
      assume "x \<in> set b"
      with x obtain i j where "i < length a" "a ! i = x" "j < length b" "b ! j = x" by (auto simp: in_set_conv_nth)
      then have "run_ok a b (i, j, 1)" by (auto simp: run_ok_def Cons_nth_drop_Suc [symmetric])
      from find_longest_match_ok(2) [OF lm this] \<open>k0 = 0\<close> show False by (simp add: list_all_iff)
    qed
    with Nil show ?thesis by (auto simp: longest_block_def)
  next
    case (Cons m ms)
    obtain i j k where best: "foldl (\<lambda>x y. if snd (snd x) < snd (snd y) then y else x) m ms = (i, j, k)"
      by (cases "foldl (\<lambda>x y. if snd (snd x) < snd (snd y) then y else x) m ms")
    from max_block [of m ms, unfolded best] have mem: "(i, j, k) \<in> set (filter ?pos ?ms)"
      and max: "\<And>n. n \<in> set (filter ?pos ?ms) \<Longrightarrow> snd (snd n) \<le> k" unfolding Cons by auto
    have "k' \<le> k" if "run_ok a b (i', j', k')" for i' j' k'
    proof (cases "0 < k0")
      case True
      from found [OF this] max have "k0 \<le> k" by fastforce
      with find_longest_match_ok(2) [OF lm that] show ?thesis by (simp add: list_all_iff)
    next
      case False
      with find_longest_match_ok(2) [OF lm that] show ?thesis by (simp add: list_all_iff)
    qed
    moreover have "0 < k" using mem by simp
    ultimately show ?thesis using ok [OF mem] by (simp add: longest_block_def Cons best)
  qed
qed

lemma longest_block_max:
  "longest_block (matching_blocks (\<lambda>_. True) a b) = Some (i, j, k) \<Longrightarrow> run_ok a b (i', j', k') \<Longrightarrow> k' \<le> k"
  using longest_block_run [of a b] by simp

text \<open>
  C40: the longest matching run. When \<open>validate_strace.py\<close> reports a longest run, the two
  stretches it names are equal, lie inside the two logs and are not empty, and no common
  contiguous run of the two logs is longer; when it reports none, the logs have no name in
  common.
\<close>

theorem longest_run:
  "case longest_block (matching_blocks (\<lambda>_. True) a b) of
     Some (i, j, k) \<Rightarrow> run_ok a b (i, j, k) \<and> 0 < k \<and> (\<forall>i' j' k'. run_ok a b (i', j', k') \<longrightarrow> k' \<le> k)
   | None \<Rightarrow> set a \<inter> set b = {}"
  by (rule longest_block_run)

theorem longest_run_witness:
  "run_ok [''open'', ''read'', ''close'', ''write''] [''read'', ''close'', ''mmap''] (1, 0, 2) \<and>
   \<not> run_ok [''open'', ''read'', ''close'', ''write''] [''read'', ''close'', ''mmap''] (1, 0, 3)"
proof -
  have "longest_block (matching_blocks (\<lambda>_. True) [''open'', ''read'', ''close'', ''write''] [''read'', ''close'', ''mmap'']) =
      Some (1, 0, 2)" by code_simp
  with longest_run [of "[''open'', ''read'', ''close'', ''write'']" "[''read'', ''close'', ''mmap'']"]
  have best: "run_ok [''open'', ''read'', ''close'', ''write''] [''read'', ''close'', ''mmap''] (1, 0, 2) \<and>
      (\<forall>i j k. run_ok [''open'', ''read'', ''close'', ''write''] [''read'', ''close'', ''mmap''] (i, j, k) \<longrightarrow> k \<le> 2)"
    by (simp only: option.case prod.case) blast
  then show ?thesis by fastforce
qed

section \<open>A sequence against itself\<close>

abbreviation before :: "nat \<times> nat \<Rightarrow> nat \<times> nat \<Rightarrow> bool" where
  "before p q \<equiv> fst p < fst q \<or> fst p = fst q \<and> snd p < snd q"

lemma product_before:
  "sorted_wrt (<) xs \<Longrightarrow> sorted_wrt (<) ys \<Longrightarrow> sorted_wrt before (List.product xs ys)"
  by (induction xs) (auto simp: sorted_wrt_append sorted_wrt_map)

lemma foldl_better_keeps:
  "foldl (better ok a b) m ps = m \<or> snd (snd m) < snd (snd (foldl (better ok a b) m ps))"
proof (induction ps arbitrary: m)
  case (Cons p ps)
  from Cons [of "better ok a b m p"] show ?case by (auto simp: better_def Let_def split: if_splits)
qed simp

text \<open>The search keeps the first of the longest runs.\<close>

lemma foldl_better_first:
  assumes "foldl (better ok a b) m ps = (i, j, k)" "snd (snd m) < k"
  shows "\<exists>ps1 ps2. ps = ps1 @ (i, j) # ps2 \<and> common ok (drop i a) (drop j b) = k \<and>
    (\<forall>p \<in> set ps1. common ok (drop (fst p) a) (drop (snd p) b) < k)"
  using assms
proof (induction ps arbitrary: m)
  case (Cons p ps)
  let ?k = "common ok (drop (fst p) a) (drop (snd p) b)"
  show ?case
  proof (cases "snd (snd m) < ?k")
    case False
    then have "better ok a b m p = m" by (simp add: better_def)
    with Cons obtain ps1 ps2 where "ps = ps1 @ (i, j) # ps2" "common ok (drop i a) (drop j b) = k"
      "\<forall>p \<in> set ps1. common ok (drop (fst p) a) (drop (snd p) b) < k" by fastforce
    with False Cons.prems(2) show ?thesis by (intro exI [of _ "p # ps1"] exI [of _ ps2]) auto
  next
    case True
    then have m: "better ok a b m p = (fst p, snd p, ?k)" by (simp add: better_def)
    show ?thesis
    proof (cases "?k < k")
      case True
      with Cons m obtain ps1 ps2 where "ps = ps1 @ (i, j) # ps2" "common ok (drop i a) (drop j b) = k"
        "\<forall>p \<in> set ps1. common ok (drop (fst p) a) (drop (snd p) b) < k" by fastforce
      with True show ?thesis by (intro exI [of _ "p # ps1"] exI [of _ ps2]) auto
    next
      case False
      from foldl_better_keeps [of ok a b "(fst p, snd p, ?k)" ps] False Cons.prems(1) m have "(i, j, k) = (fst p, snd p, ?k)" by auto
      then show ?thesis by (intro exI [of _ "[]"] exI [of _ ps]) auto
    qed
  qed
qed simp

lemma common_same: "common ok (drop i a) (drop j a) \<le> common ok (drop i a) (drop i a)"
  and common_same': "common ok (drop i a) (drop j a) \<le> common ok (drop j a) (drop j a)"
proof -
  let ?k = "common ok (drop i a) (drop j a)"
  have all: "list_all ok (take ?k (drop i a))" by (rule common_all)
  have "take ?k (drop i a) = take ?k (drop j a)" by (rule common_take)
  with all have all': "list_all ok (take ?k (drop j a))" by simp
  show "?k \<le> common ok (drop i a) (drop i a)"
    using all common_le(1) [of ok "drop i a" "drop j a"] by (intro common_ge) simp_all
  show "?k \<le> common ok (drop j a) (drop j a)"
    using all' common_le(2) [of ok "drop i a" "drop j a"] by (intro common_ge) simp_all
qed

lemma longest_match_self:
  assumes "longest_match ok a a = (i, j, k)"
  shows "i = j"
proof (cases "0 < k")
  case True
  let ?ps = "List.product [0..<length a] [0..<length a]"
  from foldl_better_first [OF assms [unfolded longest_match_def]] True obtain ps1 ps2
    where ps: "?ps = ps1 @ (i, j) # ps2" "common ok (drop i a) (drop j a) = k"
      "\<And>p. p \<in> set ps1 \<Longrightarrow> common ok (drop (fst p) a) (drop (snd p) a) < k" by auto
  have "sorted_wrt before ?ps" by (intro product_before) simp_all
  then have later: "before (i, j) p" if "p \<in> set ps2" for p
    using that unfolding ps(1) by (auto simp: sorted_wrt_append)
  have "(i, j) \<in> set ?ps" unfolding ps(1) by simp
  then have len: "i < length a" "j < length a" by auto
  have diag: "\<not> before (d, d) (i, j)" if "d < length a" "k \<le> common ok (drop d a) (drop d a)" for d
  proof
    assume b: "before (d, d) (i, j)"
    have "(d, d) \<in> set ?ps" using that(1) by simp
    then have "(d, d) \<in> set ps1 \<or> (d, d) = (i, j) \<or> (d, d) \<in> set ps2" unfolding ps(1) by auto
    with b later [of "(d, d)"] have "(d, d) \<in> set ps1" by auto
    with ps(3) [of "(d, d)"] that(2) show False by simp
  qed
  from diag [OF len(1)] diag [OF len(2)] common_same [of ok i a j] common_same' [of ok i a j] ps(2) show "i = j"
    by fastforce
next
  case False
  with foldl_better_keeps [of ok a a "(0, 0, 0)" "List.product [0..<length a] [0..<length a]"] assms show ?thesis
    by (auto simp: longest_match_def)
qed

lemma agree_self: "agree xs xs = length xs"
  by (induction xs) simp_all

lemma find_longest_match_self: "find_longest_match ok a a = (0, 0, length a)"
proof -
  obtain i j k where m: "longest_match ok a a = (i, j, k)" by (cases "longest_match ok a a")
  have "i = j" "i + k \<le> length a" using longest_match_self [OF m] longest_match_ok(1) [OF m] by (auto simp: run_ok_def)
  with m show ?thesis by (simp add: find_longest_match_def agree_self)
qed

lemma raw_blocks_self: "raw_blocks ok a a = (if a = [] then [] else [(0, 0, length a)])"
proof -
  have "raw_blocks ok [] [] = []" by (subst raw_blocks.simps) (simp add: find_longest_match_self)
  then show ?thesis by (subst raw_blocks.simps) (simp add: find_longest_match_self)
qed

lemma matching_blocks_self:
  "matching_blocks ok a a = (if a = [] then [] else [(0, 0, length a)]) @ [(length a, length a, 0)]"
  by (simp add: matching_blocks_def raw_blocks_self)

text \<open>A sequence is wholly similar to itself, in one run, and has an empty diff.\<close>

lemma sm_ratio_self: "sm_ratio a a = 1"
  using fl64_of_int [of 1] by (simp add: sm_ratio_def matching_blocks_self)

lemma longest_block_self:
  "longest_block (matching_blocks ok a a) = (if a = [] then None else Some (0, 0, length a))"
  by (simp add: matching_blocks_self longest_block_def)

lemma hunks_self: "hunks a a = []"
  by (simp add: hunks_def grouped_opcodes_def matching_blocks_self change_op_def trimmed_def cut_front_def
      cut_back_def Let_def)

section \<open>Blocks follow one another\<close>

fun chained :: "nat \<Rightarrow> nat \<Rightarrow> (nat \<times> nat \<times> nat) list \<Rightarrow> nat \<Rightarrow> nat \<Rightarrow> bool" where
  "chained i j [] p q \<longleftrightarrow> i \<le> p \<and> j \<le> q"
| "chained i j ((i', j', k) # ms) p q \<longleftrightarrow> i \<le> i' \<and> j \<le> j' \<and> chained (i' + k) (j' + k) ms p q"

lemma chained_later: "chained i j ms p q \<Longrightarrow> i' \<le> i \<Longrightarrow> j' \<le> j \<Longrightarrow> chained i' j' ms p q"
  by (cases "(i, j, ms, p, q)" rule: chained.cases) auto

lemma chained_append: "chained i j ms p q \<Longrightarrow> chained p q ns r s \<Longrightarrow> chained i j (ms @ ns) r s"
  by (induction i j ms p q rule: chained.induct) (auto intro: chained_later)

lemma chained_shift: "chained i j ms p q \<Longrightarrow> chained (i + x) (j + y) (map (shift x y) ms) (p + x) (q + y)"
proof (induction i j ms p q rule: chained.induct)
  case (2 i j i' j' k ms p q)
  then show ?case by (simp add: shift_def ac_simps)
qed simp

lemma chained_merge: "chained i j ms p q \<Longrightarrow> chained i j (merge_blocks ms) p q"
proof (induction ms arbitrary: i j rule: merge_blocks.induct)
  case (1 i1 j1 k i' j' k' ms)
  then show ?case by (auto simp: ac_simps)
qed auto

lemma raw_blocks_chained: "chained 0 0 (raw_blocks ok a b) (length a) (length b)"
proof (induction ok a b rule: raw_blocks.induct)
  case (1 ok a b)
  obtain i j k where f: "find_longest_match ok a b = (i, j, k)" by (cases "find_longest_match ok a b")
  have le: "i + k \<le> length a" "j + k \<le> length b" using find_longest_match_ok(1) [OF f] by (auto simp: run_ok_def)
  show ?case
  proof (cases "k = 0")
    case True
    with f show ?thesis by (subst raw_blocks.simps) simp
  next
    case False
    from "1.IH"(1) [OF f [symmetric] refl False] le
    have left: "chained 0 0 (raw_blocks ok (take i a) (take j b)) i j" by simp
    from chained_shift [OF "1.IH"(2) [OF f [symmetric] refl False], of "i + k" "j + k"] le
    have "chained (i + k) (j + k) (map (shift (i + k) (j + k)) (raw_blocks ok (drop (i + k) a) (drop (j + k) b)))
        (length a) (length b)" by simp
    then have "chained i j ((i, j, k) # map (shift (i + k) (j + k)) (raw_blocks ok (drop (i + k) a) (drop (j + k) b)))
        (length a) (length b)" by simp
    with chained_append [OF left this] f False show ?thesis by (subst raw_blocks.simps) simp
  qed
qed

section \<open>Opcodes lead from one sequence to the other\<close>

lemma piece_append: "x \<le> p \<Longrightarrow> p \<le> i \<Longrightarrow> piece x p a @ piece p i a = piece x i a"
  using take_add [of "p - x" "i - p" "drop x a"] by (simp add: piece_def)

lemma piece_drop: "x \<le> p \<Longrightarrow> piece x p a @ drop p a = drop x a"
  using append_take_drop_id [of "p - x" "drop x a"] by (simp add: piece_def)

lemma piece_slice: "v \<le> i2 - i \<Longrightarrow> piece u v (piece i i2 xs) = piece (i + u) (i + v) xs"
  by (simp add: piece_def drop_take min_def ac_simps)

lemma piece_same:
  assumes "piece i i2 a = piece j j2 b" "i2 - i = j2 - j" "v \<le> i2 - i"
  shows "piece (i + u) (i + v) a = piece (j + u) (j + v) b"
  using assms piece_slice [of v i2 i u a] piece_slice [of v j2 j u b] by simp

fun ops_chain :: "'a list \<Rightarrow> 'a list \<Rightarrow> nat \<Rightarrow> nat \<Rightarrow> opcode list \<Rightarrow> nat \<Rightarrow> nat \<Rightarrow> bool" where
  "ops_chain a b i j [] p q \<longleftrightarrow> i = p \<and> j = q"
| "ops_chain a b i j (Op t i1 i2 j1 j2 # cs) p q \<longleftrightarrow>
     i1 = i \<and> j1 = j \<and> i1 \<le> i2 \<and> i2 \<le> length a \<and> j1 \<le> j2 \<and> j2 \<le> length b \<and>
     (t = Equal \<longrightarrow> piece i1 i2 a = piece j1 j2 b \<and> i2 - i1 = j2 - j1) \<and>
     (t = Delete \<longrightarrow> j1 = j2) \<and> (t = Insert \<longrightarrow> i1 = i2) \<and> ops_chain a b i2 j2 cs p q"

lemma ops_chain_append:
  "ops_chain a b i j (cs @ ds) p q \<longleftrightarrow> (\<exists>x y. ops_chain a b i j cs x y \<and> ops_chain a b x y ds p q)"
  by (induction a b i j cs p q rule: ops_chain.induct) auto

lemma change_op_chain:
  "i \<le> ai \<Longrightarrow> ai \<le> length a \<Longrightarrow> j \<le> bj \<Longrightarrow> bj \<le> length b \<Longrightarrow> ops_chain a b i j (change_op i ai j bj) ai bj"
  by (auto simp: change_op_def)

lemma opcodes_chain:
  assumes "chained i j ms (length a) (length b)" "\<And>m. m \<in> set ms \<Longrightarrow> run_ok a b m"
  shows "ops_chain a b i j (opcodes_from i j (ms @ [(length a, length b, 0)])) (length a) (length b)"
  using assms
proof (induction i j ms "length a" "length b" rule: chained.induct)
  case (1 i j)
  then show ?case by (auto intro: change_op_chain)
next
  case (2 i j i' j' k ms)
  have run: "run_ok a b (i', j', k)" using 2(3) by simp
  have "ops_chain a b i j (change_op i i' j j') i' j'"
    using 2(2) run by (intro change_op_chain) (auto simp: run_ok_def)
  moreover have "ops_chain a b i' j' (if k = 0 then [] else [Op Equal i' (i' + k) j' (j' + k)]) (i' + k) (j' + k)"
    using run by (simp add: run_ok_def piece_def)
  moreover have "ops_chain a b (i' + k) (j' + k) (opcodes_from (i' + k) (j' + k) (ms @ [(length a, length b, 0)]))
      (length a) (length b)" using 2 by simp
  ultimately show ?case unfolding append_Cons opcodes_from.simps ops_chain_append by blast
qed

lemma matching_opcodes_chain:
  "ops_chain a b 0 0 (opcodes_from 0 0 (matching_blocks ok a b)) (length a) (length b)"
  unfolding matching_blocks_def
  by (intro opcodes_chain chained_merge raw_blocks_chained merge_blocks_ok [OF raw_blocks_ok])

text \<open>Cutting the context at both ends leaves out equal stretches only.\<close>

lemma cut_front_chain:
  assumes "ops_chain a b 0 0 (c # cs) p q"
  shows "\<exists>s. ops_chain a b s s (cut_front c # cs) p q \<and> s \<le> length a \<and> s \<le> length b \<and> take s a = take s b"
proof (cases c)
  case (Op t i1 i2 j1 j2)
  show ?thesis
  proof (cases "t = Equal")
    case True
    with assms Op have c: "i1 = 0" "j1 = 0" "i2 = j2" "i2 \<le> length a" "j2 \<le> length b" "piece 0 i2 a = piece 0 i2 b"
      "ops_chain a b i2 i2 cs p q" by auto
    have "piece (i2 - 3) i2 a = piece (i2 - 3) i2 b" "piece 0 (i2 - 3) a = piece 0 (i2 - 3) b"
      using piece_same [OF c(6), of i2 "i2 - 3"] piece_same [OF c(6), of "i2 - 3" 0] by simp_all
    moreover have "i2 - 3 \<le> length a" "i2 - 3 \<le> length b" using c by simp_all
    ultimately show ?thesis
      using c Op True by (intro exI [of _ "i2 - 3"]) (simp add: cut_front_def piece_def)
  next
    case False
    with assms Op show ?thesis by (intro exI [of _ 0]) (auto simp: cut_front_def)
  qed
qed

lemma cut_back_chain:
  assumes "ops_chain a b i j (cs @ [c]) (length a) (length b)"
  shows "\<exists>p q. ops_chain a b i j (cs @ [cut_back c]) p q \<and> drop p a = drop q b"
proof (cases c)
  case (Op t i1 i2 j1 j2)
  show ?thesis
  proof (cases "t = Equal")
    case True
    from assms Op True have pre: "ops_chain a b i j cs i1 j1"
      and c: "i1 \<le> i2" "j1 \<le> j2" "i2 = length a" "j2 = length b" "piece i1 i2 a = piece j1 j2 b" "i2 - i1 = j2 - j1"
      by (auto simp: ops_chain_append)
    define d where "d = min 3 (i2 - i1)"
    have d: "min i2 (i1 + 3) = i1 + d" "min j2 (j1 + 3) = j1 + d" "d \<le> i2 - i1" "i1 + d \<le> length a" "j1 + d \<le> length b"
      using c by (auto simp: d_def)
    have "i1 + (i2 - i1) = i2" "j1 + (i2 - i1) = j2" using c(1,2,6) by auto
    then have same: "piece i1 (i1 + d) a = piece j1 (j1 + d) b" "piece (i1 + d) i2 a = piece (j1 + d) j2 b"
      using piece_same [OF c(5,6), of d 0] piece_same [OF c(5,6), of "i2 - i1" d] d(3) by simp_all
    then have "drop (i1 + d) a = drop (j1 + d) b" using c by (simp add: piece_def)
    moreover have "ops_chain a b i1 j1 [cut_back c] (i1 + d) (j1 + d)"
      using Op True d same(1) by (simp add: cut_back_def)
    ultimately have "ops_chain a b i j (cs @ [cut_back c]) (i1 + d) (j1 + d)" "drop (i1 + d) a = drop (j1 + d) b"
      using pre unfolding ops_chain_append by blast+
    then show ?thesis by blast
  next
    case False
    with assms Op show ?thesis
      by (intro exI [of _ "length a"] exI [of _ "length b"]) (simp add: cut_back_def)
  qed
qed

lemma trimmed_chain:
  assumes "ops_chain a b 0 0 codes (length a) (length b)" "codes \<noteq> []"
  shows "\<exists>s p q. ops_chain a b s s (trimmed codes) p q \<and> s \<le> length a \<and> s \<le> length b \<and>
    take s a = take s b \<and> drop p a = drop q b"
proof -
  let ?cs = "cut_front (hd codes) # tl codes"
  from cut_front_chain [of a b "hd codes" "tl codes"] assms obtain s
    where s: "ops_chain a b s s ?cs (length a) (length b)" "s \<le> length a" "s \<le> length b" "take s a = take s b" by auto
  from s(1) have "ops_chain a b s s (butlast ?cs @ [last ?cs]) (length a) (length b)"
    unfolding append_butlast_last_id [OF list.distinct(2)] .
  moreover have "trimmed codes = butlast ?cs @ [cut_back (last ?cs)]" using assms(2) by (simp add: trimmed_def Let_def)
  ultimately show ?thesis using cut_back_chain [of a b s s "butlast ?cs" "last ?cs"] s(2-4) by metis
qed

section \<open>Groups leave out equal stretches only\<close>

text \<open>The groups describe the rest of the two sequences, from the positions reached.\<close>

fun groups_ok :: "'a list \<Rightarrow> 'a list \<Rightarrow> nat \<Rightarrow> nat \<Rightarrow> opcode list list \<Rightarrow> bool" where
  "groups_ok a b i j [] \<longleftrightarrow> drop i a = drop j b"
| "groups_ok a b i j (g # gs) \<longleftrightarrow> g \<noteq> [] \<and>
     (\<exists>p q r s. i \<le> p \<and> j \<le> q \<and> p - i = q - j \<and> piece i p a = piece j q b \<and>
        ops_chain a b p q g r s \<and> groups_ok a b r s gs)"

lemma group_codes_ok:
  assumes "ops_chain a b p q grp i j" "ops_chain a b i j cs r s" "drop r a = drop s b"
    and "x \<le> p" "y \<le> q" "p - x = q - y" "piece x p a = piece y q b"
  shows "groups_ok a b x y (group_codes grp cs)"
  using assms
proof (induction cs arbitrary: grp p q i j x y)
  case Nil
  then have ends: "i = r" "j = s" by simp_all
  consider "grp = []" | c where "grp = [c]" "op_tag c = Equal"
    | "grp \<noteq> []" "\<not> (length grp = 1 \<and> op_tag (hd grp) = Equal)"
    by (cases grp; cases "tl grp") auto
  then show ?case
  proof cases
    case 1
    with Nil ends have "drop p a = drop q b" by simp
    with 1 Nil piece_drop [of x p a] piece_drop [of y q b] show ?thesis by simp
  next
    case (2 c)
    with Nil.prems(1) ends have "p \<le> r" "q \<le> s" "piece p r a = piece q s b" by (cases c; auto)+
    with Nil.prems ends piece_drop [of p r a] piece_drop [of q s b] have "drop p a = drop q b" by simp
    with 2 Nil piece_drop [of x p a] piece_drop [of y q b] show ?thesis by simp
  next
    case 3
    have "groups_ok a b x y [grp]"
      unfolding groups_ok.simps using Nil.prems 3(1) ends by blast
    moreover have "group_codes grp [] = [grp]" using 3 by simp
    ultimately show ?thesis by simp
  qed
next
  case (Cons c cs)
  obtain t i1 i2 j1 j2 where c: "c = Op t i1 i2 j1 j2" by (cases c)
  from Cons.prems(2) c have here: "i1 = i" "j1 = j" "i \<le> i2" "j \<le> j2" and rest: "ops_chain a b i2 j2 cs r s"
    and op: "ops_chain a b i j [c] i2 j2" by auto
  show ?case
  proof (cases "t = Equal \<and> 6 < i2 - i1")
    case False
    have "ops_chain a b p q (grp @ [c]) i2 j2" using Cons.prems(1) op unfolding ops_chain_append by blast
    from Cons.IH [OF this rest Cons.prems(3-7)] show ?thesis
      unfolding c group_codes.simps if_not_P [OF False] .
  next
    case True
    then have eq: "piece i i2 a = piece j j2 b" "i2 - i = j2 - j" "6 < i2 - i" "i2 \<le> length a" "j2 \<le> length b"
      using op c here by auto
    have cuts: "min i2 (i + 3) = i + 3" "min j2 (j + 3) = j + 3" "max i (i2 - 3) = i2 - 3" "max j (j2 - 3) = j2 - 3"
      using eq by auto
    have pos: "i + (i2 - i) = i2" "j + (i2 - i) = j2" "i + (i2 - 3 - i) = i2 - 3" "j + (i2 - 3 - i) = j2 - 3"
      "3 \<le> i2 - i" "i2 - 3 - i \<le> i2 - i" using eq by auto
    have head: "piece i (i + 3) a = piece j (j + 3) b"
      using piece_same [OF eq(1,2) pos(5), of 0] by simp
    have tail: "piece (i2 - 3) i2 a = piece (j2 - 3) j2 b"
      using piece_same [OF eq(1,2) order.refl, of "i2 - 3 - i"] unfolding pos .
    have gap: "piece (i + 3) (i2 - 3) a = piece (j + 3) (j2 - 3) b"
      using piece_same [OF eq(1,2) pos(6), of 3] unfolding pos .
    let ?g = "grp @ [Op Equal i (i + 3) j (j + 3)]"
    have first: "ops_chain a b p q ?g (i + 3) (j + 3)"
      unfolding ops_chain_append using Cons.prems(1) head eq by auto
    have second: "ops_chain a b (i2 - 3) (j2 - 3) [Op Equal (i2 - 3) i2 (j2 - 3) j2] i2 j2"
      using tail eq by auto
    have "groups_ok a b (i + 3) (j + 3) (group_codes [Op Equal (i2 - 3) i2 (j2 - 3) j2] cs)"
      using eq by (intro Cons.IH [OF second rest Cons.prems(3)] gap) auto
    with first Cons.prems(4-7) have "groups_ok a b x y (?g # group_codes [Op Equal (i2 - 3) i2 (j2 - 3) j2] cs)" by auto
    with True c here show ?thesis by (simp add: cuts)
  qed
qed

lemma grouped_opcodes_ok: "groups_ok a b 0 0 (grouped_opcodes a b)"
proof (cases "opcodes_from 0 0 (matching_blocks (\<lambda>x. \<not> popular b x) a b) = []")
  case True
  with matching_opcodes_chain [of a b "\<lambda>x. \<not> popular b x"] have "a = []" "b = []" by auto
  with True show ?thesis by (simp add: grouped_opcodes_def trimmed_def cut_front_def cut_back_def Let_def)
next
  case False
  from trimmed_chain [OF matching_opcodes_chain False] obtain s p q
    where s: "ops_chain a b s s (trimmed (opcodes_from 0 0 (matching_blocks (\<lambda>x. \<not> popular b x) a b))) p q"
      "s \<le> length a" "s \<le> length b" "take s a = take s b" "drop p a = drop q b" by blast
  show ?thesis unfolding grouped_opcodes_def
    by (rule group_codes_ok [OF _ s(1,5)]) (use s in \<open>simp_all add: piece_def\<close>)
qed

section \<open>Patching\<close>

text \<open>The elements a hunk shows of the first and of the second sequence.\<close>

definition old_side :: "(char \<times> 'a) list \<Rightarrow> 'a list" where
  "old_side items = map snd (filter (\<lambda>x. fst x \<noteq> CHR ''+'') items)"

definition new_side :: "(char \<times> 'a) list \<Rightarrow> 'a list" where
  "new_side items = map snd (filter (\<lambda>x. fst x \<noteq> CHR ''-'') items)"

text \<open>
  What it means to apply a unified diff to \<open>a\<close>: each hunk must come after the one before,
  its positions must fit, and the old elements it shows must stand where it says; they are
  replaced by the new ones. \<open>i\<close> elements have been read and \<open>j\<close> written.
\<close>

fun patch :: "nat \<Rightarrow> nat \<Rightarrow> 'a list \<Rightarrow> 'a hunk list \<Rightarrow> 'a list option" where
  "patch i j a [] = Some (drop i a)"
| "patch i j a (Hunk i1 i2 j1 j2 items # hs) =
     (if i \<le> i1 \<and> j \<le> j1 \<and> i1 - i = j1 - j \<and> i1 \<le> i2 \<and> i2 \<le> length a \<and>
         old_side items = piece i1 i2 a \<and> j1 + length (new_side items) = j2
      then map_option (\<lambda>rest. piece i i1 a @ new_side items @ rest) (patch i2 j2 a hs)
      else None)"

lemma sides_append:
  "old_side (xs @ ys) = old_side xs @ old_side ys" "new_side (xs @ ys) = new_side xs @ new_side ys"
  by (simp_all add: old_side_def new_side_def)

lemma op_items_sides:
  assumes "ops_chain a b i j [Op t i1 i2 j1 j2] p q"
  shows "old_side (op_items a b (Op t i1 i2 j1 j2)) = piece i1 i2 a"
    and "new_side (op_items a b (Op t i1 i2 j1 j2)) = piece j1 j2 b"
  using assms by (cases t; simp add: op_items_def old_side_def new_side_def comp_def piece_def)+

lemma group_sides:
  "ops_chain a b i j g p q \<Longrightarrow> old_side (concat (map (op_items a b) g)) = piece i p a \<and>
     new_side (concat (map (op_items a b) g)) = piece j q b \<and> i \<le> p \<and> j \<le> q \<and>
     (g \<noteq> [] \<longrightarrow> p \<le> length a \<and> q \<le> length b \<and> op_i1 (hd g) = i \<and> op_j1 (hd g) = j \<and>
       op_i2 (last g) = p \<and> op_j2 (last g) = q)"
proof (induction a b i j g p q rule: ops_chain.induct)
  case (1 a b i j p q)
  then show ?case by (simp add: old_side_def new_side_def piece_def)
next
  case (2 a b i j t i1 i2 j1 j2 cs p q)
  from 2(2) have here: "i1 = i" "j1 = j" "i \<le> i2" "j \<le> j2" "i2 \<le> length a" "j2 \<le> length b"
    and rest: "ops_chain a b i2 j2 cs p q" and op: "ops_chain a b i j [Op t i1 i2 j1 j2] i2 j2" by auto
  note IH = 2(1) [OF rest]
  have ends: "i2 = p" "j2 = q" if "cs = []" using rest that by simp_all
  show ?case
    using IH op_items_sides [OF op] here ends piece_append [of i i2 p a] piece_append [of j j2 q b]
    by (auto simp: sides_append)
qed

lemma patch_groups: "groups_ok a b i j gs \<Longrightarrow> patch i j a (map (hunk_of a b) gs) = Some (drop j b)"
proof (induction a b i j gs rule: groups_ok.induct)
  case (2 a b i j g gs)
  then obtain p q r s where g: "g \<noteq> []" "i \<le> p" "j \<le> q" "p - i = q - j" "piece i p a = piece j q b"
    "ops_chain a b p q g r s" "groups_ok a b r s gs" by auto
  note sides = group_sides [OF g(6)]
  have "patch r s a (map (hunk_of a b) gs) = Some (drop s b)" using "2.IH" g by blast
  moreover have "length (piece q s b) = s - q" using sides g(1) diff_le_mono [of s "length b" q] by (simp add: piece_def)
  ultimately have "patch i j a (map (hunk_of a b) (g # gs)) = Some (piece i p a @ piece q s b @ drop s b)"
    using sides g by (simp add: hunk_of_def)
  also have "piece i p a @ piece q s b @ drop s b = drop j b"
    unfolding g(5) using sides g(3) piece_drop [of q s b] piece_drop [of j q b] by simp
  finally show ?case .
qed simp

lemma patch_hunks: "patch 0 0 a (hunks a b) = Some b"
  using patch_groups [OF grouped_opcodes_ok] by (simp add: hunks_def)

lemma diff_same_iff: "hunks a b = [] \<longleftrightarrow> a = b"
  using patch_hunks [of a b] hunks_self [of a] by auto

text \<open>
  A unified diff says what the difference is. Applied to the first sequence, hunk by hunk
  at the positions its headers name and against the elements it shows, the diff yields
  exactly the second sequence, whatever elements \<open>autojunk\<close> has left out of the search; and
  it has no hunks exactly if the two are the same.
\<close>

lemma diff_patches:
  "patch 0 0 a (hunks a b) = Some b \<and> (hunks a b = [] \<longleftrightarrow> a = b)"
  using patch_hunks diff_same_iff by blast

text \<open>On texts \<open>unified_diff\<close> does not raise, and prints nothing exactly if they are the same.\<close>

lemma op_items_from: "snd ` set (op_items a b c) \<subseteq> set a \<union> set b"
  by (cases c) (auto simp: op_items_def piece_def dest!: in_set_takeD in_set_dropD)

lemma map_result_total: "(\<And>x. x \<in> set xs \<Longrightarrow> \<exists>y. f x = Inr y) \<Longrightarrow> \<exists>ys. map_result f xs = Inr ys"
  by (induction xs) fastforce+

lemma map_result_length: "map_result f xs = Inr ys \<Longrightarrow> length ys = length xs"
  by (induction xs arbitrary: ys) (auto simp: bind_result_Inr_iff)

lemma unified_diff_texts:
  assumes "list_all is_str a" "list_all is_str b"
  shows "\<exists>ls. unified_diff f t a b = Inr ls \<and> (ls = [] \<longleftrightarrow> a = b)"
proof -
  have line: "\<exists>l. item_line x = Inr l" if "snd x \<in> set a \<union> set b" for x
    using that assms by (auto simp: item_line_def list_all_iff is_str_def split: json.splits)
  have "\<exists>ls. hunk_lines h = Inr ls" if h: "h \<in> set (hunks a b)" for h
  proof -
    obtain g where g: "h = hunk_of a b g" using h by (auto simp: hunks_def)
    have "\<exists>ls. map_result item_line (concat (map (op_items a b) g)) = Inr ls"
      using op_items_from [of a b] by (intro map_result_total line) auto
    then show ?thesis by (auto simp: g hunk_of_def)
  qed
  then obtain hs where hs: "map_result hunk_lines (hunks a b) = Inr hs"
    using map_result_total [of "hunks a b" hunk_lines] by blast
  have "\<not> (a \<noteq> [] \<and> \<not> is_str (hd a) \<or> b \<noteq> [] \<and> \<not> is_str (hd b))"
    using assms by (cases a; cases b) auto
  then have "unified_diff f t a b =
      Inr (if hs = [] then [] else (''--- '' @ f) # (''+++ '' @ t) # concat hs)"
    by (simp only: unified_diff_def hs if_False bind_result_simps)
  moreover have "hs = [] \<longleftrightarrow> a = b"
    using map_result_length [OF hs] hunks_self [of a] diff_same_iff [of a b] by (auto simp flip: length_0_conv)
  ultimately show ?thesis by auto
qed

text \<open>
  With \<open>autojunk\<close> a diff can miss what the rest of the report finds: two sequences that
  agree in one run of 200 or more equal elements, behind a single other one, are shown as
  completely different.
\<close>

lemma popular_elements_hidden:
  assumes "200 \<le> n" "x \<noteq> y"
  shows "longest_block (matching_blocks (\<lambda>_. True) (x # replicate n y) (replicate n y)) = Some (i, j, k) \<Longrightarrow> n \<le> k"
    and "hunks (x # replicate n y) (replicate n y) =
      [Hunk 0 (Suc n) 0 n (map (Pair (CHR ''-'')) (x # replicate n y) @ map (Pair (CHR ''+'')) (replicate n y))]"
proof -
  let ?a = "x # replicate n y" and ?b = "replicate n y"
  have run: "run_ok ?a ?b (1, 0, n)" by (simp add: run_ok_def)
  show "n \<le> k" if "longest_block (matching_blocks (\<lambda>_. True) ?a ?b) = Some (i, j, k)"
    using longest_block_max [OF that run] .
  have "count_list ?b y = n" by (induction n) simp_all
  moreover have "n div 100 + 1 < n" using assms(1) by simp
  ultimately have pop: "popular ?b y" using assms(1) by (simp add: popular_def)
  have none: "common (\<lambda>z. \<not> popular ?b z) xs (drop m ?b) = 0" for xs m
    using pop by (cases xs; cases "n - m") simp_all
  have "better (\<lambda>z. \<not> popular ?b z) ?a ?b (0, 0, 0) q = (0, 0, 0)" for q
    unfolding better_def none by simp
  then have "foldl (better (\<lambda>z. \<not> popular ?b z) ?a ?b) (0, 0, 0) ps = (0, 0, 0)" for ps
    by (induction ps) simp_all
  then have "longest_match (\<lambda>z. \<not> popular ?b z) ?a ?b = (0, 0, 0)" by (simp add: longest_match_def)
  then have "find_longest_match (\<lambda>z. \<not> popular ?b z) ?a ?b = (0, 0, 0)"
    using assms by (cases n) (simp_all add: find_longest_match_def)
  then have "matching_blocks (\<lambda>z. \<not> popular ?b z) ?a ?b = [(Suc n, n, 0)]"
    by (simp add: matching_blocks_def raw_blocks.simps)
  moreover have "0 < n" using assms(1) by simp
  ultimately show "hunks ?a ?b = [Hunk 0 (Suc n) 0 n (map (Pair (CHR ''-'')) ?a @ map (Pair (CHR ''+'')) ?b)]"
    by (simp add: hunks_def grouped_opcodes_def change_op_def trimmed_def cut_front_def cut_back_def Let_def
        hunk_of_def op_items_def piece_def)
qed

end
