(* ===== verification/Strace_Validate.thy ===== *)
theory Strace_Validate
  imports Bench Difflib_Proofs "HOL-Library.List_Lexorder" "HOL-Library.Char_ord"
begin

text \<open>
  \<open>validate_strace.py\<close>: reading the two logs, aligning the two sequences of syscall names
  with \<open>difflib\<close> and reporting the differences. That Python also takes \<open>1\<close>, \<open>1.0\<close>
  and \<open>True\<close> for the same name is not modelled; neither log writer produces them.
\<close>

section \<open>Reading the logs\<close>

text \<open>\<open>json.loads(line)["syscall"]\<close>\<close>

definition syscall_of :: "string \<Rightarrow> json result" where
  "syscall_of line =
     bind_result (json_loads line) (\<lambda>v. case v of
       JObj kvs \<Rightarrow> (case jget kvs ''syscall'' of Some x \<Rightarrow> Inr x | None \<Rightarrow> Inl (KeyError ''syscall''))
     | _ \<Rightarrow> Inl TypeError)"

definition parse_vmi_jsonl :: "string \<Rightarrow> json list result" where
  "parse_vmi_jsonl content =
     map_result syscall_of (filter (\<lambda>l. l \<noteq> []) (map py_strip (text_lines content)))"

text \<open>\<open>str.isprintable\<close> of a character up to U+00FF.\<close>

definition py_printable :: "char \<Rightarrow> bool" where
  "py_printable c = (let n = of_char c :: nat in 32 \<le> n \<and> n \<le> 126 \<or> 161 \<le> n \<and> n \<noteq> 173)"

definition id_start :: "char \<Rightarrow> bool" where
  "id_start c = (let n = of_char c :: nat in 65 \<le> n \<and> n \<le> 90 \<or> 97 \<le> n \<and> n \<le> 122 \<or> n = 95)"

definition id_char :: "char \<Rightarrow> bool" where
  "id_char c = (id_start c \<or> ab_digit c)"

text \<open>\<open>.*\)\s*=\<close>: somewhere a closing parenthesis, blanks and an equals sign.\<close>

fun closes :: "string \<Rightarrow> bool" where
  "closes [] = False"
| "closes (c # cs) = (c = CHR '')'' \<and> take 1 (dropWhile py_space cs) = ''='' \<or> closes cs)"

text \<open>\<open>STRACE_LINE_RE\<close> at a position: the name group when it matches there.\<close>

definition strace_at :: "string \<Rightarrow> string option" where
  "strace_at s =
     (case s of
        [] \<Rightarrow> None
      | c # cs \<Rightarrow>
          if id_start c \<and> take 1 (dropWhile id_char s) = ''('' \<and> closes (drop 1 (dropWhile id_char s))
          then Some (takeWhile id_char s) else None)"

definition strace_name :: "string \<Rightarrow> string option" where
  "strace_name line = search_any strace_at (filter py_printable line)"

definition parse_strace_log :: "string \<Rightarrow> string list" where
  "parse_strace_log content = somes (map strace_name (text_lines content))"

section \<open>The report\<close>

fun hashable :: "json \<Rightarrow> bool" where
  "hashable (JArr xs) = False"
| "hashable (JObj kvs) = False"
| "hashable _ = True"

definition the_str :: "json \<Rightarrow> string" where
  "the_str v = (case v of JStr s \<Rightarrow> s | _ \<Rightarrow> [])"

definition is_int :: "json \<Rightarrow> bool" where
  "is_int v = (case v of JInt s \<Rightarrow> True | _ \<Rightarrow> False)"

definition the_int :: "json \<Rightarrow> int" where
  "the_int v = (case v of JInt i \<Rightarrow> i | _ \<Rightarrow> 0)"

text \<open>\<open>sorted\<close> on values: texts among themselves, integers among themselves.\<close>

definition sort_values :: "json list \<Rightarrow> json list result" where
  "sort_values vs =
     (if list_all is_str vs then Inr (map JStr (sort (map the_str vs)))
      else if list_all is_int vs then Inr (map JInt (sort (map the_int vs)))
      else if length vs \<le> 1 then Inr vs else Inl TypeError)"

definition only_in :: "json list \<Rightarrow> json list \<Rightarrow> json list" where
  "only_in xs ys = filter (\<lambda>x. x \<notin> set ys) (remdups xs)"

definition match_text :: "py_host \<Rightarrow> string list \<Rightarrow> json list \<Rightarrow> nat \<times> nat \<times> nat \<Rightarrow> string list" where
  "match_text P strace_seq vmi_seq m =
     (case m of (i, j, k) \<Rightarrow>
       (let num = (\<lambda>n. py_str_int (int n)) in
        [''Longest matching run: '' @ num k @ '' syscalls (strace['' @ num i @ '':'' @ num (i + k) @
           ''] == vmi['' @ num j @ '':'' @ num (j + k) @ ''])'',
         ''  '' @ join '' -> '' (take k (drop i strace_seq)),
         [CHR 0x0A] @ num k @ ''/'' @ num (length vmi_seq) @ '' ('' @
           host_float_fmt P ''.1%'' (if vmi_seq = [] then 0 else fl64 (of_nat k / of_nat (length vmi_seq))) @
           '') of VMI-captured '' @
           ''events are part of one single contiguous, in-order match against '' @
           ''the strace ground truth. The strace log is longer because it '' @
           ''spans the guest'' @ [CHR 0x27] @ ''s ENTIRE boot (ELF loading, dynamic linking, '' @
           ''nginx init) while the VMI capture only started once we attached, '' @
           ''a few seconds after boot -- so a large '' @ [CHR 0x27] @ ''only in strace'' @ [CHR 0x27] @ '' prefix is '' @
           ''expected and is not a coverage gap in the VMI tool itself. What '' @
           ''matters is whether VMI'' @ [CHR 0x27] @ ''s syscalls, once it IS attached, match '' @
           ''ground truth exactly and in order -- the contiguous match above '' @
           ''confirms they do.'']))"

definition set_report :: "py_host \<Rightarrow> json list \<Rightarrow> json list \<Rightarrow> unit io" where
  "set_report P strace_vals vmi_seq =
     (let only_strace = only_in strace_vals vmi_seq; only_vmi = only_in vmi_seq strace_vals in
      io_seq
       [io_when (only_strace \<noteq> []) (io_bind (io_lift (sort_values only_strace)) (\<lambda>vs.
          py_print ([CHR 0x0A] @ ''Syscall names seen ONLY in strace ground truth: '' @ py_repr P (JArr vs)))),
        io_when (only_vmi \<noteq> []) (io_bind (io_lift (sort_values only_vmi)) (\<lambda>vs.
          py_print (''Syscall names seen ONLY in VMI capture: '' @ py_repr P (JArr vs)))),
        io_when (only_strace = [] \<and> only_vmi = [])
          (py_print ([CHR 0x0A] @ ''No syscall names appear in one source but not the other -- full coverage match.''))])"

text \<open>The two paths when the options are not given.\<close>

definition validate_defaults :: "string \<times> string" where
  "validate_defaults = (''logs/capture.jsonl'', ''logs/strace_ground_truth.log'')"

definition validate_main :: "py_host \<Rightarrow> string \<Rightarrow> string \<Rightarrow> nat io" where
  "validate_main P vmi strace =
     io_bind (act_text (Read_text vmi)) (\<lambda>vmi_text.
     io_bind (io_lift (parse_vmi_jsonl vmi_text)) (\<lambda>vmi_seq.
     io_bind (act_text (Read_text strace)) (\<lambda>strace_text.
     (let strace_seq = parse_strace_log strace_text; strace_vals = map JStr strace_seq in
      io_then (py_print (''VMI capture:    '' @ py_str_int (int (length vmi_seq)) @ '' syscalls''))
      (io_then (py_print (''Strace ground truth: '' @ py_str_int (int (length strace_seq)) @ '' syscalls''))
      (if \<not> list_all hashable vmi_seq then io_raise TypeError
       else
         io_then (py_print (''Sequence similarity ratio: '' @ host_float_fmt P ''.3f'' (sm_ratio strace_vals vmi_seq)))
         (io_then (case longest_block (matching_blocks (\<lambda>_. True) strace_vals vmi_seq) of
             None \<Rightarrow> io_return ()
           | Some m \<Rightarrow> io_seq (map py_print (match_text P strace_seq vmi_seq m)))
         (io_then (py_print ([CHR 0x0A] @ ''Unified diff (strace ground truth vs VMI capture):''))
         (io_then (io_bind (io_lift (unified_diff ''strace'' ''vmi'' strace_vals vmi_seq)) (\<lambda>ls.
             if ls = [] then py_print ''  (identical)'' else io_seq (map (\<lambda>l. py_print (''  '' @ l)) ls)))
         (io_then (set_report P strace_vals vmi_seq) (io_return 0)))))))))))"

section \<open>The report on two logs of names\<close>

text \<open>What is printed for a ground truth \<open>ss\<close> and a capture \<open>vs\<close>.\<close>

definition counts :: "string list \<Rightarrow> string list \<Rightarrow> string list" where
  "counts ss vs =
     [''VMI capture:    '' @ py_str_int (int (length vs)) @ '' syscalls'',
      ''Strace ground truth: '' @ py_str_int (int (length ss)) @ '' syscalls'']"

definition names_text :: "py_host \<Rightarrow> json list \<Rightarrow> string" where
  "names_text P vs = py_repr P (JArr (map JStr (sort (map the_str vs))))"

definition set_lines :: "py_host \<Rightarrow> json list \<Rightarrow> json list \<Rightarrow> string list" where
  "set_lines P ss vs =
     (if only_in ss vs = [] then [] else
        [[CHR 0x0A] @ ''Syscall names seen ONLY in strace ground truth: '' @ names_text P (only_in ss vs)]) @
     (if only_in vs ss = [] then [] else
        [''Syscall names seen ONLY in VMI capture: '' @ names_text P (only_in vs ss)]) @
     (if only_in ss vs = [] \<and> only_in vs ss = [] then
        [[CHR 0x0A] @ ''No syscall names appear in one source but not the other -- full coverage match.''] else [])"

definition diff_part :: "json list \<Rightarrow> json list \<Rightarrow> string list" where
  "diff_part ss vs =
     (case unified_diff ''strace'' ''vmi'' ss vs of
        Inl e \<Rightarrow> []
      | Inr ls \<Rightarrow> if ls = [] then [''  (identical)''] else map (\<lambda>l. ''  '' @ l) ls)"

definition validate_report :: "py_host \<Rightarrow> string list \<Rightarrow> string list \<Rightarrow> string list" where
  "validate_report P ss vs =
     counts ss vs @
     [''Sequence similarity ratio: '' @ host_float_fmt P ''.3f'' (sm_ratio (map JStr ss) (map JStr vs))] @
     (case longest_block (matching_blocks (\<lambda>_. True) (map JStr ss) (map JStr vs)) of
        None \<Rightarrow> [] | Some m \<Rightarrow> match_text P ss (map JStr vs) m) @
     [[CHR 0x0A] @ ''Unified diff (strace ground truth vs VMI capture):''] @
     diff_part (map JStr ss) (map JStr vs) @ set_lines P (map JStr ss) (map JStr vs)"

lemma print_all: "prints_succeed w \<Longrightarrow> io_seq (map py_print ls) w h = Some (Inr (), h @ map Print ls)"
  by (induction ls arbitrary: h) (simp_all add: io_return_def io_then_def io_bind_def py_print_ok)

lemma names_are_texts: "list_all is_str (map JStr names)"
  by (simp add: list_all_iff is_str_def)

lemma only_in_texts: "list_all is_str xs \<Longrightarrow> sort_values (only_in xs ys) = Inr (map JStr (sort (map the_str (only_in xs ys))))"
  by (auto simp: sort_values_def only_in_def list_all_iff)

lemma set_report_run:
  assumes "prints_succeed w" "list_all is_str ss" "list_all is_str vs"
  shows "set_report P ss vs w h = Some (Inr (), h @ map Print (set_lines P ss vs))"
  using only_in_texts [OF assms(2), of vs] only_in_texts [OF assms(3), of ss]
  by (auto simp: set_report_def set_lines_def names_text_def Let_def io_when_def io_then_def io_bind_def io_return_def io_lift_def
      py_print_ok [OF assms(1)])

text \<open>The tool does not raise on such logs, and prints its report.\<close>

lemma validate_texts:
  assumes "prints_succeed w"
    and "w_text w (h @ [Read_text vmi]) = Inr vt" "parse_vmi_jsonl vt = Inr (map JStr vs)"
    and "w_text w (h @ [Read_text vmi, Read_text strace]) = Inr st" "parse_strace_log st = ss"
  shows "validate_main P vmi strace w h =
    Some (Inr 0, h @ [Read_text vmi, Read_text strace] @ map Print (validate_report P ss vs))"
proof -
  let ?vs = "map JStr vs" and ?ss = "map JStr ss" and ?h = "h @ [Read_text vmi, Read_text strace]"
  have hash: "list_all hashable ?vs" by (simp add: list_all_iff)
  have print: "io_then (py_print s) m w k = m w (k @ [Print s])" for s and m :: "nat io" and k
    by (simp add: io_then_def io_bind_def py_print_ok [OF assms(1)])
  have "act_text (Read_text vmi) w h = Some (Inr vt, h @ [Read_text vmi])"
    "act_text (Read_text strace) w (h @ [Read_text vmi]) = Some (Inr st, ?h)"
    using assms(2,4) by (simp_all add: act_text_def)
  then have reads: "io_bind (act_text (Read_text vmi)) f w h = f vt w (h @ [Read_text vmi])"
    "io_bind (act_text (Read_text strace)) g w (h @ [Read_text vmi]) = g st w ?h" for f g :: "string \<Rightarrow> nat io"
    by (simp_all add: io_bind_def)
  have skip: "io_bind (io_lift (Inr x)) f = f x" for x :: 'x and f :: "'x \<Rightarrow> 'y io"
    by (simp add: io_bind_def io_lift_def fun_eq_iff)
  have runs: "io_then l m w k = m w (k @ map Print ls)" if "l w k = Some (Inr (), k @ map Print ls)"
    for l ls and m :: "nat io" and k
    using that by (simp add: io_then_def io_bind_def)
  have mid: "io_then (case b of None \<Rightarrow> io_return () | Some x \<Rightarrow> io_seq (map py_print (match_text P ss ?vs x))) m w k =
      m w (k @ map Print (case b of None \<Rightarrow> [] | Some x \<Rightarrow> match_text P ss ?vs x))" for b and m :: "nat io" and k
    by (rule runs) (simp add: io_return_def print_all [OF assms(1)] split: option.split)
  obtain ls where ls: "unified_diff ''strace'' ''vmi'' ?ss ?vs = Inr ls"
    using unified_diff_texts [OF names_are_texts names_are_texts] by blast
  have diff: "io_then (if ls = [] then py_print ''  (identical)'' else io_seq (map (\<lambda>l. py_print (''  '' @ l)) ls)) m w k =
      m w (k @ map Print (diff_part ?ss ?vs))" for m :: "nat io" and k
    using print_all [OF assms(1), of "map (\<lambda>l. ''  '' @ l) ls"]
    by (intro runs) (simp add: diff_part_def ls py_print_ok [OF assms(1)] comp_def)
  have last: "io_then (set_report P ?ss ?vs) m w k = m w (k @ map Print (set_lines P ?ss ?vs))" for m :: "nat io" and k
    by (rule runs) (rule set_report_run [OF assms(1) names_are_texts names_are_texts])
  have ret: "io_return x w k = Some (Inr x, k)" for x :: nat and k by (simp add: io_return_def)
  show ?thesis
    unfolding validate_main_def reads assms(3,5) skip Let_def print
    by (simp only: hash print length_map mid ls diff [unfolded append.simps] skip last simp_thms if_False if_True refl
        validate_report_def counts_def map_append append_assoc list.map append.simps ret)
qed

text \<open>What is printed when the two have the same calls in the same order.\<close>

definition full_match :: "py_host \<Rightarrow> string list \<Rightarrow> string list" where
  "full_match P names =
     counts names names @ [''Sequence similarity ratio: '' @ host_float_fmt P ''.3f'' 1] @
     (if names = [] then [] else match_text P names (map JStr names) (0, 0, length names)) @
     [[CHR 0x0A] @ ''Unified diff (strace ground truth vs VMI capture):'', ''  (identical)'',
      [CHR 0x0A] @ ''No syscall names appear in one source but not the other -- full coverage match.'']"

lemma report_same: "validate_report P names names = full_match P names"
proof -
  let ?xs = "map JStr names"
  have "unified_diff ''strace'' ''vmi'' ?xs ?xs = Inr []"
    using unified_diff_texts [OF names_are_texts names_are_texts, of "''strace''" "''vmi''" names names] by auto
  moreover have "only_in ?xs ?xs = []" by (simp add: only_in_def filter_empty_conv)
  ultimately show ?thesis
    by (simp only: validate_report_def full_match_def diff_part_def set_lines_def longest_block_self sm_ratio_self)
      simp
qed

text \<open>A capture that lies within the ground truth is found as one run.\<close>

lemma report_within:
  assumes "vs \<noteq> []"
  shows "\<exists>i rest. validate_report P (pre @ vs @ post) vs = counts (pre @ vs @ post) vs @
      [''Sequence similarity ratio: '' @ host_float_fmt P ''.3f'' (sm_ratio (map JStr (pre @ vs @ post)) (map JStr vs))] @
      match_text P (pre @ vs @ post) (map JStr vs) (i, 0, length vs) @ rest \<and>
    take (length vs) (drop i (pre @ vs @ post)) = vs"
proof -
  let ?ss = "map JStr (pre @ vs @ post)" and ?vs = "map JStr vs"
  have run: "run_ok ?ss ?vs (length pre, 0, length vs)" by (simp add: run_ok_def)
  have "set ?ss \<inter> set ?vs \<noteq> {}" using assms by (cases vs) auto
  with longest_block_run [of ?ss ?vs] obtain i j k
    where b: "longest_block (matching_blocks (\<lambda>_. True) ?ss ?vs) = Some (i, j, k)" "run_ok ?ss ?vs (i, j, k)"
    by (auto split: option.splits)
  have "k = length vs" "j = 0" using longest_block_max [OF b(1) run] b(2) by (auto simp: run_ok_def)
  moreover have "map JStr (take (length vs) (drop i (pre @ vs @ post))) = map JStr vs"
    using b(2) \<open>k = length vs\<close> \<open>j = 0\<close> by (simp add: run_ok_def take_map drop_map)
  then have "take (length vs) (drop i (pre @ vs @ post)) = vs"
    by (rule map_injective) (simp add: inj_def)
  ultimately show ?thesis
    by (intro exI [of _ i] exI [of _ "[[CHR 0x0A] @ ''Unified diff (strace ground truth vs VMI capture):''] @
        diff_part ?ss ?vs @ set_lines P ?ss ?vs"]) (simp only: validate_report_def b option.case append_assoc simp_thms)
qed

section \<open>The differences reported\<close>

text \<open>What \<open>main\<close> is meant to print of the names that only one log has.\<close>

definition only_report :: "py_host \<Rightarrow> string set \<Rightarrow> string set \<Rightarrow> string list" where
  "only_report P strace_only vmi_only =
     (let shown = (\<lambda>A. py_repr P (JArr (map JStr (sorted_list_of_set A)))) in
     (if strace_only = {} then [] else
        [[CHR 0x0A] @ ''Syscall names seen ONLY in strace ground truth: '' @ shown strace_only]) @
     (if vmi_only = {} then [] else [''Syscall names seen ONLY in VMI capture: '' @ shown vmi_only]) @
     (if strace_only = {} \<and> vmi_only = {} then
        [[CHR 0x0A] @ ''No syscall names appear in one source but not the other -- full coverage match.''] else []))"

text \<open>The lines of a diff from the ground truth \<open>ss\<close> to the capture \<open>vs\<close>.\<close>

definition diff_of :: "string list \<Rightarrow> string list \<Rightarrow> string list \<Rightarrow> bool" where
  "diff_of ss vs ls \<longleftrightarrow> (\<exists>hs ts. map_result hunk_lines hs = Inr ts \<and>
     ls = ''--- strace'' # ''+++ vmi'' # concat ts \<and> patch 0 0 (map JStr ss) hs = Some (map JStr vs))"

lemma only_in_names:
  "sort (map the_str (only_in (map JStr xs) (map JStr ys))) = sorted_list_of_set (set xs - set ys)"
proof -
  let ?l = "map the_str (only_in (map JStr xs) (map JStr ys))"
  have texts: "list_all is_str (only_in (map JStr xs) (map JStr ys))" by (auto simp: only_in_def list_all_iff is_str_def)
  have "inj_on the_str (Collect is_str)" by (auto simp: inj_on_def is_str_def the_str_def split: json.splits)
  then have "distinct ?l"
    using texts by (auto simp: distinct_map only_in_def list_all_iff elim: inj_on_subset)
  moreover have "set ?l = set xs - set ys" by (force simp: only_in_def the_str_def)
  ultimately show ?thesis using sorted_list_of_set_sort_remdups [of ?l] by (simp add: distinct_remdups_id)
qed

lemma only_in_empty: "only_in (map JStr xs) (map JStr ys) = [] \<longleftrightarrow> set xs - set ys = {}"
  by (auto simp: only_in_def filter_empty_conv)

lemma set_lines_names:
  "set_lines P (map JStr ss) (map JStr vs) = only_report P (set ss - set vs) (set vs - set ss)"
  unfolding set_lines_def only_report_def names_text_def only_in_names only_in_empty Let_def ..

lemma diff_part_names:
  "\<exists>ls. diff_part (map JStr ss) (map JStr vs) = map (\<lambda>l. ''  '' @ l) ls \<and>
    (if vs = ss then ls = [''(identical)''] else diff_of ss vs ls)"
proof -
  let ?ss = "map JStr ss" and ?vs = "map JStr vs"
  have same: "?ss = ?vs \<longleftrightarrow> vs = ss" by (auto simp: inj_map_eq_map inj_def)
  obtain ls where ls: "unified_diff ''strace'' ''vmi'' ?ss ?vs = Inr ls" "ls = [] \<longleftrightarrow> ?ss = ?vs"
    using unified_diff_texts [OF names_are_texts names_are_texts] by blast
  show ?thesis
  proof (cases "vs = ss")
    case True
    with ls same show ?thesis by (intro exI [of _ "[''(identical)'']"]) (simp add: diff_part_def)
  next
    case False
    with ls same have ne: "ls \<noteq> []" by simp
    from ls(1) obtain ts where ts: "map_result hunk_lines (hunks ?ss ?vs) = Inr ts"
      "ls = (if ts = [] then [] else (''--- '' @ ''strace'') # (''+++ '' @ ''vmi'') # concat ts)"
      by (auto simp: unified_diff_def bind_result_Inr_iff split: if_splits)
    with ne have "ls = ''--- strace'' # ''+++ vmi'' # concat ts" by (simp split: if_splits)
    with ts(1) diff_patches [of ?ss ?vs] have "diff_of ss vs ls" unfolding diff_of_def by blast
    with False ls(1) ne show ?thesis by (intro exI [of _ ls]) (simp add: diff_part_def)
  qed
qed

text \<open>
  C39: the differences \<open>validate_strace.py\<close> reports. For a capture of named events and any
  console log, on a terminal that takes its output, \<open>main\<close> ends with 0. Behind the number
  of calls on either side it prints \<open>(identical)\<close> exactly if the two sequences of names are
  the same, and otherwise a diff whose hunks, applied to the sequence of the ground truth at the
  places their headers name, yield the sequence of the capture. It ends with the names that
  occur only in the ground truth and those that occur only in the capture, each list complete
  and sorted, or, exactly if there are none, with the line that says so.
\<close>

theorem validate_differences:
  assumes "prints_succeed w"
    and "w_text w (h @ [Read_text vmi]) = Inr vt" "parse_vmi_jsonl vt = Inr (map JStr vs)"
    and "w_text w (h @ [Read_text vmi, Read_text strace]) = Inr st" "parse_strace_log st = ss"
  shows "\<exists>ls. validate_main P vmi strace w h = Some (Inr 0, h @ [Read_text vmi, Read_text strace] @
      map Print (counts ss vs @
        [''Sequence similarity ratio: '' @ host_float_fmt P ''.3f'' (sm_ratio (map JStr ss) (map JStr vs))] @
        (case longest_block (matching_blocks (\<lambda>_. True) (map JStr ss) (map JStr vs)) of
           None \<Rightarrow> [] | Some m \<Rightarrow> match_text P ss (map JStr vs) m) @
        [[CHR 0x0A] @ ''Unified diff (strace ground truth vs VMI capture):''] @
        map (\<lambda>l. ''  '' @ l) ls @ only_report P (set ss - set vs) (set vs - set ss))) \<and>
    (if vs = ss then ls = [''(identical)''] else diff_of ss vs ls)"
proof -
  obtain ls where ls: "diff_part (map JStr ss) (map JStr vs) = map (\<lambda>l. ''  '' @ l) ls"
    "if vs = ss then ls = [''(identical)''] else diff_of ss vs ls"
    using diff_part_names by blast
  note report = validate_report_def [of P ss vs, unfolded ls(1) set_lines_names]
  show ?thesis
    by (rule exI [of _ ls], rule conjI [OF validate_texts [OF assms, of P, unfolded report] ls(2)])
qed

definition close_world :: world where
  "close_world = null_world\<lparr>w_text := (\<lambda>h. Inr (if last h = Read_text ''v'' then ''{'' @ [quote] @ ''syscall'' @ [quote] @ '':'' @
     [quote] @ ''write'' @ [quote] @ ''}'' else ''close(1) = 0''))\<rparr>"

theorem validate_differences_witness:
  "\<exists>acts. validate_main hmp_host ''v'' ''s'' close_world [] = Some (Inr 0, acts) \<and>
     Print (''Syscall names seen ONLY in VMI capture: '' @ py_repr hmp_host (JArr [JStr ''write''])) \<in> set acts"
proof -
  have vmi: "parse_vmi_jsonl (''{'' @ [quote] @ ''syscall'' @ [quote] @ '':'' @ [quote] @ ''write'' @ [quote] @ ''}'') =
      Inr (map JStr [''write''])" by code_simp
  have strace: "parse_strace_log ''close(1) = 0'' = [''close'']" by code_simp
  have "prints_succeed close_world" by (simp add: prints_succeed_def close_world_def null_world_def)
  moreover have "w_text close_world ([] @ [Read_text ''v'']) =
      Inr (''{'' @ [quote] @ ''syscall'' @ [quote] @ '':'' @ [quote] @ ''write'' @ [quote] @ ''}'')"
    "w_text close_world ([] @ [Read_text ''v'', Read_text ''s'']) = Inr ''close(1) = 0''"
    by (simp_all add: close_world_def)
  ultimately obtain acts where "validate_main hmp_host ''v'' ''s'' close_world [] = Some (Inr 0, acts)"
    "set (map Print (only_report hmp_host ({''close''} - {''write''}) ({''write''} - {''close''}))) \<subseteq> set acts"
    using validate_differences [OF _ _ vmi _ strace, where P = hmp_host and w = close_world and h = "[]"
        and vmi = "''v''" and strace = "''s''"] by fastforce
  then show ?thesis by (auto simp: only_report_def)
qed

section \<open>Reading a line of the ground truth\<close>

lemma closes_append: "closes (args @ CHR '')'' # bl @ CHR ''='' # rest)" if "list_all py_space bl"
proof (induction args)
  case Nil
  from that have "dropWhile py_space (bl @ CHR ''='' # rest) = CHR ''='' # rest"
    by (simp add: dropWhile_append list_all_iff py_space_def)
  then show ?case by simp
qed simp

text \<open>
  The ground truth. A console line that, once its unprintable characters are dropped,
  is a call \<open>name(args) = result\<close> behind any noise without letters or underscores yields
  exactly that name.
\<close>

lemma strace_line_name:
  assumes "filter py_printable line = noise @ name @ ''('' @ args @ '')'' @ bl @ ''='' @ rest"
    and "list_all (\<lambda>c. \<not> id_start c) noise" "name \<noteq> []" "id_start (hd name)" "list_all id_char name" "list_all py_space bl"
  shows "strace_name line = Some name"
proof -
  let ?call = "name @ ''('' @ args @ '')'' @ bl @ ''='' @ rest"
  have "\<not> id_char (CHR ''('')" by code_simp
  then have "takeWhile id_char ?call = name" "dropWhile id_char ?call = ''('' @ args @ '')'' @ bl @ ''='' @ rest"
    using assms(5) by (simp_all add: list_all_iff takeWhile_append2 dropWhile_append2)
  with assms(3,4,6) have at: "strace_at ?call = Some name"
    using closes_append [OF assms(6), of args rest] by (cases name) (simp_all add: strace_at_def)
  have "search_any strace_at (noise @ ?call) = Some name" using assms(2)
  proof (induction noise)
    case Nil
    with at assms(3) show ?case by (cases name) simp_all
  qed (simp add: strace_at_def)
  with assms(1) show ?thesis by (simp add: strace_name_def)
qed

lemma strace_line_name_example:
  "strace_name (char_of (0 :: nat) # ''  write(fd:4, ...) = 82'' @ [CHR 0x0A]) = Some ''write''"
  by (rule strace_line_name [where noise = "''  ''" and args = "''fd:4, ...''" and bl = "'' ''" and rest = "'' 82''"])
    code_simp+

end
