(* ===== verification/Capture_Chain.thy ===== *)
theory Capture_Chain
  imports Pending_Refine Kvm_Dispatch Gdb_Monitor Capture_Inline Strace_Validate
begin

text \<open>
  What crosses the border between the C monitor and the Python tools: the capture file
  (written by \<open>vmi_write_event\<close>, read line by line by the terminal view and by
  \<open>validate_strace.py\<close>), the environment variables and the debug log.
\<close>

section \<open>Every event the monitor logs is well formed\<close>

definition trap_time :: "trap \<Rightarrow> timeval" where
  "trap_time t = (case t of Entry_trap cs env tv \<Rightarrow> tv | Return_trap cs env tv \<Rightarrow> tv)"

definition slot_ok :: "VmiPending \<Rightarrow> bool" where
  "slot_ok p \<longleftrightarrow> length (p_argv p) = 6 \<and> timeval_ok (p_tv p)"

definition records_ok :: "pend_spec \<Rightarrow> bool" where
  "records_ok ql \<longleftrightarrow> list_all slot_ok (fst ql) \<and> list_all event_ok (snd ql)"

lemma why_plain: "list_all name_char ''superseded''" "list_all name_char ''evicted''" "list_all name_char ''shutdown''"
  by code_simp+

lemma event_ok_pending:
  "slot_ok p \<Longrightarrow> list_all name_char why \<Longrightarrow> event_ok (unfinished rip why p)"
  "slot_ok p \<Longrightarrow> event_ok (returned rip rax tv p)"
  by (simp_all add: slot_ok_def event_ok_def unfinished_def returned_def pending_event_def)

lemmas event_ok_unfinished = why_plain [THEN event_ok_pending(1) [rotated]]

lemma slot_ok_entry: "timeval_ok tv \<Longrightarrow> slot_ok (entry_call cs env tv sq)"
  by (simp add: slot_ok_def entry_call_def vmi_read_args_def)

lemma spec_entry_records:
  assumes "records_ok ql" "slot_ok new"
  shows "records_ok (spec_entry rip new ql)"
proof -
  obtain q l where ql: "ql = (q, l)" by (cases ql)
  let ?q1 = "filter (\<lambda>p. \<not> at_key (p_rsp new) (p_rcx new) p) q"
  have q: "\<forall>p \<in> set q. slot_ok p" and l: "list_all event_ok l"
    using assms(1) by (simp_all add: records_ok_def ql list_all_iff)
  have sup: "list_all event_ok (map (unfinished rip ''superseded'') (filter (at_key (p_rsp new) (p_rcx new)) q))"
    using q by (simp add: list_all_iff event_ok_unfinished)
  show ?thesis
  proof (cases "length ?q1 = VMI_PENDING_MAX")
    case True
    then have "?q1 \<noteq> []" by (auto simp: VMI_PENDING_MAX_def)
    then obtain p ps where q1: "?q1 = p # ps" by (cases ?q1) auto
    then have "set (p # ps) \<subseteq> set q" using filter_is_subset by metis
    with q l sup assms(2) True show ?thesis
      by (auto simp: ql spec_entry_def Let_def q1 records_ok_def list_all_iff event_ok_unfinished)
  next
    case False
    with q l sup assms(2) show ?thesis
      by (auto simp: ql spec_entry_def Let_def records_ok_def list_all_iff)
  qed
qed

lemma spec_run_records:
  "records_ok (fst ql) \<Longrightarrow> list_all (\<lambda>t. timeval_ok (trap_time t)) ts \<Longrightarrow>
   records_ok (fst (foldl (spec_trap rip) ql ts))"
proof (induction ts arbitrary: ql)
  case (Cons t ts)
  have "records_ok (fst (spec_trap rip ql t))"
  proof (cases t)
    case (Entry_trap cs env tv)
    with Cons.prems show ?thesis by (simp add: spec_entry_records slot_ok_entry trap_time_def)
  next
    case (Return_trap cs env tv)
    with Cons.prems show ?thesis
      by (auto simp: spec_return_def records_ok_def list_all_iff event_ok_pending split: prod.splits)
  qed
  with Cons show ?case by simp
qed simp

section \<open>The capture file, line by line\<close>

definition plain_log :: "(int \<Rightarrow> string option) \<Rightarrow> 'k vmi \<Rightarrow> bool" where
  "plain_log ename s \<longleftrightarrow> plain_ename ename \<and> list_all event_ok (vmi_log s)"

lemma concat_lines:
  "\<forall>l \<in> set ls. \<exists>b. l = b @ nl \<and> CHR 0x0A \<notin> set b \<Longrightarrow>
   complete_lines (concat ls) = ls \<and> last (split_on (CHR 0x0A) (concat ls)) = []"
proof (induction ls)
  case Nil
  then show ?case by (simp add: complete_lines_def)
next
  case (Cons l ls)
  obtain b where b: "l = b @ nl" "CHR 0x0A \<notin> set b" using Cons.prems by auto
  have IH: "complete_lines (concat ls) = ls" "last (split_on (CHR 0x0A) (concat ls)) = []" using Cons by simp_all
  have "split_on (CHR 0x0A) (concat (l # ls)) = b # split_on (CHR 0x0A) (concat ls)"
    using b by (simp add: nl_def split_on_append)
  with IH b show ?case by (simp add: complete_lines_def nl_def)
qed

lemma capture_file_lines:
  assumes "plain_log ename s"
  shows "complete_lines (capture_file ename s) = map (vmi_event_line ename) (vmi_log s)"
    and "text_lines (capture_file ename s) = map (vmi_event_line ename) (vmi_log s)"
proof -
  have "\<forall>l \<in> set (map (vmi_event_line ename) (vmi_log s)). \<exists>b. l = b @ nl \<and> CHR 0x0A \<notin> set b"
    using assms vmi_event_line_one_line [of _ ename] by (auto simp: plain_log_def list_all_iff)
  from concat_lines [OF this] show "complete_lines (capture_file ename s) = map (vmi_event_line ename) (vmi_log s)"
    "text_lines (capture_file ename s) = map (vmi_event_line ename) (vmi_log s)"
    by (simp_all add: capture_file_def text_lines_def complete_lines_def Let_def)
qed

lemma event_line_document:
  assumes "event_ok e" "plain_ename ename"
  shows "json_loads (vmi_event_line ename e) = Inr (JObj (vmi_event_json ename e))"
    and "json_loads (py_strip (vmi_event_line ename e)) = Inr (JObj (vmi_event_json ename e))"
    and "py_strip (vmi_event_line ename e) \<noteq> []"
proof -
  let ?d = "json_dumps (JObj (vmi_event_json ename e))"
  note line = vmi_event_line_dumps [OF assms]
  show "json_loads (vmi_event_line ename e) = Inr (JObj (vmi_event_json ename e))"
    unfolding line by (rule json_loads_dumps [OF json_ok_event nl_ends])
  have ends: "\<not> py_space (CHR ''{'')" "\<not> py_space (CHR ''}'')" "py_space (CHR 0x0A)" by code_simp+
  obtain m where d: "?d = ''{'' @ m @ ''}''" by (simp add: json_dumps_JObj)
  have "py_strip (vmi_event_line ename e) = ?d"
    unfolding line d using ends by (simp add: py_strip_def nl_def)
  then show "json_loads (py_strip (vmi_event_line ename e)) = Inr (JObj (vmi_event_json ename e))"
    "py_strip (vmi_event_line ename e) \<noteq> []"
    using json_loads_dumps [OF json_ok_event, of "[]" ename e] d by (simp_all add: skip_ws_def ends_number_def)
qed

section \<open>What the readers make of it\<close>

text \<open>The name and the arguments in the line of an event.\<close>

definition event_name :: "VmiEvent \<Rightarrow> string" where
  "event_name e = fst (describe c_table_get c_udec (e_num e))"

definition event_args :: "VmiEvent \<Rightarrow> string list" where
  "event_args e = map hex0x (take (snd (describe c_table_get c_udec (e_num e))) (e_argv e))"

lemma event_json_fields [simp]:
  "jget (vmi_event_json ename e) ''ts'' = Some (JDec (tv_sec (e_tv e) * 1000000 + tv_usec (e_tv e)) 6)"
  "jget (vmi_event_json ename e) ''syscall'' = Some (JStr (event_name e))"
  "jget (vmi_event_json ename e) ''args'' = Some (JArr (map JStr (event_args e)))"
  "jget (vmi_event_json ename e) ''unfinished'' =
     (case e_kind e of VMI_RET_UNFINISHED why \<Rightarrow> Some (JStr why) | _ \<Rightarrow> None)"
  "jget (vmi_event_json ename e) ''ret'' =
     (case e_kind e of VMI_RET_NONE \<Rightarrow> None | VMI_RET_VALUE r tv \<Rightarrow> Some (JInt r) | VMI_RET_UNFINISHED why \<Rightarrow> Some JNull)"
  "jget (vmi_event_json ename e) ''err'' =
     (case e_kind e of VMI_RET_VALUE r tv \<Rightarrow> map_option JStr (err_name ename r) | _ \<Rightarrow> None)"
  "jget (vmi_event_json ename e) ''dur_us'' =
     (case e_kind e of VMI_RET_VALUE r tv \<Rightarrow> Some (JInt (dur_us (e_tv e) tv)) | _ \<Rightarrow> None)"
  by (simp_all add: vmi_event_json_def jget_def kind_json_def event_name_def event_args_def comp_def split_beta
      split: VmiRetKind.split option.split)

text \<open>The result column of the terminal view for an event of the monitor.\<close>

definition result_text :: "py_host \<Rightarrow> (int \<Rightarrow> string option) \<Rightarrow> VmiEvent \<Rightarrow> string" where
  "result_text P ename e =
     (case e_kind e of
        VMI_RET_NONE \<Rightarrow> []
      | VMI_RET_UNFINISHED why \<Rightarrow> '' = ? <unfinished: '' @ why @ ''>''
      | VMI_RET_VALUE r tv \<Rightarrow> '' = '' @
          (case err_name ename r of
             Some n \<Rightarrow> py_str_int r @ '' '' @ n @ '' ('' @
               (if host_errorcode P (- r) then host_strerror P (- r) else ''unknown error'') @ '')''
           | None \<Rightarrow> if 0x10000 \<le> r then py_hex r else py_str_int r) @
          ''  <'' @ py_str_int (dur_us (e_tv e) tv) @ ''us>'')"

definition event_time :: "VmiEvent \<Rightarrow> rat" where
  "event_time e = dec_float (tv_sec (e_tv e) * 1000000 + tv_usec (e_tv e)) 6"

lemma format_ret_event: "format_ret P (vmi_event_json ename e) = Inr (result_text P ename e)"
  by (simp add: format_ret_def result_text_def get_key_def err_msg_def ret_text_def py_str_def
      split: VmiRetKind.split option.split)

lemma format_event_event:
  assumes "host_hms P (event_time e) = Inr hms"
  shows "format_event P (vmi_event_json ename e) =
    Inr (''['' @ hms @ ''.'' @ zero_pad 3 (millis (event_time e)) @ ''] '' @ event_name e @ ''('' @
      join '', '' (event_args e) @ '')'' @ result_text P ename e)"
proof -
  have "map_result (\<lambda>x. case x of JStr s \<Rightarrow> Inr s | _ \<Rightarrow> Inl TypeError) (map JStr ss) = Inr ss" for ss
    by (induction ss) simp_all
  with assms show ?thesis
    by (simp add: format_event_def ts_value_def join_value_def format_ret_event py_str_def event_time_def)
qed

section \<open>From the traps to the readers\<close>

definition call_name :: "call \<Rightarrow> string" where
  "call_name c = fst (describe c_table_get c_udec (fst (snd c)))"

lemma event_name_call: "event_name e = call_name (event_call e)"
  by (simp add: event_name_def call_name_def event_call_def)

lemma fresh_capture:
  assumes "capture_ready s" "seq_room s ts" "vmi_log s = []" "inflight (vmi_pending s) = []"
    and "list_all (\<lambda>t. timeval_ok (trap_time t)) ts" "plain_ename ename"
  defines "u \<equiv> vmi_flush_pending ''shutdown'' (foldl vmi_trap s ts)"
  shows "plain_log ename u" and "mset (map event_call (vmi_log u)) = mset (entry_calls ts)"
proof -
  show "mset (map event_call (vmi_log u)) = mset (entry_calls ts)"
    using capture_calls(2) [OF assms(1,2), of "''shutdown''"] assms(3,4) by (simp add: u_def)
  have "records_ok (pend_abs s)" using assms(3,4) by (simp add: records_ok_def pend_abs_def)
  then have "records_ok (fst (foldl (spec_trap (vmi_addr s)) (pend_abs s, vmi_pending_seq s) ts))"
    using spec_run_records [of "(pend_abs s, vmi_pending_seq s)"] assms(5) by simp
  then have "records_ok (pend_abs u)"
    unfolding u_def capture_calls(3) [OF assms(1,2)]
    by (auto simp: spec_flush_def records_ok_def list_all_iff event_ok_unfinished split: prod.splits)
  then show "plain_log ename u" using assms(6) by (simp add: plain_log_def records_ok_def pend_abs_def)
qed

text \<open>A monitor that \<open>vmi_monitor_init\<close> has enabled, return hook included, is such a start.\<close>

lemma init_fresh:
  assumes "vmi_enabled (vmi_monitor_init E (vmi_zero k))" "vmi_ret_addr (vmi_monitor_init E (vmi_zero k)) \<noteq> 0"
  shows "capture_ready (vmi_monitor_init E (vmi_zero k))" and "vmi_log (vmi_monitor_init E (vmi_zero k)) = []"
    and "inflight (vmi_pending (vmi_monitor_init E (vmi_zero k))) = []"
proof -
  let ?s = "vmi_monitor_init E (vmi_zero k)"
  have keep: "vmi_pending ?s = vmi_pending (vmi_zero k)" "fault ?s = fault (vmi_zero k)"
    by (auto simp: vmi_monitor_init_def init_ret_addr_def Let_def split: option.split)
  have log: "vmi_log_fp ?s = Some []"
    using assms(1) by (auto simp: vmi_monitor_init_def init_ret_addr_def Let_def vmi_zero_def split: option.splits if_splits)
  have "filter p_used (vmi_pending (vmi_zero k)) = []" "length (vmi_pending (vmi_zero k)) = VMI_PENDING_MAX"
    "\<not> fault (vmi_zero k)" by (simp_all add: vmi_zero_def pending_zero_def)
  then show "capture_ready ?s" "vmi_log ?s = []" "inflight (vmi_pending ?s) = []"
    using assms(2) keep log
    by (auto simp: capture_ready_def pend_state_def pend_ok_def vmi_log_def inflight_def filter_empty_conv)
qed

lemma parse_capture_file:
  assumes "plain_log ename s"
  shows "parse_vmi_jsonl (capture_file ename s) = Inr (map (\<lambda>e. JStr (event_name e)) (vmi_log s))"
proof -
  have ok: "event_ok e" "plain_ename ename" if "e \<in> set (vmi_log s)" for e
    using that assms by (auto simp: plain_log_def list_all_iff)
  let ?ls = "map (\<lambda>e. py_strip (vmi_event_line ename e)) (vmi_log s)"
  have "filter (\<lambda>l. l \<noteq> []) ?ls = ?ls"
    using event_line_document(3) [OF ok] by (auto simp: filter_id_conv)
  moreover have "map_result syscall_of ?ls = Inr (map (\<lambda>e. JStr (event_name e)) (vmi_log s))"
  proof -
    have "map_result (\<lambda>e. syscall_of (py_strip (vmi_event_line ename e))) (vmi_log s) =
        Inr (map (\<lambda>e. JStr (event_name e)) (vmi_log s))"
      by (rule map_result_Inr) (simp add: syscall_of_def event_line_document(2) [OF ok])
    moreover have "map_result f (map g xs) = map_result (\<lambda>x. f (g x)) xs" for f :: "string \<Rightarrow> json result" and g and xs :: "VmiEvent list"
      by (induction xs) simp_all
    ultimately show ?thesis by simp
  qed
  ultimately show ?thesis
    using capture_file_lines(2) [OF assms] by (simp add: parse_vmi_jsonl_def comp_def)
qed

text \<open>The line the terminal shows for an event, with the host's time of day.\<close>

definition shown :: "py_host \<Rightarrow> (int \<Rightarrow> string option) \<Rightarrow> (rat \<Rightarrow> string) \<Rightarrow> VmiEvent \<Rightarrow> string" where
  "shown P ename hms e =
     ''['' @ hms (event_time e) @ ''.'' @ zero_pad 3 (millis (event_time e)) @ ''] '' @ event_name e @ ''('' @
     join '', '' (event_args e) @ '')'' @ result_text P ename e"

lemma view_events:
  assumes "plain_ename ename" "\<And>t. host_hms P t = Inr (hms t)"
  shows "list_all event_ok es \<Longrightarrow> view P True (map (vmi_event_line ename) es) =
    Inr (map (shown P ename hms) es, True, length es)"
proof (induction es)
  case (Cons e es)
  then have "json_loads (vmi_event_line ename e) = Inr (JObj (vmi_event_json ename e))"
    using event_line_document(1) assms(1) by simp
  then have "show_text P True (vmi_event_line ename e) = Inr ([shown P ename hms e], True, 1)"
    by (simp add: show_text_def format_event_event assms(2) shown_def)
  with Cons show ?case by simp
qed simp

section \<open>Environment and debug log\<close>

text \<open>What \<open>getenv\<close> yields in the QEMU process, and how \<open>fopen\<close> fares there.\<close>

definition qemu_env :: "(string \<Rightarrow> string option) \<Rightarrow> (string \<Rightarrow> string option) \<Rightarrow> vmi_env" where
  "qemu_env opens env =
     \<lparr>env_addr = env ''VMI_MONITOR_ADDR'', env_ret_addr = env ''VMI_MONITOR_RET_ADDR'',
      env_log = env ''VMI_MONITOR_LOG'', open_append = opens\<rparr>"

definition addr_ok :: "int \<Rightarrow> bool" where
  "addr_ok a \<longleftrightarrow> 0 \<le> a \<and> a < 2 ^ 64"

lemma monitor_env_vars [simp]:
  "monitor_env addr ret logp env ''VMI_MONITOR_ADDR'' = Some (py_hex addr)"
  "monitor_env addr ret logp env ''VMI_MONITOR_LOG'' = Some logp"
  "monitor_env addr ret logp env ''VMI_MONITOR_RET_ADDR'' = map_option py_hex ret"
  by (simp_all add: monitor_env_def env_set_def env_pop_def Let_def split: option.split)

lemma word_of_addr_inj: "addr_ok a \<Longrightarrow> addr_ok b \<Longrightarrow> (word_of_int a :: u64) = word_of_int b \<longleftrightarrow> a = b"
  by (auto simp: addr_ok_def word_of_int_eq_iff take_bit_int_eq_self)

text \<open>The debug log as a text file.\<close>

definition debug_file :: "'k vmi \<Rightarrow> string" where
  "debug_file s = (case vmi_debug_fp s of None \<Rightarrow> [] | Some l \<Rightarrow> concat (map (\<lambda>m. m @ nl) l))"

lemma debug_fp_kvm [simp]:
  "vmi_debug_fp (fst (kvm_remove_breakpoint K cs a s)) = vmi_debug_fp s"
  "vmi_debug_fp (fst (kvm_insert_breakpoint K cs a s)) = vmi_debug_fp s"
  by (simp_all add: kvm_remove_breakpoint_def kvm_insert_breakpoint_def case_prod_beta)

lemma debug_fp_debug [simp]: "vmi_debug_fp (vmi_debug m s) = map_option (\<lambda>l. l @ [m]) (vmi_debug_fp s)"
  by (simp add: vmi_debug_def split: option.split)

text \<open>An arm attempt adds one line to an open debug log; a verified one the marker.\<close>

lemma arm_addr_debug:
  assumes "vmi_debug_fp s = Some l"
  shows "\<exists>m. vmi_debug_fp (fst (vmi_arm_addr K cs a tag s)) = Some (l @ [m]) \<and>
    (snd (vmi_arm_addr K cs a tag s) \<longrightarrow> m = tagged tag (''readback=0xcc confirmed at '' @ hex0x a))"
  using assms by (auto simp: vmi_arm_addr_def Let_def case_prod_beta split: option.split)

lemma arm_once_debug:
  assumes "vmi_debug_fp s = Some l" "snd (vmi_arm_addr K cs (vmi_addr s) tag s)"
  shows "\<exists>ls. vmi_debug_fp (fst (vmi_arm_once K cs tag s)) =
    Some (l @ tagged tag (''readback=0xcc confirmed at '' @ hex0x (vmi_addr s)) # ls)"
proof -
  let ?m = "tagged tag (''readback=0xcc confirmed at '' @ hex0x (vmi_addr s))"
  obtain s1 where s1: "vmi_arm_addr K cs (vmi_addr s) tag s = (s1, True)" "vmi_debug_fp s1 = Some (l @ [?m])"
    using arm_addr_debug [OF assms(1), of K cs "vmi_addr s" tag] assms(2)
    by (cases "vmi_arm_addr K cs (vmi_addr s) tag s") auto
  show ?thesis
  proof (cases "vmi_ret_addr s1 = 0")
    case False
    obtain s2 ok m where "vmi_arm_addr K cs (vmi_ret_addr s1) tag s1 = (s2, ok)" "vmi_debug_fp s2 = Some ((l @ [?m]) @ [m])"
      using arm_addr_debug [OF s1(2), of K cs "vmi_ret_addr s1" tag]
      by (cases "vmi_arm_addr K cs (vmi_ret_addr s1) tag s1") auto
    with s1 False show ?thesis by (simp add: vmi_arm_once_def)
  qed (simp add: vmi_arm_once_def s1)
qed

lemma arm_once_result:
  "snd (vmi_arm_once K cs tag s) \<longleftrightarrow> snd (vmi_arm_addr K cs (vmi_addr s) tag s) \<and>
     (vmi_ret_addr s = 0 \<or>
      snd (vmi_arm_addr K cs (vmi_ret_addr s) tag (fst (vmi_arm_addr K cs (vmi_addr s) tag s))))"
  using groups_fields(1) [OF vmi_arm_addr_frame(1) [of K cs "vmi_addr s" tag s]]
  by (auto simp: vmi_arm_once_def Let_def case_prod_beta)

lemma arm_marked_append: "arm_marked t \<Longrightarrow> arm_marked (t @ r)"
  unfolding arm_marked_def contains_iff by fastforce

lemma arm_marked_verified: "arm_marked (t @ tagged tag (''readback=0xcc confirmed at '' @ r) @ r')"
proof -
  have "t @ tagged tag (''readback=0xcc confirmed at '' @ r) @ r' =
      (t @ ''['' @ tag @ ''] '') @ ''readback=0xcc confirmed'' @ ('' at '' @ r @ r')"
    by (simp add: tagged_def)
  then show ?thesis unfolding arm_marked_def contains_iff by blast
qed

text \<open>A hypervisor that accepts the entry hook of \<open>sample_vmi\<close> but not its return hook.\<close>

definition one_hook_kvm :: "unit kvm" where
  "one_hook_kvm = \<lparr>insert_bp = (\<lambda>cs a h. (h, if a = 0x2000 then - 22 else 0)), remove_bp = (\<lambda>cs a h. (h, 0)),
     find_bp = (\<lambda>cs a h. True), read_byte = (\<lambda>cs a h. Some 0xcc), single_step = (\<lambda>cs on h. h),
     sync_state = (\<lambda>cs h. sample_env 0 0)\<rparr>"

end
