(* ===== verification/Machine_Capture.thy ===== *)
theory Machine_Capture
  imports Vmi_Properties Capture_Chain
begin

text \<open>
  The capture of the whole QEMU-side machine: of all the calls QEMU makes into the monitor,
  in any order and with any guest execution in between, only the claimed debug exits matter
  to the capture, so the file left at shutdown is that of the run of their traps.
\<close>

section \<open>The traps of a run\<close>

primrec effect_traps :: "effect \<Rightarrow> trap list" where
  "effect_traps No_effect = []"
| "effect_traps (Trap_effect t) = [t]"
| "effect_traps Flush_effect = []"

text \<open>The traps the monitor claims in a run, oldest first.\<close>

fun run_traps :: "'k qemu \<Rightarrow> 'k kvm \<Rightarrow> 'k vmi \<Rightarrow> 'k input list \<Rightarrow> trap list" where
  "run_traps Q K s [] = []"
| "run_traps Q K s (i # is) = effect_traps (input_effect Q K s i) @ run_traps Q K (vmi_react Q K s i) is"

definition shuts_down :: "'k qemu \<Rightarrow> 'k input \<Rightarrow> bool" where
  "shuts_down Q i = (case i of Run_state running st now \<Rightarrow> \<not> running \<and> st = run_state_shutdown Q | _ \<Rightarrow> False)"

definition input_time_ok :: "'k input \<Rightarrow> bool" where
  "input_time_ok i = (case i of Debug cs x tv \<Rightarrow> timeval_ok tv | _ \<Rightarrow> True)"

lemma effect_traps_length: "length (effect_traps e) \<le> 1"
  by (cases e) simp_all

lemma run_traps_length: "length (run_traps Q K s is) \<le> length is"
proof (induction "is" arbitrary: s)
  case (Cons i "is")
  then show ?case using effect_traps_length [of "input_effect Q K s i"] add_mono by fastforce
qed simp

lemma run_traps_times:
  "list_all input_time_ok is \<Longrightarrow> list_all (\<lambda>t. timeval_ok (trap_time t)) (run_traps Q K s is)"
proof (induction "is" arbitrary: s)
  case (Cons i "is")
  have "list_all (\<lambda>t. timeval_ok (trap_time t)) (effect_traps (input_effect Q K s i))"
    using Cons.prems by (cases i) (auto simp: input_time_ok_def hit_trap_def trap_time_def)
  with Cons show ?case by simp
qed simp

section \<open>The capture of a run is that of its traps\<close>

lemma kvm_handle_debug_hooks: "hooks (fst (kvm_handle_debug Q K tv cs x s)) = hooks s"
  by (simp add: kvm_handle_debug_def vmi_monitor_breakpoint_hit_parts)

lemma state_change_hooks: "hooks (vmi_vm_state_change K sh cs now running st s) = hooks s"
  by (simp add: vmi_vm_state_change_def Let_def)

lemma vmi_react_hooks: "hooks (vmi_react Q K s i) = hooks s"
  by (cases i) (simp_all add: kvm_handle_debug_hooks state_change_hooks fw_cfg_dma_done_def)

lemma same_captureI: "capture s = capture t \<Longrightarrow> hooks s = hooks t \<Longrightarrow> same_capture s t"
  by (simp add: same_capture_def groups)

lemma vmi_react_same:
  "same_capture (vmi_react Q K s i) (apply_effect (input_effect Q K s i) s)"
proof -
  have "hooks (vmi_flush_pending why s) = hooks s" for why by simp
  then have "vmi_addr (vmi_flush_pending why s) = vmi_addr s" "vmi_ret_addr (vmi_flush_pending why s) = vmi_ret_addr s" for why
    unfolding hooks_def prod.inject by blast+
  then have "vmi_addr (apply_effect e s) = vmi_addr s" "vmi_ret_addr (apply_effect e s) = vmi_ret_addr s" for e
    by (cases e; simp)+
  then show ?thesis
    using groups_fields(1) [OF vmi_react_hooks [of Q K s i]]
    by (simp add: same_capture_def react_capture)
qed

lemma apply_effect_traps:
  "\<not> shuts_down Q i \<Longrightarrow> apply_effect (input_effect Q K s i) t = foldl vmi_trap t (effect_traps (input_effect Q K s i))"
  by (cases i) (auto simp: shuts_down_def)

lemma run_same_capture:
  assumes "same_capture s t" "list_all (\<lambda>i. \<not> shuts_down Q i) is"
  shows "same_capture (foldl (vmi_react Q K) s is) (foldl vmi_trap t (run_traps Q K s is))"
  using assms
proof (induction "is" arbitrary: s t)
  case (Cons i "is")
  let ?ts = "effect_traps (input_effect Q K s i)"
  have "same_capture (vmi_react Q K s i) (foldl vmi_trap s ?ts)"
    using vmi_react_same [of Q K s i] apply_effect_traps [of Q i K s s] Cons.prems(2) by simp
  from same_capture_trans [OF this same_capture_run [OF Cons.prems(1)]]
  have "same_capture (vmi_react Q K s i) (foldl vmi_trap t ?ts)" .
  from Cons.IH [OF this] Cons.prems(2) show ?case by simp
qed simp

lemma run_hooks: "hooks (foldl (vmi_react Q K) s is) = hooks s"
  by (induction "is" arbitrary: s) (simp_all add: vmi_react_hooks)

text \<open>And at shutdown the flush follows.\<close>

lemma shutdown_capture:
  assumes "vmi_enabled s" "list_all (\<lambda>i. \<not> shuts_down Q i) is"
  shows "capture (foldl (vmi_react Q K) s (is @ [Run_state False (run_state_shutdown Q) now])) =
    capture (vmi_flush_pending ''shutdown'' (foldl vmi_trap s (run_traps Q K s is)))"
proof -
  let ?u = "foldl (vmi_react Q K) s is"
  have "vmi_enabled ?u" using assms(1) run_hooks [of Q K s "is"] by (simp add: hooks_def)
  then have "capture (vmi_react Q K ?u (Run_state False (run_state_shutdown Q) now)) =
      capture (vmi_flush_pending ''shutdown'' ?u)"
    by (simp add: react_capture del: vmi_react.simps)
  also have "\<dots> = capture (vmi_flush_pending ''shutdown'' (foldl vmi_trap s (run_traps Q K s is)))"
    by (intro same_captureD same_capture_flush run_same_capture assms(2)) (simp add: same_capture_def)
  finally show ?thesis by simp
qed

section \<open>From the guest's system calls to the readers of the capture file\<close>

text \<open>
  A monitor with an empty log that sees any run of entry and return traps and is shut down
  leaves a file with exactly one line per system call, from which \<open>validate_strace.py\<close>
  reads the names of the calls.
\<close>

lemma traps_read_back:
  assumes "capture_ready s" "seq_room s ts" "vmi_log s = []" "inflight (vmi_pending s) = []"
    and "list_all (\<lambda>t. timeval_ok (trap_time t)) ts" "plain_ename ename"
  shows "\<exists>names. parse_vmi_jsonl (capture_file ename (vmi_flush_pending ''shutdown'' (foldl vmi_trap s ts))) =
      Inr (map JStr names) \<and>
    mset names = mset (map call_name (entry_calls ts)) \<and>
    length (text_lines (capture_file ename (vmi_flush_pending ''shutdown'' (foldl vmi_trap s ts)))) = entries ts"
proof -
  let ?u = "vmi_flush_pending ''shutdown'' (foldl vmi_trap s ts)"
  note fresh = fresh_capture [OF assms]
  have "mset (map event_name (vmi_log ?u)) = image_mset call_name (mset (map event_call (vmi_log ?u)))"
    by (simp add: multiset.map_comp comp_def event_name_call [abs_def])
  also have "\<dots> = mset (map call_name (entry_calls ts))" using fresh(2) by (simp flip: mset_map)
  finally have "mset (map event_name (vmi_log ?u)) = mset (map call_name (entry_calls ts))" .
  moreover have "length (vmi_log ?u) = entries ts"
    using mset_eq_length [OF fresh(2)] by (simp add: entry_calls_def entries_def)
  ultimately show ?thesis
    using parse_capture_file [OF fresh(1)] capture_file_lines(2) [OF fresh(1)]
    by (intro exI [of _ "map event_name (vmi_log ?u)"]) simp
qed

text \<open>The QEMU process, from its start in the environment \<open>E\<close>, and the traps it claims.\<close>

definition machine_run :: "'k qemu \<Rightarrow> 'k kvm \<Rightarrow> vmi_env \<Rightarrow> 'k \<Rightarrow> 'k input list \<Rightarrow> 'k vmi" where
  "machine_run Q K E k is = foldl (vmi_react Q K) (vmi_monitor_init E (vmi_zero k)) is"

definition claimed :: "'k qemu \<Rightarrow> 'k kvm \<Rightarrow> vmi_env \<Rightarrow> 'k \<Rightarrow> 'k input list \<Rightarrow> trap list" where
  "claimed Q K E k is = run_traps Q K (vmi_monitor_init E (vmi_zero k)) is"

text \<open>The same process after the calls \<open>is\<close> and the shutdown.\<close>

definition machine_stopped :: "'k qemu \<Rightarrow> 'k kvm \<Rightarrow> vmi_env \<Rightarrow> 'k \<Rightarrow> 'k input list \<Rightarrow> int \<Rightarrow> 'k vmi" where
  "machine_stopped Q K E k is now = machine_run Q K E k (is @ [Run_state False (run_state_shutdown Q) now])"

text \<open>The monitor is on and catches returns, and nothing has shut the machine down yet.\<close>

definition monitored_run :: "'k qemu \<Rightarrow> vmi_env \<Rightarrow> 'k \<Rightarrow> 'k input list \<Rightarrow> bool" where
  "monitored_run Q E k is \<longleftrightarrow>
     vmi_enabled (vmi_monitor_init E (vmi_zero k)) \<and> vmi_ret_addr (vmi_monitor_init E (vmi_zero k)) \<noteq> 0 \<and>
     list_all (\<lambda>i. \<not> shuts_down Q i) is \<and> list_all input_time_ok is \<and> length is < 2 ^ 64"

lemma init_seq: "vmi_pending_seq (vmi_monitor_init E (vmi_zero k)) = 0"
proof -
  have "vmi_pending_seq (vmi_monitor_init E (vmi_zero k)) = vmi_pending_seq (vmi_zero k)"
    by (auto simp: vmi_monitor_init_def init_ret_addr_def Let_def split: option.split)
  then show ?thesis by (simp add: vmi_zero_def)
qed

lemma entries_le: "entries ts \<le> length ts"
  by (simp add: entries_def)

lemma monitored_start:
  assumes "monitored_run Q E k is" "plain_ename ename"
  defines "s \<equiv> vmi_monitor_init E (vmi_zero k)"
  shows "capture_ready s" "seq_room s (claimed Q K E k is)" "vmi_log s = []" "inflight (vmi_pending s) = []"
    "list_all (\<lambda>t. timeval_ok (trap_time t)) (claimed Q K E k is)"
proof -
  have "entries (claimed Q K E k is) \<le> length is"
    unfolding claimed_def using entries_le run_traps_length order_trans by blast
  then show "seq_room s (claimed Q K E k is)"
    using assms(1) init_seq [of E k] by (simp add: s_def seq_room_def monitored_run_def)
qed (use assms init_fresh run_traps_times in \<open>auto simp: s_def monitored_run_def claimed_def\<close>)

lemma machine_capture:
  assumes "monitored_run Q E k is"
  shows "capture (machine_stopped Q K E k is now) =
    capture (vmi_flush_pending ''shutdown'' (foldl vmi_trap (vmi_monitor_init E (vmi_zero k)) (claimed Q K E k is)))"
  using assms unfolding machine_stopped_def machine_run_def claimed_def monitored_run_def by (intro shutdown_capture) auto

lemma capture_log: "capture s = capture t \<Longrightarrow> vmi_log_fp s = vmi_log_fp t"
  by (simp add: groups)

lemma capture_file_cong: "vmi_log_fp s = vmi_log_fp t \<Longrightarrow> capture_file ename s = capture_file ename t"
  by (simp add: capture_file_def vmi_log_def)

text \<open>A run of the demonstration machine with one hit at the entry hook.\<close>

definition demo_calls :: "demo input list" where
  "demo_calls = [Guest (fst (demo_insert 0x101000 demo_start)), Debug 0 (demo_exit False) (sample_time 0)]"

lemma demo_monitored: "monitored_run demo_qemu demo_env demo_start demo_calls"
  using demo_boot_fields(1,3)
  by (simp add: monitored_run_def demo_boot_def demo_calls_def shuts_down_def input_time_ok_def timeval_ok_def
      sample_time_def)

lemma demo_claimed:
  "claimed demo_qemu demo_kvm demo_env demo_start demo_calls = [Entry_trap 0 (sample_env 0x7f00 1) (sample_time 0)]"
proof -
  have "claimed demo_qemu demo_kvm demo_env demo_start demo_calls =
      effect_traps (input_effect demo_qemu demo_kvm demo_armed (Debug 0 (demo_exit False) (sample_time 0)))"
    by (simp add: claimed_def demo_calls_def demo_armed_def demo_boot_def)
  then show ?thesis
    using demo_armed_fields
    by (simp add: demo_exit_def vmi_monitor_is_hook_addr_def vmi_monitor_get_state_def tables_def demo_kvm_def
        demo_insert_def demo_start_def hit_trap_def)
qed

lemma demo_called:
  "map call_name (entry_calls [Entry_trap 0 (sample_env 0x7f00 1) (sample_time 0)]) = [''write'']"
proof -
  have "call_name (trap_call (Entry_trap 0 (sample_env 0x7f00 1) (sample_time 0))) = ''write''" by code_simp
  then show ?thesis by (simp add: entry_calls_def)
qed

text \<open>
  C4: the capture file is complete and readable. A QEMU process whose monitor
  \<open>vmi_monitor_init\<close> has enabled with its return hook, through any sequence of QEMU's
  calls and guest execution that ends with the shutdown, leaves a file with exactly one line
  per entry trap it claimed; \<open>validate_strace.py\<close> reads from it, without an exception,
  exactly the names of those calls, each as often as it was made.
\<close>

theorem machine_read_back:
  assumes "monitored_run Q E k is" "plain_ename ename"
  shows "\<exists>names. parse_vmi_jsonl (capture_file ename (machine_stopped Q K E k is now)) = Inr (map JStr names) \<and>
    mset names = mset (map call_name (entry_calls (claimed Q K E k is))) \<and>
    length (text_lines (capture_file ename (machine_stopped Q K E k is now))) = entries (claimed Q K E k is)"
  using traps_read_back [OF monitored_start [OF assms(1,2)] assms(2)]
  unfolding capture_file_cong [OF capture_log [OF machine_capture [OF assms(1)]]] .

theorem machine_read_back_witness:
  "\<exists>names. parse_vmi_jsonl (capture_file sample_ename (machine_stopped demo_qemu demo_kvm demo_env demo_start demo_calls 5)) =
     Inr (map JStr names) \<and> mset names = {#''write''#}"
  using machine_read_back [OF demo_monitored sample_ok(2), of demo_kvm 5]
  by (simp add: demo_claimed demo_called)

text \<open>
  C24: every event is shown. On a host whose local time is defined, the terminal view of that
  file shows one line for each entry trap claimed, in the order of the log, and counts
  exactly these: no line the monitor writes makes the view fail or is skipped.
\<close>

theorem machine_view:
  assumes "monitored_run Q E k is" "plain_ename ename" "\<And>t. host_hms P t = Inr (hms t)"
  shows "view P True (complete_lines (capture_file ename (machine_stopped Q K E k is now))) =
      Inr (map (shown P ename hms) (vmi_log (machine_stopped Q K E k is now)), True, entries (claimed Q K E k is))"
proof -
  let ?u = "machine_stopped Q K E k is now"
  let ?v = "vmi_flush_pending ''shutdown'' (foldl vmi_trap (vmi_monitor_init E (vmi_zero k)) (claimed Q K E k is))"
  note fresh = fresh_capture [OF monitored_start [OF assms(1,2)] assms(2)]
  have log: "vmi_log_fp ?u = vmi_log_fp ?v" by (rule capture_log [OF machine_capture [OF assms(1)]])
  then have u: "vmi_log ?u = vmi_log ?v" "capture_file ename ?u = capture_file ename ?v"
    by (simp_all add: vmi_log_def capture_file_def)
  have "length (vmi_log ?v) = entries (claimed Q K E k is)"
    using mset_eq_length [OF fresh(2)] by (simp add: entry_calls_def entries_def)
  moreover have "view P True (complete_lines (capture_file ename ?v)) =
      Inr (map (shown P ename hms) (vmi_log ?v), True, length (vmi_log ?v))"
    using fresh(1) view_events [OF assms(2,3), of "vmi_log ?v"] capture_file_lines(1) [OF fresh(1)]
    by (simp add: plain_log_def)
  ultimately show ?thesis by (simp add: u)
qed

theorem machine_view_witness:
  "\<exists>outs. view demo_host True (complete_lines (capture_file sample_ename
      (machine_stopped demo_qemu demo_kvm demo_env demo_start demo_calls 5))) = Inr (outs, True, 1)"
proof -
  have "host_hms demo_host t = Inr ''09:30:00''" for t by (simp add: demo_host_def)
  from machine_view [OF demo_monitored sample_ok(2) this, of demo_kvm 5] show ?thesis
    by (simp add: demo_claimed)
qed

text \<open>
  C5: the machine implements the queue of calls in flight. After any sequence of QEMU's
  calls and guest execution the pending table and the log are what the queue specification
  computes from the claimed traps alone, starting empty; the shutdown then ends the calls in
  flight in the order they were made, after everything already logged.
\<close>

theorem machine_implements_queue:
  assumes "monitored_run Q E k is"
  shows "let rip = vmi_addr (vmi_monitor_init E (vmi_zero k));
             q = fst (foldl (spec_trap rip) (([], []), 0) (claimed Q K E k is))
         in pend_abs (machine_run Q K E k is) = q \<and>
            pend_abs (machine_stopped Q K E k is now) = spec_flush rip ''shutdown'' q"
proof -
  let ?s = "vmi_monitor_init E (vmi_zero k)" and ?ts = "claimed Q K E k is"
  have ename: "plain_ename sample_ename" by (rule sample_ok)
  note start = monitored_start [OF assms ename]
  have abs: "pend_abs ?s = ([], [])" using start(3,4) by (simp add: pend_abs_def)
  have cong: "capture s = capture t \<Longrightarrow> pend_abs s = pend_abs t" for s t :: "'a vmi"
    by (simp add: groups pend_abs_def vmi_log_def)
  have "same_capture (machine_run Q K E k is) (foldl vmi_trap ?s ?ts)"
    using assms unfolding machine_run_def claimed_def monitored_run_def
    by (intro run_same_capture) (simp_all add: same_capture_def)
  then have "pend_abs (machine_run Q K E k is) = pend_abs (foldl vmi_trap ?s ?ts)" by (intro cong same_captureD)
  moreover have "pend_abs (machine_stopped Q K E k is now) = pend_abs (vmi_flush_pending ''shutdown'' (foldl vmi_trap ?s ?ts))"
    by (rule cong [OF machine_capture [OF assms]])
  ultimately show ?thesis
    using run_abs [OF start(1,2)] capture_calls(3) [OF start(1,2)] by (simp add: abs init_seq)
qed

theorem machine_implements_queue_witness:
  "length (snd (pend_abs (machine_stopped demo_qemu demo_kvm demo_env demo_start demo_calls 5))) = 1"
  using machine_implements_queue [OF demo_monitored, of demo_kvm 5]
  by (simp add: demo_claimed Let_def spec_entry_def spec_flush_def VMI_PENDING_MAX_def)

end
