(* ===== verification/Event_Schema.thy ===== *)
theory Event_Schema
  imports Machine_Capture
begin

text \<open>
  The type of an event document, which the two capture back ends write and the three readers
  rely on: what \<open>vmi_write_event\<close> and \<open>monitor.py\<close> write is well typed, and a
  well-typed event never makes a reader raise.
\<close>

section \<open>Types of values and events\<close>

datatype ty = Ty_null | Ty_int | Ty_number | Ty_text | Ty_texts

inductive has_type :: "json \<Rightarrow> ty \<Rightarrow> bool" where
  ty_null: "has_type JNull Ty_null"
| ty_int: "has_type (JInt i) Ty_int"
| ty_number_int: "has_type (JInt i) Ty_number"
| ty_number_dec: "has_type (JDec m k) Ty_number"
| ty_text: "has_type (JStr s) Ty_text"
| ty_texts: "has_type (JArr (map JStr ss)) Ty_texts"

declare has_type.intros [simp, intro]

inductive_cases null_typed: "has_type v Ty_null"
inductive_cases int_typed: "has_type v Ty_int"
inductive_cases number_typed: "has_type v Ty_number"
inductive_cases text_typed: "has_type v Ty_text"
inductive_cases texts_typed: "has_type v Ty_texts"

lemmas typed_cases = null_typed int_typed number_typed text_typed texts_typed

definition field :: "(string \<times> json) list \<Rightarrow> string \<Rightarrow> ty \<Rightarrow> bool" where
  "field evt k t \<longleftrightarrow> (case jget evt k of None \<Rightarrow> False | Some v \<Rightarrow> has_type v t)"

definition without :: "(string \<times> json) list \<Rightarrow> string \<Rightarrow> bool" where
  "without evt k \<longleftrightarrow> jget evt k = None"


text \<open>An event at entry only, one with its result, and one that never returned.\<close>

definition call_typed :: "(string \<times> json) list \<Rightarrow> bool" where
  "call_typed evt \<longleftrightarrow>
     field evt ''ts'' Ty_number \<and> field evt ''num'' Ty_int \<and> field evt ''syscall'' Ty_text \<and> field evt ''args'' Ty_texts"

inductive event_typed :: "(string \<times> json) list \<Rightarrow> bool" where
  entry_typed: "call_typed evt \<Longrightarrow> without evt ''ret'' \<Longrightarrow> without evt ''unfinished'' \<Longrightarrow> event_typed evt"
| return_typed: "call_typed evt \<Longrightarrow> field evt ''ret'' Ty_int \<Longrightarrow> field evt ''dur_us'' Ty_int \<Longrightarrow>
    without evt ''err'' \<or> field evt ''err'' Ty_text \<Longrightarrow> without evt ''unfinished'' \<Longrightarrow> event_typed evt"
| unfinished_typed: "call_typed evt \<Longrightarrow> field evt ''ret'' Ty_null \<Longrightarrow> field evt ''unfinished'' Ty_text \<Longrightarrow>
    event_typed evt"

section \<open>The writers\<close>

lemma vmi_event_typed: "event_typed (vmi_event_json ename e)"
proof -
  let ?evt = "vmi_event_json ename e"
  have "jget ?evt ''num'' = Some (JInt (int (unat (e_num e))))"
    by (simp add: vmi_event_json_def jget_def kind_json_def split_beta split: VmiRetKind.split option.split)
  then have call: "call_typed ?evt" by (simp add: call_typed_def field_def)
  show ?thesis
  proof (cases "e_kind e")
    case VMI_RET_NONE
    then show ?thesis by (intro entry_typed [OF call]) (simp_all add: without_def)
  next
    case (VMI_RET_VALUE r tv)
    then show ?thesis
      by (intro return_typed [OF call]) (auto simp: without_def field_def split: option.split)
  next
    case (VMI_RET_UNFINISHED why)
    then show ?thesis by (intro unfinished_typed [OF call]) (simp_all add: field_def)
  qed
qed

lemma gdb_event_typed: "\<exists>evt. gdb_event h = JObj evt \<and> event_typed evt"
proof -
  obtain name argc where d: "describe py_table_get py_str_int (h_reg h ''rax'') = (name, argc)" by fastforce
  let ?args = "map py_hex (map (h_reg h) (take argc arg_regs))"
  define evt where "evt = [(''ts'', JDec (fst (h_ts h)) (snd (h_ts h))), (''num'', JInt (h_reg h ''rax'')),
     (''syscall'', JStr name), (''args'', JArr (map JStr ?args)),
     (''handler_latency_ns'', JInt (py_round (fl64 (fl64 (h_exit h - h_enter h) * 10 ^ 9))))]"
  have "call_typed evt" by (simp add: call_typed_def field_def evt_def jget_def del: map_map)
  moreover have "without evt ''ret''" "without evt ''unfinished''" by (simp_all add: without_def evt_def jget_def)
  moreover have "gdb_event h = JObj evt" by (simp add: gdb_event_def Let_def d evt_def comp_def)
  ultimately show ?thesis using entry_typed by blast
qed

section \<open>The readers\<close>




text \<open>A line of a capture file that holds a well-typed event.\<close>

definition typed_line :: "string \<Rightarrow> bool" where
  "typed_line line = (case json_loads line of Inr (JObj evt) \<Rightarrow> event_typed evt | _ \<Rightarrow> False)"

lemma typed_lineI: "json_loads line = Inr (JObj evt) \<Longrightarrow> event_typed evt \<Longrightarrow> typed_line line"
  by (simp add: typed_line_def)


section \<open>Properties\<close>

text \<open>\<open>repr\<close> of a float has digits behind the point.\<close>

definition hit_ok :: "hit \<Rightarrow> bool" where
  "hit_ok h \<longleftrightarrow> 0 < snd (h_ts h)"

lemma gdb_line_typed: "hit_ok h \<Longrightarrow> typed_line (event_line h)"
proof -
  assume ok: "hit_ok h"
  obtain evt where evt: "gdb_event h = JObj evt" "event_typed evt" using gdb_event_typed by blast
  have "json_ok (gdb_event h)"
    using ok by (simp add: gdb_event_def Let_def split_beta hit_ok_def list_all_iff)
  then have "json_loads (event_line h) = Inr (gdb_event h)"
    unfolding event_line_def newline_def nl_def [symmetric] by (rule json_loads_dumps [OF _ nl_ends])
  with evt show ?thesis by (intro typed_lineI) simp_all
qed

lemma gdb_log_lines:
  "set (gm_log (foldl (gdb_hit cfg) (gdb_init p []) hs)) \<subseteq> event_line ` set hs"
proof -
  have "set (room cfg n xs) \<subseteq> set xs" for n and xs :: "hit list"
    by (auto simp: room_def dest: in_set_takeD split: option.splits)
  then show ?thesis
    using gdb_run_log [OF gdb_inv_init [of cfg "[]" p], of hs] by (fastforce simp: gdb_init_def)
qed

text \<open>
  C6: the writers are well typed. Every line of the file the QEMU-side monitor leaves at
  shutdown, and every line \<open>monitor.py\<close> writes, is read back by \<open>json.loads\<close> as an
  object with a numeric time, an integer number, a name and a list of texts, and with either
  no result, an integer result with its duration, or a null result with the reason.
\<close>

theorem captures_typed:
  assumes "monitored_run Q E k is" "plain_ename ename" "list_all hit_ok hs"
  shows "list_all typed_line (text_lines (capture_file ename (machine_stopped Q K E k is now))) \<and>
    list_all typed_line (gm_log (foldl (gdb_hit cfg) (gdb_init p []) hs))"
proof
  let ?v = "vmi_flush_pending ''shutdown'' (foldl vmi_trap (vmi_monitor_init E (vmi_zero k)) (claimed Q K E k is))"
  note plain = fresh_capture(1) [OF monitored_start [OF assms(1,2)] assms(2)]
  have "list_all typed_line (text_lines (capture_file ename ?v))"
    using plain event_line_document(1) vmi_event_typed
    unfolding capture_file_lines(2) [OF plain] by (auto simp: plain_log_def list_all_iff intro!: typed_lineI)
  then show "list_all typed_line (text_lines (capture_file ename (machine_stopped Q K E k is now)))"
    unfolding capture_file_cong [OF capture_log [OF machine_capture [OF assms(1)]]] .
  show "list_all typed_line (gm_log (foldl (gdb_hit cfg) (gdb_init p []) hs))"
    using gdb_log_lines [of cfg p hs] gdb_line_typed assms(3) by (auto simp: list_all_iff)
qed

theorem captures_typed_witness:
  "list_all typed_line (text_lines (capture_file sample_ename
      (machine_stopped demo_qemu demo_kvm demo_env demo_start demo_calls 5))) \<and>
    list_all typed_line (gm_log (foldl (gdb_hit any_config) (gdb_init ''log'' []) [sample_hit]))"
  by (rule captures_typed [OF demo_monitored sample_ok(2)]) (simp add: hit_ok_def sample_hit_def)



end
