(* ===== verification/Ground_Truth.thy ===== *)
theory Ground_Truth
  imports Event_Schema
begin

text \<open>
  The capture against the guest's own account: a console log in which the guest has written
  one line for each call the monitor logged, in that order, between whatever else it prints. A capture that
  started later, when gdb was attached, is compared with the log of the whole run.
\<close>

section \<open>The names the monitor writes\<close>

definition ident :: "string \<Rightarrow> bool" where
  "ident s \<longleftrightarrow> s \<noteq> [] \<and> id_start (hd s) \<and> list_all id_char s"

lemma table_idents: "list_all (\<lambda>r. ident (fst (snd r))) SYSCALL_TABLE"
  by code_simp

lemma digits_ident: "list_all id_char (nat_digits 10 n)"
proof -
  have "id_char (digit_char d)" if "d < 10" for d
    using that by (auto simp: id_char_def ab_digit_def digit_char_code Let_def)
  then show ?thesis using nat_digits_digits [of 10 _ n] by (fastforce simp: list_all_iff)
qed

lemma event_name_ident: "ident (event_name e)"
proof (cases "c_table_get (e_num e)")
  case None
  have "ident ''syscall_''" by code_simp
  with None digits_ident show ?thesis
    by (simp add: event_name_def describe_def c_udec_def ident_def)
next
  case (Some p)
  then have "(c_int_of_u64 (e_num e), p) \<in> set SYSCALL_TABLE"
    by (auto simp: c_table_get_eq py_table_get_def dest: map_of_SomeD)
  with table_idents Some show ?thesis by (auto simp: list_all_iff event_name_def describe_def)
qed

section \<open>The console log\<close>

definition call_line :: "string \<Rightarrow> string \<Rightarrow> string \<Rightarrow> string \<Rightarrow> string" where
  "call_line noise name args result = noise @ name @ ''('' @ args @ '') = '' @ result"

text \<open>
  Lines without their ends, and the names of the calls they account for. In front of a call
  there may be anything but letters and underscores, such as control characters.
\<close>

inductive accounts :: "string list \<Rightarrow> string list \<Rightarrow> bool" where
  acc_none: "accounts [] []"
| acc_other: "strace_name (line @ nl) = None \<Longrightarrow> CHR 0x0A \<notin> set line \<Longrightarrow> accounts ls names \<Longrightarrow>
    accounts (line # ls) names"
| acc_call: "list_all (\<lambda>c. \<not> id_start c) noise \<Longrightarrow> ident name \<Longrightarrow> CHR 0x0A \<notin> set (call_line noise name args result) \<Longrightarrow>
    accounts ls names \<Longrightarrow> accounts (call_line noise name args result # ls) (name # names)"

definition console :: "string list \<Rightarrow> string" where
  "console ls = concat (map (\<lambda>l. l @ nl) ls)"

lemma id_char_printable: "id_char c \<Longrightarrow> py_printable c"
  by (auto simp: id_char_def id_start_def ab_digit_def py_printable_def Let_def)

lemma call_line_name:
  assumes "list_all (\<lambda>c. \<not> id_start c) noise" "ident name"
  shows "strace_name (call_line noise name args result @ nl) = Some name"
proof -
  have "filter py_printable name = name"
    using assms(2) id_char_printable by (auto simp: ident_def list_all_iff filter_id_conv)
  moreover have "filter py_printable ''('' = ''(''" "filter py_printable '') = '' = '') = ''" by code_simp+
  ultimately have clean: "filter py_printable (call_line noise name args result @ nl) =
      filter py_printable noise @ name @ ''('' @ filter py_printable args @ '')'' @ '' '' @ ''='' @
      ('' '' @ filter py_printable (result @ nl))"
    unfolding call_line_def filter_append by simp
  have blank: "list_all py_space '' ''" by code_simp
  show ?thesis
    by (rule strace_line_name [OF clean]) (use assms blank in \<open>auto simp: list_all_iff ident_def\<close>)
qed

lemma console_lines:
  assumes "\<forall>l \<in> set ls. CHR 0x0A \<notin> set l"
  shows "text_lines (console ls) = map (\<lambda>l. l @ nl) ls"
proof -
  have "\<forall>l \<in> set (map (\<lambda>l. l @ nl) ls). \<exists>b. l = b @ nl \<and> CHR 0x0A \<notin> set b" using assms by auto
  from concat_lines [OF this] show ?thesis
    by (simp add: console_def text_lines_def complete_lines_def Let_def)
qed

lemma accounts_parsed: "accounts ls names \<Longrightarrow> parse_strace_log (console ls) = names"
proof -
  assume acc: "accounts ls names"
  then have "\<forall>l \<in> set ls. CHR 0x0A \<notin> set l" by induction auto
  note lines = console_lines [OF this]
  from acc have "somes (map (\<lambda>l. strace_name (l @ nl)) ls) = names"
    by induction (simp_all add: somes_def call_line_name)
  then show ?thesis by (simp add: parse_strace_log_def lines comp_def)
qed

text \<open>The names read from the capture of a whole run.\<close>

lemma machine_log:
  fixes Q :: "'k qemu" and K :: "'k kvm" and now :: int
  assumes "monitored_run Q E k is" "plain_ename ename"
  defines "u \<equiv> machine_stopped Q K E k is now"
  shows "parse_vmi_jsonl (capture_file ename u) = Inr (map JStr (map event_name (vmi_log u)))"
    and "mset (map event_name (vmi_log u)) = mset (map call_name (entry_calls (claimed Q K E k is)))"
proof -
  let ?v = "vmi_flush_pending ''shutdown'' (foldl vmi_trap (vmi_monitor_init E (vmi_zero k)) (claimed Q K E k is))"
  note fresh = fresh_capture [OF monitored_start [OF assms(1,2)] assms(2)]
  have "vmi_log_fp u = vmi_log_fp ?v" unfolding u_def by (rule capture_log [OF machine_capture [OF assms(1)]])
  then have u: "vmi_log u = vmi_log ?v" "capture_file ename u = capture_file ename ?v"
    by (simp_all add: vmi_log_def capture_file_def)
  show "parse_vmi_jsonl (capture_file ename u) = Inr (map JStr (map event_name (vmi_log u)))"
    using parse_capture_file [OF fresh(1)] by (simp add: u)
  have "mset (map event_name (vmi_log ?v)) = image_mset call_name (mset (map event_call (vmi_log ?v)))"
    by (simp add: multiset.map_comp comp_def event_name_call [abs_def])
  also have "\<dots> = mset (map call_name (entry_calls (claimed Q K E k is)))" unfolding fresh(2) by simp
  finally show "mset (map event_name (vmi_log u)) = mset (map call_name (entry_calls (claimed Q K E k is)))" by (simp add: u)
qed

text \<open>
  C37: a faithful capture is confirmed. Let the console log account for exactly the calls the
  monitor has logged, in the order of the log, between any other lines. Then, on a terminal
  that takes its output, \<open>validate_strace.py\<close> ends with 0 and reports the same number of
  calls on both sides, ratio 1, one matching run that is the whole of both logs, an empty
  diff and no name that only one of them has.
\<close>

theorem ground_truth_confirms:
  assumes "monitored_run Q E k is" "plain_ename ename" "prints_succeed w"
    and "accounts ls (map event_name (vmi_log (machine_stopped Q K E k is now)))"
    and "w_text w (h @ [Read_text vmi]) = Inr (capture_file ename (machine_stopped Q K E k is now))"
    and "w_text w (h @ [Read_text vmi, Read_text strace]) = Inr (console ls)"
  shows "validate_main P vmi strace w h =
    Some (Inr 0, h @ [Read_text vmi, Read_text strace] @
      map Print (full_match P (map event_name (vmi_log (machine_stopped Q K E k is now)))))"
proof -
  let ?u = "machine_stopped Q K E k is now"
  note names = machine_log(1) [OF assms(1,2)]
  from validate_texts [OF assms(3,5) names assms(6) accounts_parsed [OF assms(4)]]
  show ?thesis unfolding report_same .
qed

definition console_world :: "string \<Rightarrow> string \<Rightarrow> world" where
  "console_world captured printed = null_world\<lparr>w_text := (\<lambda>h. Inr (if last h = Read_text ''capture.jsonl'' then captured else printed))\<rparr>"

theorem ground_truth_confirms_witness:
  "\<exists>w. validate_main hmp_host ''capture.jsonl'' ''console.log'' w [] =
    Some (Inr 0, [Read_text ''capture.jsonl'', Read_text ''console.log''] @ map Print (full_match hmp_host [''write'']))"
proof -
  let ?u = "machine_stopped demo_qemu demo_kvm demo_env demo_start demo_calls 5"
  let ?ls = "[''Powered by Unikraft'', call_line [char_of (0 :: nat)] ''write'' ''fd:4'' ''82'']"
  let ?w = "console_world (capture_file sample_ename ?u) (console ?ls)"
  have "mset (map event_name (vmi_log ?u)) = {#''write''#}"
    using machine_log(2) [OF demo_monitored sample_ok(2), of demo_kvm 5] by (simp add: demo_claimed demo_called)
  then have names: "map event_name (vmi_log ?u) = [''write'']" by (metis mset_single_iff mset.simps(1))
  have acc: "accounts ?ls [''write'']"
    by (intro acc_other acc_call acc_none) code_simp+
  have "prints_succeed ?w" by (simp add: prints_succeed_def console_world_def null_world_def)
  moreover have "w_text ?w ([] @ [Read_text ''capture.jsonl'']) = Inr (capture_file sample_ename ?u)"
    "w_text ?w ([] @ [Read_text ''capture.jsonl'', Read_text ''console.log'']) = Inr (console ?ls)"
    by (simp_all add: console_world_def)
  ultimately have "validate_main hmp_host ''capture.jsonl'' ''console.log'' ?w [] =
    Some (Inr 0, [] @ [Read_text ''capture.jsonl'', Read_text ''console.log''] @ map Print (full_match hmp_host [''write'']))"
    using ground_truth_confirms [OF demo_monitored sample_ok(2) _ acc [folded names], where P = hmp_host and w = ?w
        and h = "[]" and vmi = "''capture.jsonl''" and strace = "''console.log''"] unfolding names by blast
  then show ?thesis by auto
qed

section \<open>A capture that was attached later\<close>

text \<open>
  \<open>monitor.py\<close> records from the moment gdb is attached, so the console log has more
  calls than the capture: those before, and those after its event limit.
\<close>

definition hit_name :: "hit \<Rightarrow> string" where
  "hit_name h = fst (describe py_table_get py_str_int (h_reg h ''rax''))"

definition logged_hits :: "gdb_config \<Rightarrow> hit list \<Rightarrow> hit list" where
  "logged_hits cfg hs = room cfg 0 (filter (\<lambda>h. \<not> filtered cfg (h_reg h ''rax'')) hs)"

definition gdb_file :: "gdb_config \<Rightarrow> string \<Rightarrow> hit list \<Rightarrow> string" where
  "gdb_file cfg p hs = concat (gm_log (foldl (gdb_hit cfg) (gdb_init p []) hs))"

lemma logged_hits_sub: "set (logged_hits cfg hs) \<subseteq> set hs"
  by (auto simp: logged_hits_def room_def dest: in_set_takeD split: option.splits)

lemma gdb_file_events: "gdb_file cfg p hs = concat (map event_line (logged_hits cfg hs))"
  using gdb_run_log [OF gdb_inv_init [of cfg "[]" p], of hs] by (simp add: gdb_file_def logged_hits_def gdb_init_def)

lemma hit_line:
  assumes "hit_ok h"
  shows "\<exists>b. event_line h = b @ nl \<and> CHR 0x0A \<notin> set b"
    and "py_strip (event_line h) \<noteq> []" and "syscall_of (py_strip (event_line h)) = Inr (JStr (hit_name h))"
proof -
  let ?d = "json_dumps (gdb_event h)"
  have ok: "json_ok (gdb_event h)"
    using assms by (simp add: gdb_event_def Let_def split_beta hit_ok_def list_all_iff)
  have line: "event_line h = ?d @ nl" by (simp add: event_line_def newline_def nl_def)
  show "\<exists>b. event_line h = b @ nl \<and> CHR 0x0A \<notin> set b"
    using line json_dumps_one_line [OF ok] by blast
  obtain evt where evt: "gdb_event h = JObj evt" "jget evt ''syscall'' = Some (JStr (hit_name h))"
    by (simp add: gdb_event_def hit_name_def Let_def split_beta jget_def)
  have ends: "\<not> py_space (CHR ''{'')" "\<not> py_space (CHR ''}'')" "py_space (CHR 0x0A)" by code_simp+
  obtain m where d: "?d = ''{'' @ m @ ''}''" unfolding evt by (simp add: json_dumps_JObj)
  have strip: "py_strip (event_line h) = ?d" unfolding line d using ends by (simp add: py_strip_def nl_def)
  show "py_strip (event_line h) \<noteq> []" unfolding strip d by simp
  have "json_loads (?d @ []) = Inr (gdb_event h)"
    by (rule json_loads_dumps [OF ok]) (simp_all add: skip_ws_def ends_number_def)
  with evt show "syscall_of (py_strip (event_line h)) = Inr (JStr (hit_name h))"
    by (simp add: syscall_of_def strip)
qed

lemma gdb_file_names:
  assumes "list_all hit_ok hs"
  shows "parse_vmi_jsonl (gdb_file cfg p hs) = Inr (map JStr (map hit_name (logged_hits cfg hs)))"
proof -
  let ?hs = "logged_hits cfg hs"
  have ok: "\<forall>h \<in> set ?hs. hit_ok h" using assms logged_hits_sub by (fastforce simp: list_all_iff)
  have "\<forall>l \<in> set (map event_line ?hs). \<exists>b. l = b @ nl \<and> CHR 0x0A \<notin> set b" using ok hit_line(1) by auto
  from concat_lines [OF this] have "text_lines (gdb_file cfg p hs) = map event_line ?hs"
    by (simp add: gdb_file_events text_lines_def complete_lines_def Let_def)
  moreover have "map_result syscall_of (filter (\<lambda>l. l \<noteq> []) (map py_strip (map event_line xs))) =
      Inr (map JStr (map hit_name xs))" if "\<forall>h \<in> set xs. hit_ok h" for xs
    using that by (induction xs) (simp_all add: hit_line)
  ultimately show ?thesis using ok by (simp add: parse_vmi_jsonl_def)
qed

text \<open>
  C38: a capture that gdb attached to is confirmed. Let \<open>monitor.py\<close> have logged at least one
  event, and let the console log account for its calls in the order of the log, after those
  before it was attached and before those behind its limit. Then \<open>validate_strace.py\<close> ends
  with 0 and reports the number of calls on both sides, the ratio, and as longest matching run
  the whole capture, at a place of the console log where it really is.
\<close>

theorem attached_capture_confirmed:
  assumes "list_all hit_ok hs" "names = map hit_name (logged_hits cfg hs)" "names \<noteq> []" "prints_succeed w"
    and "accounts ls (earlier @ names @ later)"
    and "w_text w (h @ [Read_text vmi]) = Inr (gdb_file cfg p hs)"
    and "w_text w (h @ [Read_text vmi, Read_text strace]) = Inr (console ls)"
  shows "\<exists>i rest. validate_main P vmi strace w h =
      Some (Inr 0, h @ [Read_text vmi, Read_text strace] @ map Print (counts (earlier @ names @ later) names @
        [''Sequence similarity ratio: '' @
           host_float_fmt P ''.3f'' (sm_ratio (map JStr (earlier @ names @ later)) (map JStr names))] @
        match_text P (earlier @ names @ later) (map JStr names) (i, 0, length names) @ rest)) \<and>
    take (length names) (drop i (earlier @ names @ later)) = names"
proof -
  note parsed = gdb_file_names [OF assms(1), of cfg p, folded assms(2)]
  obtain i rest where report: "validate_report P (earlier @ names @ later) names = counts (earlier @ names @ later) names @
        [''Sequence similarity ratio: '' @
           host_float_fmt P ''.3f'' (sm_ratio (map JStr (earlier @ names @ later)) (map JStr names))] @
        match_text P (earlier @ names @ later) (map JStr names) (i, 0, length names) @ rest"
      "take (length names) (drop i (earlier @ names @ later)) = names"
    using report_within [OF assms(3), of P earlier later] by blast
  from validate_texts [OF assms(4,6) parsed assms(7) accounts_parsed [OF assms(5)], where P = P] report(2)
  show ?thesis unfolding report(1) by blast
qed

theorem attached_capture_confirmed_witness:
  "\<exists>w acts. validate_main hmp_host ''capture.jsonl'' ''console.log'' w [] = Some (Inr 0, acts) \<and>
    set (map Print (counts [''brk'', ''write'', ''close''] [''write''])) \<subseteq> set acts"
proof -
  let ?ls = "[call_line [] ''brk'' ''0'' ''0'', ''Powered by Unikraft'', call_line [] ''write'' ''fd:4'' ''82'',
    call_line [] ''close'' ''fd:4'' ''OK'']"
  let ?w = "console_world (gdb_file any_config ''log'' [sample_hit]) (console ?ls)"
  have names: "[''write''] = map hit_name (logged_hits any_config [sample_hit])" by code_simp
  have acc: "accounts ?ls ([''brk''] @ [''write''] @ [''close''])"
    unfolding append.simps by (intro acc_other acc_call acc_none) code_simp+
  have "list_all hit_ok [sample_hit]" by (simp add: hit_ok_def sample_hit_def)
  moreover have "prints_succeed ?w" by (simp add: prints_succeed_def console_world_def null_world_def)
  moreover have "w_text ?w ([] @ [Read_text ''capture.jsonl'']) = Inr (gdb_file any_config ''log'' [sample_hit])"
    "w_text ?w ([] @ [Read_text ''capture.jsonl'', Read_text ''console.log'']) = Inr (console ?ls)"
    by (simp_all add: console_world_def)
  ultimately have "\<exists>i rest. validate_main hmp_host ''capture.jsonl'' ''console.log'' ?w [] =
    Some (Inr 0, [] @ [Read_text ''capture.jsonl'', Read_text ''console.log''] @
      map Print (counts ([''brk''] @ [''write''] @ [''close'']) [''write''] @
        [''Sequence similarity ratio: '' @ host_float_fmt hmp_host ''.3f''
           (sm_ratio (map JStr ([''brk''] @ [''write''] @ [''close''])) (map JStr [''write'']))] @
        match_text hmp_host ([''brk''] @ [''write''] @ [''close'']) (map JStr [''write'']) (i, 0, length [''write'']) @ rest)) \<and>
    take (length [''write'']) (drop i ([''brk''] @ [''write''] @ [''close''])) = [''write'']"
    using attached_capture_confirmed [OF _ names _ _ acc, where P = hmp_host and w = ?w and h = "[]"] by blast
  then obtain rest where "validate_main hmp_host ''capture.jsonl'' ''console.log'' ?w [] =
    Some (Inr 0, [Read_text ''capture.jsonl'', Read_text ''console.log''] @
      map Print (counts [''brk'', ''write'', ''close''] [''write'']) @ rest)"
    unfolding append.simps map_append append_assoc by blast
  then show ?thesis by (intro exI conjI, assumption) auto
qed

end
