(* ===== verification/Gdb_Start.thy ===== *)
theory Gdb_Start
  imports Gdb_Monitor Run_Capture
begin

text \<open>
  The module level of \<open>monitor.py\<close>: what gdb's interpreter runs when it sources the
  script, with the environment of the gdb process. The settings are read first, then the
  hook is resolved, then \<open>SyscallBreakpoint\<close> is constructed; nothing resumes the target.
\<close>

section \<open>The start of the script\<close>

definition monitor_log_path :: "(string \<Rightarrow> string option) \<Rightarrow> string \<Rightarrow> string" where
  "monitor_log_path env here =
     (case env ''VMI_LOG_PATH'' of Some p \<Rightarrow> p | None \<Rightarrow> here @ ''/logs/capture.jsonl'')"

definition hook_location :: "string io" where
  "hook_location =
     io_catch (io_then (act (Gdb_decode ''*_ukplat_syscall'')) (io_return (fst (resolve_hook_address None))))
       (\<lambda>e. case e of
          GdbError m \<Rightarrow> io_then (io_seq (map py_print (snd (resolve_hook_address (Some m)))))
            (io_return (fst (resolve_hook_address (Some m))))
        | _ \<Rightarrow> io_raise e)"

text \<open>\<open>SyscallBreakpoint.__init__\<close>; on return the object is in the state \<open>gdb_init\<close>.\<close>

definition breakpoint_init :: "string \<Rightarrow> string \<Rightarrow> unit io" where
  "breakpoint_init log_path location =
     io_then (act (Gdb_break location))
     (io_then (os_makedirs (py_dirname log_path))
     (io_then (act (Open_append log_path))
     (py_print (''[monitor.py] logging to '' @ log_path))))"

definition monitor_start :: "(gdb_config \<times> string) io" where
  "monitor_start =
     io_bind get_environ (\<lambda>env.
     io_bind get_here (\<lambda>here.
     io_bind (io_lift (load_config (env ''VMI_INCLUDE_NRS'') (env ''VMI_EXCLUDE_NRS'') (env ''VMI_MAX_EVENTS''))) (\<lambda>cfg.
     io_bind hook_location (\<lambda>location.
     io_then (breakpoint_init (monitor_log_path env here) location)
     (io_then (py_print ''[monitor.py] breakpoint armed, auto-continuing on every hit'')
     (io_return (cfg, monitor_log_path env here)))))))"

section \<open>How it ends\<close>

lemma hook_location_Some:
  assumes "hook_location w h = Some (Inr loc, h')"
  shows "loc \<in> {''*_ukplat_syscall'', ''*'' @ py_hex 0x101000} \<and> (\<exists>as. h' = h @ Gdb_decode ''*_ukplat_syscall'' # as)"
proof -
  let ?h1 = "h @ [Gdb_decode ''*_ukplat_syscall'']"
  show ?thesis
  proof (cases "w_unit w ?h1")
    case (Inr u)
    with assms show ?thesis by (auto simp: hook_location_def io_catch_def io_then_def io_bind_def act_def
        io_return_def resolve_hook_address_def)
  next
    case (Inl e)
    show ?thesis
    proof (cases e)
      case (GdbError m)
      let ?outs = "map py_print (snd (resolve_hook_address (Some m)))"
      from Inl GdbError assms have "io_then (io_seq ?outs) (io_return (fst (resolve_hook_address (Some m)))) w ?h1 =
          Some (Inr loc, h')"
        by (simp add: hook_location_def io_catch_def io_then_def io_bind_def act_def)
      moreover have "io_only (\<lambda>a. True) (io_then (io_seq ?outs) (io_return (fst (resolve_hook_address (Some m)))))"
        by (auto intro!: io_rules)
      ultimately show ?thesis
        by (auto simp: io_then_Some io_return_def resolve_hook_address_def dest!: io_onlyD)
    qed (use Inl assms in \<open>simp_all add: hook_location_def io_catch_def io_then_def io_bind_def act_def io_raise_def\<close>)
  qed
qed

lemma monitor_start_Some:
  assumes "monitor_start w h = Some (Inr (cfg, path), h')"
  shows "path = monitor_log_path (w_environ w) (w_here w)"
    and "load_config (w_environ w ''VMI_INCLUDE_NRS'') (w_environ w ''VMI_EXCLUDE_NRS'') (w_environ w ''VMI_MAX_EVENTS'')
      = Inr cfg"
    and "py_dirname path \<noteq> []"
    and "\<exists>loc as. loc \<in> {''*_ukplat_syscall'', ''*'' @ py_hex 0x101000} \<and>
      h' = h @ as @ [Gdb_break loc, Mkdir (py_dirname path), Open_append path,
        Print (''[monitor.py] logging to '' @ path),
        Print ''[monitor.py] breakpoint armed, auto-continuing on every hit'']"
proof -
  let ?p = "monitor_log_path (w_environ w) (w_here w)"
  obtain loc h1 where start: "hook_location w h = Some (Inr loc, h1)"
    "breakpoint_init ?p loc w h1 = Some (Inr (), butlast h')" "path = ?p"
    "load_config (w_environ w ''VMI_INCLUDE_NRS'') (w_environ w ''VMI_EXCLUDE_NRS'') (w_environ w ''VMI_MAX_EVENTS'')
      = Inr cfg"
    "h' = butlast h' @ [Print ''[monitor.py] breakpoint armed, auto-continuing on every hit'']"
    using assms
    by (auto simp: monitor_start_def get_environ_def get_here_def io_lift_def io_bind_Some io_then_Some
        py_print_def act_def io_return_def)
  from start(2) have "py_dirname ?p \<noteq> []" "butlast h' = h1 @ [Gdb_break loc, Mkdir (py_dirname ?p), Open_append ?p,
      Print (''[monitor.py] logging to '' @ ?p)]"
    by (auto simp: breakpoint_init_def os_makedirs_def io_then_Some py_print_def act_def io_raise_def split: if_splits)
  moreover obtain as where "loc \<in> {''*_ukplat_syscall'', ''*'' @ py_hex 0x101000}" "h1 = h @ as"
    using hook_location_Some [OF start(1)] by blast
  ultimately have "h' = h @ as @ [Gdb_break loc, Mkdir (py_dirname path), Open_append path,
        Print (''[monitor.py] logging to '' @ path),
        Print ''[monitor.py] breakpoint armed, auto-continuing on every hit'']"
    using start(3,5) by simp
  with \<open>loc \<in> _\<close> show "\<exists>loc as. loc \<in> {''*_ukplat_syscall'', ''*'' @ py_hex 0x101000} \<and>
      h' = h @ as @ [Gdb_break loc, Mkdir (py_dirname path), Open_append path,
        Print (''[monitor.py] logging to '' @ path),
        Print ''[monitor.py] breakpoint armed, auto-continuing on every hit'']" by blast
  show "path = ?p" "load_config (w_environ w ''VMI_INCLUDE_NRS'') (w_environ w ''VMI_EXCLUDE_NRS'')
      (w_environ w ''VMI_MAX_EVENTS'') = Inr cfg" "py_dirname path \<noteq> []"
    using start(3,4) \<open>py_dirname ?p \<noteq> []\<close> by simp_all
qed

section \<open>From \<open>run_capture.py\<close> into gdb\<close>

text \<open>The options as the settings of the script.\<close>

lemma capture_env_config:
  assumes "a_include args = join '','' (map py_str_int ins)" "a_exclude args = join '','' (map py_str_int exs)"
    and "ins \<noteq> []" "exs \<noteq> []" "a_max_events args = Some n" "environ ''VMI_MAX_EVENTS'' = None"
  shows "let env = capture_env args environ in
    env ''VMI_LOG_PATH'' = Some (a_log args) \<and>
    load_config (env ''VMI_INCLUDE_NRS'') (env ''VMI_EXCLUDE_NRS'') (env ''VMI_MAX_EVENTS'') =
      Inr \<lparr>include_nrs = Some (set ins), exclude_nrs = set exs, max_events = (if n = 0 then None else Some n)\<rparr>"
proof -
  have "a_include args \<noteq> []" "a_exclude args \<noteq> []"
    using join_numbers(2) [OF assms(3)] join_numbers(2) [OF assms(4)] assms(1,2) by (auto simp: py_strip_def)
  then have "capture_env args environ ''VMI_INCLUDE_NRS'' = Some (a_include args)"
    "capture_env args environ ''VMI_EXCLUDE_NRS'' = Some (a_exclude args)"
    "capture_env args environ ''VMI_MAX_EVENTS'' = (if n = 0 then None else Some (py_str_int n))"
    "capture_env args environ ''VMI_LOG_PATH'' = Some (a_log args)"
    using assms(5,6) by (simp_all add: capture_env_def env_set_def Let_def)
  then show ?thesis
    using parse_numbers [OF assms(3)] parse_numbers [OF assms(4)] py_strip_str_int(2) [of n]
    by (simp add: load_config_def assms(1,2) py_int_str)
qed

text \<open>
  C25: the options of \<open>run_capture.py\<close> reach \<open>monitor.py\<close>. In a gdb started with the
  environment the tool makes of lists of syscall numbers given as \<open>--include\<close> and
  \<open>--exclude\<close> and a limit given as \<open>--max-events\<close>, a start of the script that
  succeeds has set a breakpoint at the symbol or the fallback address, has then made the
  directory of \<open>--log\<close> and opened that file for appending, and filters by these numbers
  and stops at this limit; a limit of 0 means none is passed.
\<close>

theorem options_reach_monitor:
  assumes "a_include args = join '','' (map py_str_int ins)" "a_exclude args = join '','' (map py_str_int exs)"
    and "ins \<noteq> []" "exs \<noteq> []" "a_max_events args = Some n" "environ ''VMI_MAX_EVENTS'' = None"
    and "w_environ w = capture_env args environ" "monitor_start w h = Some (Inr (cfg, path), h')"
  shows "path = a_log args \<and>
    cfg = \<lparr>include_nrs = Some (set ins), exclude_nrs = set exs, max_events = (if n = 0 then None else Some n)\<rparr> \<and>
    (\<exists>loc as. loc \<in> {''*_ukplat_syscall'', ''*'' @ py_hex 0x101000} \<and>
      h' = h @ as @ [Gdb_break loc, Mkdir (py_dirname (a_log args)), Open_append (a_log args),
        Print (''[monitor.py] logging to '' @ a_log args),
        Print ''[monitor.py] breakpoint armed, auto-continuing on every hit''])"
proof -
  have config: "capture_env args environ ''VMI_LOG_PATH'' = Some (a_log args)"
    "load_config (w_environ w ''VMI_INCLUDE_NRS'') (w_environ w ''VMI_EXCLUDE_NRS'') (w_environ w ''VMI_MAX_EVENTS'') =
      Inr \<lparr>include_nrs = Some (set ins), exclude_nrs = set exs, max_events = (if n = 0 then None else Some n)\<rparr>"
    using capture_env_config [where args = args and environ = environ and ins = ins and exs = exs and n = n] assms(1-7)
    by (simp_all add: Let_def)
  note started = monitor_start_Some [OF assms(8)]
  have "path = a_log args" using started(1) config assms(7) by (simp add: monitor_log_path_def)
  with started(2,4) config assms(7) show ?thesis by simp
qed

text \<open>A gdb started with the environment of such a command line, on a host where all goes well.\<close>

definition number_args :: capture_args where
  "number_args = demo_args\<lparr>a_log := ''logs/c.jsonl'', a_include := ''1,3'', a_exclude := ''2'', a_max_events := Some 5\<rparr>"

definition gdb_world :: "capture_args \<Rightarrow> world" where
  "gdb_world args = null_world\<lparr>w_environ := capture_env args (\<lambda>x. None)\<rparr>"

lemma gdb_world_simps [simp]:
  "w_unit (gdb_world args) h = Inr ()" "w_environ (gdb_world args) = capture_env args (\<lambda>x. None)"
  by (simp_all add: gdb_world_def null_world_def)

lemma number_texts: "a_include number_args = join '','' (map py_str_int [1, 3])"
  "a_exclude number_args = join '','' (map py_str_int [2])" "a_max_events number_args = Some 5"
proof -
  have "join '','' (map py_str_int [1, 3]) = ''1,3''" "join '','' (map py_str_int [2]) = ''2''" by code_simp+
  then show "a_include number_args = join '','' (map py_str_int [1, 3])"
    "a_exclude number_args = join '','' (map py_str_int [2])" "a_max_events number_args = Some 5"
    by (simp_all add: number_args_def)
qed

lemma number_start:
  "\<exists>cfg path h'. monitor_start (gdb_world number_args) [] = Some (Inr (cfg, path), h')"
proof -
  have "py_dirname ''logs/c.jsonl'' = ''logs''" by code_simp
  then show ?thesis
    using capture_env_config [OF number_texts(1,2) _ _ number_texts(3), of "\<lambda>x. None"]
    by (auto simp: monitor_start_def get_environ_def get_here_def io_lift_def io_bind_def io_then_def hook_location_def
        io_catch_def act_def io_return_def resolve_hook_address_def breakpoint_init_def os_makedirs_def py_print_def
        monitor_log_path_def Let_def number_args_def)
qed

theorem options_reach_monitor_witness:
  "\<exists>h'. monitor_start (gdb_world number_args) [] =
     Some (Inr (\<lparr>include_nrs = Some {1, 3}, exclude_nrs = {2}, max_events = Some 5\<rparr>, ''logs/c.jsonl''), h')"
proof -
  obtain cfg path h' where run: "monitor_start (gdb_world number_args) [] = Some (Inr (cfg, path), h')"
    using number_start by blast
  from options_reach_monitor [OF number_texts(1,2) _ _ number_texts(3) _ gdb_world_simps(2) run] run show ?thesis
    by (simp add: number_args_def)
qed

text \<open>
  A log without a directory. If \<open>--log\<close> names a file without a directory part, as in
  \<open>--log capture.jsonl\<close>, the script sets the breakpoint and then raises
  \<open>FileNotFoundError\<close>, because it asks for the empty directory; the log is never opened.
\<close>

lemma bare_log_name:
  assumes "CHR ''/'' \<notin> set (a_log args)" "w_environ w = capture_env args environ"
    and "load_config (w_environ w ''VMI_INCLUDE_NRS'') (w_environ w ''VMI_EXCLUDE_NRS'') (w_environ w ''VMI_MAX_EVENTS'')
      = Inr cfg"
    and "w_unit w (h @ [Gdb_decode ''*_ukplat_syscall'']) = Inr ()"
    and "w_unit w (h @ [Gdb_decode ''*_ukplat_syscall'', Gdb_break ''*_ukplat_syscall'']) = Inr ()"
  shows "monitor_start w h = Some (Inl FileNotFoundError,
    h @ [Gdb_decode ''*_ukplat_syscall'', Gdb_break ''*_ukplat_syscall''])"
proof -
  have "capture_env args environ ''VMI_LOG_PATH'' = Some (a_log args)"
    by (simp add: capture_env_def env_set_def Let_def split: option.split)
  then have p: "monitor_log_path (w_environ w) (w_here w) = a_log args" by (simp add: monitor_log_path_def assms(2))
  have "\<forall>c \<in> set (rev (a_log args)). c \<noteq> CHR ''/''" using assms(1) by auto
  then have head: "dropWhile (\<lambda>c. c \<noteq> CHR ''/'') (rev (a_log args)) = []" by (simp only: dropWhile_eq_Nil_conv)
  have "py_dirname (a_log args) = []" unfolding py_dirname_def Let_def head by simp
  with assms(3-5) p show ?thesis
    by (simp add: monitor_start_def get_environ_def get_here_def io_lift_def io_bind_def io_then_def hook_location_def
        io_catch_def act_def io_return_def resolve_hook_address_def breakpoint_init_def os_makedirs_def io_raise_def)
qed

lemma bare_log_name_example:
  "\<exists>h'. monitor_start (gdb_world demo_args) [] = Some (Inl FileNotFoundError, h')"
proof -
  have "\<exists>cfg. load_config (w_environ (gdb_world demo_args) ''VMI_INCLUDE_NRS'')
      (w_environ (gdb_world demo_args) ''VMI_EXCLUDE_NRS'') (w_environ (gdb_world demo_args) ''VMI_MAX_EVENTS'') = Inr cfg"
    by (simp add: load_config_def parse_nr_set_def capture_env_def env_set_def demo_args_def py_strip_def)
  then obtain cfg where "load_config (w_environ (gdb_world demo_args) ''VMI_INCLUDE_NRS'')
      (w_environ (gdb_world demo_args) ''VMI_EXCLUDE_NRS'') (w_environ (gdb_world demo_args) ''VMI_MAX_EVENTS'') = Inr cfg"
    by blast
  from bare_log_name [OF _ gdb_world_simps(2) this] show ?thesis by (simp add: demo_args_def)
qed

end
