(* ===== verification/Gdb_Relay.thy ===== *)
theory Gdb_Relay
  imports Gdb_Session "HOL-Library.Sublist"
begin

text \<open>
  The thread \<open>_stream_to_stdout\<close> of \<open>gdb_session.py\<close>, which relays what gdb prints
  to the terminal and keeps it for \<open>drain_gdb_output\<close>. gdb, the thread and the main
  program run concurrently; every atomic action of the loop is a step, so the main program
  may look at the buffer between any two of them.
\<close>

section \<open>The thread\<close>

text \<open>Where the thread is: at \<open>readline\<close>, at \<open>append\<close>, at \<open>write\<close>, at \<open>flush\<close>, or over.\<close>

datatype relay_pc = Relay_read | Relay_append string | Relay_write string | Relay_flush | Relay_ended | Relay_died

text \<open>
  The pipe holds what gdb has written and the thread has not read; \<open>r_written\<close> is all
  that gdb has written so far, \<open>r_shown\<close> what has gone to the terminal.
\<close>

record relay =
  r_pipe :: string
  r_open :: bool
  r_written :: string
  r_pc :: relay_pc
  captured_lines :: "string list"
  r_shown :: "string list"

definition relay_start :: relay where
  "relay_start = \<lparr>r_pipe = [], r_open = True, r_written = [], r_pc = Relay_read, captured_lines = [], r_shown = []\<rparr>"

text \<open>
  \<open>proc.stdout.readline()\<close>: blocks (\<open>None\<close>) while the pipe is open and has no
  complete line; at the end of the file it yields what is left.
\<close>

definition pipe_readline :: "bool \<Rightarrow> string \<Rightarrow> (string \<times> string) option" where
  "pipe_readline is_open s =
     (if CHR 0x0A \<in> set s
      then (let l = takeWhile (\<lambda>c. c \<noteq> CHR 0x0A) s in Some (l @ [CHR 0x0A], drop (Suc (length l)) s))
      else if is_open then None else Some (s, []))"

text \<open>
  One action of the thread, \<open>None\<close> when it cannot move; \<open>ok\<close> says whether the
  terminal takes the text. An exception of \<open>write\<close> or \<open>flush\<close> ends the thread.
\<close>

definition relay_turn :: "bool \<Rightarrow> relay \<Rightarrow> relay option" where
  "relay_turn ok s =
     (case r_pc s of
        Relay_read \<Rightarrow>
          (case pipe_readline (r_open s) (r_pipe s) of
             None \<Rightarrow> None
           | Some (line, rest) \<Rightarrow>
               Some (s\<lparr>r_pipe := rest, r_pc := (if line = [] then Relay_ended else Relay_append line)\<rparr>))
      | Relay_append line \<Rightarrow> Some (s\<lparr>captured_lines := captured_lines s @ [line], r_pc := Relay_write line\<rparr>)
      | Relay_write line \<Rightarrow>
          Some (if ok then s\<lparr>r_shown := r_shown s @ [line], r_pc := Relay_flush\<rparr> else s\<lparr>r_pc := Relay_died\<rparr>)
      | Relay_flush \<Rightarrow> Some (s\<lparr>r_pc := (if ok then Relay_read else Relay_died)\<rparr>)
      | Relay_ended \<Rightarrow> None
      | Relay_died \<Rightarrow> None)"

text \<open>\<open>"".join(proc._captured_lines)\<close>, whatever the thread is doing when the join times out.\<close>

definition drained :: "relay \<Rightarrow> string" where
  "drained s = concat (captured_lines s)"

text \<open>gdb writes and closes its standard output; the thread moves when it can.\<close>

inductive relay_step :: "relay \<Rightarrow> relay \<Rightarrow> bool" where
  gdb_writes: "r_open s \<Longrightarrow> relay_step s (s\<lparr>r_pipe := r_pipe s @ t, r_written := r_written s @ t\<rparr>)"
| gdb_closes: "relay_step s (s\<lparr>r_open := False\<rparr>)"
| relay_moves: "relay_turn ok s = Some s' \<Longrightarrow> relay_step s s'"

inductive_cases relay_step_cases: "relay_step s s'"

inductive relay_reach :: "relay \<Rightarrow> bool" where
  relay_init: "relay_reach relay_start"
| relay_next: "relay_reach s \<Longrightarrow> relay_step s s' \<Longrightarrow> relay_reach s'"

section \<open>Invariant\<close>

text \<open>What the thread holds between \<open>readline\<close> and \<open>append\<close>, and between \<open>append\<close> and \<open>write\<close>.\<close>

definition in_hand :: "relay_pc \<Rightarrow> string" where
  "in_hand pc = (case pc of Relay_append line \<Rightarrow> line | _ \<Rightarrow> [])"

definition to_show :: "relay_pc \<Rightarrow> string list" where
  "to_show pc = (case pc of Relay_write line \<Rightarrow> [line] | _ \<Rightarrow> [])"

definition relay_inv :: "relay \<Rightarrow> bool" where
  "relay_inv s \<longleftrightarrow>
     r_written s = drained s @ in_hand (r_pc s) @ r_pipe s \<and>
     (r_pc s = Relay_died \<and> (\<exists>ls. length ls \<le> 1 \<and> captured_lines s = r_shown s @ ls) \<or>
      captured_lines s = r_shown s @ to_show (r_pc s)) \<and>
     (r_pc s = Relay_ended \<longrightarrow> \<not> r_open s \<and> r_pipe s = [])"

lemma pipe_readline_Some:
  "pipe_readline is_open s = Some (line, rest) \<Longrightarrow>
   s = line @ rest \<and> (line = [] \<longrightarrow> \<not> is_open \<and> rest = [])"
proof -
  assume a: "pipe_readline is_open s = Some (line, rest)"
  show ?thesis
  proof (cases "CHR 0x0A \<in> set s")
    case True
    then obtain l r where "s = l @ CHR 0x0A # r" "CHR 0x0A \<notin> set l" by (meson split_list_first)
    moreover from this have "takeWhile (\<lambda>c. c \<noteq> CHR 0x0A) s = l"
      by (simp add: takeWhile_append takeWhile_eq_all_conv)
    ultimately show ?thesis using a by (auto simp: pipe_readline_def Let_def)
  next
    case False
    with a show ?thesis by (auto simp: pipe_readline_def split: if_splits)
  qed
qed

lemma relay_turn_inv: "relay_inv s \<Longrightarrow> relay_turn ok s = Some s' \<Longrightarrow> relay_inv s'"
  by (auto simp: relay_turn_def relay_inv_def drained_def in_hand_def to_show_def dest!: pipe_readline_Some
      split: relay_pc.splits option.splits prod.splits if_splits)

lemma relay_step_inv: "relay_step s s' \<Longrightarrow> relay_inv s \<Longrightarrow> relay_inv s'"
proof (induction rule: relay_step.induct)
  case (relay_moves ok s s')
  then show ?case by (rule relay_turn_inv [rotated])
qed (auto simp: relay_inv_def drained_def)

lemma relay_reach_inv: "relay_reach s \<Longrightarrow> relay_inv s"
proof (induction rule: relay_reach.induct)
  case relay_init
  show ?case by (simp add: relay_inv_def relay_start_def drained_def in_hand_def to_show_def)
qed (rule relay_step_inv [rotated])

section \<open>The end of the thread\<close>

text \<open>The thread alone, on a terminal that takes everything.\<close>

fun relay_turns :: "nat \<Rightarrow> relay \<Rightarrow> relay" where
  "relay_turns 0 s = s"
| "relay_turns (Suc n) s = (case relay_turn True s of None \<Rightarrow> s | Some s' \<Rightarrow> relay_turns n s')"

definition relay_work :: "relay \<Rightarrow> nat" where
  "relay_work s = 4 * length (r_pipe s) +
     (case r_pc s of Relay_read \<Rightarrow> 1 | Relay_append line \<Rightarrow> 4 | Relay_write line \<Rightarrow> 3 | Relay_flush \<Rightarrow> 2
      | Relay_ended \<Rightarrow> 0 | Relay_died \<Rightarrow> 0)"

lemma relay_turn_progress:
  assumes "\<not> r_open s" "r_pc s \<noteq> Relay_died" "r_pc s \<noteq> Relay_ended"
  obtains s' where "relay_turn True s = Some s'" "relay_work s' < relay_work s" "\<not> r_open s'"
    "r_pc s' \<noteq> Relay_died" "r_written s' = r_written s"
proof (cases "r_pc s")
  case Relay_read
  have "pipe_readline False (r_pipe s) \<noteq> None" by (simp add: pipe_readline_def Let_def)
  then obtain line rest where l: "pipe_readline (r_open s) (r_pipe s) = Some (line, rest)" using assms(1) by auto
  then have "length (r_pipe s) = length line + length rest" using pipe_readline_Some [OF l] by simp
  with Relay_read l assms(1) that show ?thesis by (cases line) (auto simp: relay_turn_def relay_work_def)
qed (use assms that in \<open>auto simp: relay_turn_def relay_work_def\<close>)

lemma relay_turns_end:
  "\<not> r_open s \<Longrightarrow> r_pc s \<noteq> Relay_died \<Longrightarrow> relay_work s \<le> n \<Longrightarrow>
   r_pc (relay_turns n s) = Relay_ended \<and> r_written (relay_turns n s) = r_written s"
proof (induction n arbitrary: s)
  case 0
  then show ?case by (auto simp: relay_work_def split: relay_pc.splits)
next
  case (Suc n)
  show ?case
  proof (cases "r_pc s = Relay_ended")
    case True
    then show ?thesis by (simp add: relay_turn_def)
  next
    case False
    obtain s' where "relay_turn True s = Some s'" "relay_work s' < relay_work s" "\<not> r_open s'"
      "r_pc s' \<noteq> Relay_died" "r_written s' = r_written s"
      using relay_turn_progress [OF Suc.prems(1,2) False] .
    with Suc.IH [of s'] Suc.prems(3) show ?thesis by simp
  qed
qed

lemma relay_turns_inv: "relay_inv s \<Longrightarrow> relay_inv (relay_turns n s)"
  by (induction n s rule: relay_turns.induct) (auto split: option.split dest: relay_turn_inv)

text \<open>A thread that died never moves again: what gdb prints later is in no buffer.\<close>

lemma relay_dead:
  assumes "relay_step s s'" "r_pc s = Relay_died"
  shows "r_pc s' = Relay_died \<and> drained s' = drained s"
  using assms by (cases rule: relay_step_cases) (auto simp: drained_def relay_turn_def)

section \<open>Properties\<close>

text \<open>
  C26: the relay is faithful. Whenever the main program looks, what \<open>drain_gdb_output\<close>
  returns is a beginning of what gdb has printed, and the lines on the terminal are the
  captured ones, in order, with at most the last one missing; once the thread has seen the
  end of the file, everything gdb printed has been captured and shown.
\<close>

theorem relay_faithful:
  assumes "relay_reach s"
  shows "prefix (drained s) (r_written s) \<and> prefix (r_shown s) (captured_lines s) \<and>
    length (captured_lines s) \<le> Suc (length (r_shown s)) \<and>
    (r_pc s = Relay_ended \<longrightarrow> drained s = r_written s \<and> r_shown s = captured_lines s)"
  using relay_reach_inv [OF assms]
  by (auto simp: relay_inv_def in_hand_def to_show_def prefix_def split: relay_pc.splits)

definition relay_sample :: relay where
  "relay_sample = \<lparr>r_pipe = ''b'', r_open = False, r_written = [CHR ''a'', CHR 0x0A, CHR ''b''],
     r_pc = Relay_append [CHR ''a'', CHR 0x0A], captured_lines = [], r_shown = []\<rparr>"

lemma relay_sample_reach: "relay_reach relay_sample"
proof -
  let ?t = "[CHR ''a'', CHR 0x0A, CHR ''b'']"
  have "relay_reach (relay_start\<lparr>r_pipe := ?t, r_written := ?t\<rparr>)"
    using relay_next [OF relay_init gdb_writes [of relay_start ?t]] by (simp add: relay_start_def)
  then have "relay_reach (relay_start\<lparr>r_pipe := ?t, r_written := ?t, r_open := False\<rparr>)"
    using relay_next [OF _ gdb_closes] by fastforce
  moreover have "relay_turn True (relay_start\<lparr>r_pipe := ?t, r_written := ?t, r_open := False\<rparr>) = Some relay_sample"
    by (simp add: relay_turn_def relay_start_def pipe_readline_def relay_sample_def Let_def)
  ultimately show ?thesis using relay_next relay_moves by blast
qed

theorem relay_faithful_witness: "prefix (drained relay_sample) [CHR ''a'', CHR 0x0A, CHR ''b'']"
  using relay_faithful [OF relay_sample_reach] by (simp add: relay_sample_def)

text \<open>
  C27: the relay ends. Once gdb has closed its output, whatever is left in the pipe and
  wherever the thread stands, at most four of its actions per character and five more bring
  it to its end on a terminal that takes the text, and \<open>drain_gdb_output\<close> then returns
  all that gdb printed, a last line without a newline included.
\<close>

theorem relay_finishes:
  assumes "relay_reach s" "\<not> r_open s" "r_pc s \<noteq> Relay_died"
  shows "r_pc (relay_turns (4 * length (r_pipe s) + 5) s) = Relay_ended \<and>
    drained (relay_turns (4 * length (r_pipe s) + 5) s) = r_written s"
proof -
  let ?t = "relay_turns (4 * length (r_pipe s) + 5) s"
  have "relay_work s \<le> 4 * length (r_pipe s) + 5" by (simp add: relay_work_def split: relay_pc.split)
  from relay_turns_end [OF assms(2,3) this] have fin: "r_pc ?t = Relay_ended" "r_written ?t = r_written s" by simp_all
  have "relay_inv ?t" by (rule relay_turns_inv [OF relay_reach_inv [OF assms(1)]])
  with fin show ?thesis by (simp add: relay_inv_def in_hand_def)
qed

theorem relay_finishes_witness: "drained (relay_turns 9 relay_sample) = [CHR ''a'', CHR 0x0A, CHR ''b'']"
  using relay_finishes [OF relay_sample_reach] by (simp add: relay_sample_def)

end
