(* ===== verification/Arg_Parse.thy ===== *)
theory Arg_Parse
  imports Py_IO Py_Value
begin

text \<open>
  What the tools use of \<open>argparse\<close> (as of Python 3.11.10; older ones lose the value of
  \<open>--name=--\<close> and take \<open>-hx\<close> for an error):
  long options that store a text, an \<open>int\<close> or a \<open>float\<close> or set a flag, \<open>-h\<close> and
  \<open>--help\<close>, and at most one positional argument. A parser is the list of its option
  strings in the order of the \<open>add_argument\<close> calls, after the two for help.
\<close>

section \<open>Parsers and words\<close>

datatype arg_kind = Help_option | Flag_option | Text_option | Int_option | Float_option

type_synonym arg_spec = "(string \<times> arg_kind) list"

definition help_options :: arg_spec where
  "help_options = [(''-h'', Help_option), (''--help'', Help_option)]"

datatype arg_value = Is_set | Text_value string | Int_value int | Float_value rat

text \<open>
  How a word of the command line is classified: a plain argument, an option with the text
  after \<open>=\<close>, \<open>-h\<close> with text glued to it, an option that is not known, the word \<open>--\<close>.
\<close>

datatype arg_word = Plain string | Option string arg_kind "string option" | Help_cluster string | Unknown | Dashes

definition before_eq :: "string \<Rightarrow> string" where
  "before_eq s = takeWhile (\<lambda>c. c \<noteq> CHR ''='') s"

definition after_eq :: "string \<Rightarrow> string option" where
  "after_eq s = (if CHR ''='' \<in> set s then Some (tl (dropWhile (\<lambda>c. c \<noteq> CHR ''='') s)) else None)"

text \<open>\<open>_get_option_tuples\<close>: the options a word may abbreviate.\<close>

definition abbreviated :: "arg_spec \<Rightarrow> string \<Rightarrow> (string \<times> arg_kind \<times> string option) list" where
  "abbreviated specs w =
     (if starts_with w ''--''
      then map (\<lambda>(n, k). (n, k, after_eq w)) (filter (\<lambda>(n, k). starts_with n (before_eq w)) specs)
      else map (\<lambda>(n, k). if n = take 2 w then (n, k, Some (drop 2 w)) else (n, k, None))
             (filter (\<lambda>(n, k). n = take 2 w \<or> starts_with n w) specs))"

text \<open>\<open>^-\d+$|^-\d*\.\d+$\<close>, where \<open>$\<close> also stands before a newline at the end.\<close>

definition negative_number :: "string \<Rightarrow> bool" where
  "negative_number w =
     (let t = tl w;
          t = (if t \<noteq> [] \<and> last t = CHR 0x0A then butlast t else t);
          digits = (\<lambda>s. s \<noteq> [] \<and> list_all is_digit s);
          frac = dropWhile is_digit t
      in w \<noteq> [] \<and> hd w = CHR ''-'' \<and> (digits t \<or> frac \<noteq> [] \<and> hd frac = CHR ''.'' \<and> digits (tl frac)))"

text \<open>\<open>_parse_optional\<close>; \<open>None\<close> is the error that an option is ambiguous.\<close>

definition arg_word_of :: "arg_spec \<Rightarrow> string \<Rightarrow> arg_word option" where
  "arg_word_of specs w =
     (if w = [] \<or> hd w \<noteq> CHR ''-'' then Some (Plain w)
      else case map_of specs w of
        Some k \<Rightarrow> Some (Option w k None)
      | None \<Rightarrow>
          if length w = 1 then Some (Plain w)
          else case (after_eq w, map_of specs (before_eq w)) of
            (Some v, Some k) \<Rightarrow> Some (Option (before_eq w) k (Some v))
          | _ \<Rightarrow>
              (case abbreviated specs w of
                 [(n, k, v)] \<Rightarrow>
                   Some (if starts_with w ''--'' then Option n k v
                     else case v of None \<Rightarrow> Option n k None | Some t \<Rightarrow> Help_cluster t)
               | [] \<Rightarrow> Some (if negative_number w \<or> CHR '' '' \<in> set w then Plain w else Unknown)
               | _ \<Rightarrow> None))"

text \<open>After \<open>--\<close> every word is a plain argument.\<close>

fun arg_words :: "arg_spec \<Rightarrow> string list \<Rightarrow> arg_word list option" where
  "arg_words specs [] = Some []"
| "arg_words specs (w # ws) =
     (if w = ''--'' then Some (Dashes # map Plain ws)
      else case (arg_word_of specs w, arg_words specs ws) of
        (Some x, Some xs) \<Rightarrow> Some (x # xs)
      | _ \<Rightarrow> None)"

section \<open>Parsing\<close>

text \<open>
  The end of \<open>parse_args\<close>: the values stored, the last one first, and the positional
  argument; or \<open>SystemExit(2)\<close> after a usage error; or \<open>SystemExit(0)\<close> after the help.
\<close>

datatype parse_end = Parsed "(string \<times> arg_value) list" "string option" | Usage_error | Help_shown

definition arg_convert :: "(string \<Rightarrow> rat result) \<Rightarrow> arg_kind \<Rightarrow> string \<Rightarrow> arg_value option" where
  "arg_convert read_float k v =
     (case k of
        Text_option \<Rightarrow> Some (Text_value v)
      | Int_option \<Rightarrow> (case py_int 10 v of Inr i \<Rightarrow> Some (Int_value i) | Inl _ \<Rightarrow> None)
      | Float_option \<Rightarrow> (case read_float v of Inr x \<Rightarrow> Some (Float_value x) | Inl _ \<Rightarrow> None)
      | _ \<Rightarrow> None)"

text \<open>
  The loop of \<open>_parse_known_args\<close>. The state: whether a positional argument is still
  wanted, the one found, whether a word was left over, and what has been stored. A plain
  argument is taken for an option's value if it directly follows the option.
\<close>

record parse_state =
  ps_wanted :: bool
  ps_positional :: "string option"
  ps_extra :: bool
  ps_values :: "(string \<times> arg_value) list"

definition store :: "string \<Rightarrow> arg_value \<Rightarrow> parse_state \<Rightarrow> parse_state" where
  "store n v s = s\<lparr>ps_values := (n, v) # ps_values s\<rparr>"

definition left_over :: "parse_state \<Rightarrow> parse_state" where
  "left_over s = s\<lparr>ps_extra := True\<rparr>"

definition take_positional :: "string \<Rightarrow> parse_state \<Rightarrow> parse_state" where
  "take_positional v s = s\<lparr>ps_wanted := False, ps_positional := Some v\<rparr>"

text \<open>
  Letters glued to \<open>-h\<close> are taken for further options, of which only \<open>h\<close> is known; the
  help is shown at the end unless a dash or \<open>=\<close> comes first.
\<close>

fun help_cluster :: "string \<Rightarrow> bool" where
  "help_cluster [] = True"
| "help_cluster (c # cs) =
     (c \<noteq> CHR ''-'' \<and> (c = CHR ''h'' \<longrightarrow> take 1 cs \<noteq> ''='' \<and> help_cluster cs))"

fun parse_words :: "(string \<Rightarrow> rat result) \<Rightarrow> arg_word list \<Rightarrow> parse_state \<Rightarrow> parse_end" where
  "parse_words F [] s =
     (if ps_wanted s \<or> ps_extra s then Usage_error else Parsed (ps_values s) (ps_positional s))"
| "parse_words F (Plain v # Dashes # ws) s =
     (if ps_wanted s then parse_words F ws (take_positional v s)
      else parse_words F (Dashes # ws) (left_over s))"
| "parse_words F (Plain v # ws) s =
     parse_words F ws (if ps_wanted s then take_positional v s else left_over s)"
| "parse_words F (Dashes # Plain v # ws) s =
     (if ps_wanted s then parse_words F ws (take_positional v s)
      else parse_words F (Plain v # ws) (left_over s))"
| "parse_words F (Dashes # ws) s = parse_words F ws (left_over s)"
| "parse_words F (Unknown # ws) s = parse_words F ws (left_over s)"
| "parse_words F (Option n Help_option v # ws) s =
     (case v of None \<Rightarrow> Help_shown | Some t \<Rightarrow> Usage_error)"
| "parse_words F (Help_cluster t # ws) s = (if help_cluster t then Help_shown else Usage_error)"
| "parse_words F (Option n Flag_option None # ws) s = parse_words F ws (store n Is_set s)"
| "parse_words F (Option n Flag_option (Some t) # ws) s = Usage_error"
| "parse_words F (Option n k (Some t) # ws) s =
     (case arg_convert F k t of Some v \<Rightarrow> parse_words F ws (store n v s) | None \<Rightarrow> Usage_error)"
| "parse_words F (Option n k None # Plain t # ws) s =
     (case arg_convert F k t of Some v \<Rightarrow> parse_words F ws (store n v s) | None \<Rightarrow> Usage_error)"
| "parse_words F (Option n k None # ws) s = Usage_error"

definition parse_args :: "(string \<Rightarrow> rat result) \<Rightarrow> bool \<Rightarrow> arg_spec \<Rightarrow> string list \<Rightarrow> parse_end" where
  "parse_args F positional specs argv =
     (case arg_words (help_options @ specs) argv of
        None \<Rightarrow> Usage_error
      | Some ws \<Rightarrow> parse_words F ws
          \<lparr>ps_wanted = positional, ps_positional = None, ps_extra = False, ps_values = []\<rparr>)"

text \<open>The values stored: an option given twice has its last value.\<close>

definition text_value :: "(string \<times> arg_value) list \<Rightarrow> string \<Rightarrow> string option" where
  "text_value vs n = (case map_of vs n of Some (Text_value t) \<Rightarrow> Some t | _ \<Rightarrow> None)"

definition int_value :: "(string \<times> arg_value) list \<Rightarrow> string \<Rightarrow> int option" where
  "int_value vs n = (case map_of vs n of Some (Int_value i) \<Rightarrow> Some i | _ \<Rightarrow> None)"

definition float_value :: "(string \<times> arg_value) list \<Rightarrow> string \<Rightarrow> rat option" where
  "float_value vs n = (case map_of vs n of Some (Float_value x) \<Rightarrow> Some x | _ \<Rightarrow> None)"

definition is_set :: "(string \<times> arg_value) list \<Rightarrow> string \<Rightarrow> bool" where
  "is_set vs n = (map_of vs n = Some Is_set)"

definition or_default :: "'a option \<Rightarrow> 'a \<Rightarrow> 'a" where
  "or_default v d = (case v of Some x \<Rightarrow> x | None \<Rightarrow> d)"

text \<open>
  What a program does with the outcome: after a usage error and after the help it ends with
  2 and 0. The texts, which \<open>argparse\<close> lays out, are arguments.
\<close>

definition with_arguments ::
    "string \<Rightarrow> string \<Rightarrow> parse_end \<Rightarrow> ((string \<times> arg_value) list \<Rightarrow> string option \<Rightarrow> nat io) \<Rightarrow> nat io" where
  "with_arguments usage help p k =
     (case p of
        Parsed vs pos \<Rightarrow> k vs pos
      | Usage_error \<Rightarrow> io_then (py_print_err usage) (io_return 2)
      | Help_shown \<Rightarrow> io_then (py_print help) (io_return 0))"

section \<open>Command lines written with \<open>=\<close>\<close>

datatype setting = Assign string string | Switch string

fun setting_word :: "setting \<Rightarrow> string" where
  "setting_word (Assign n v) = n @ ''='' @ v"
| "setting_word (Switch n) = n"

fun setting_name :: "setting \<Rightarrow> string" where
  "setting_name (Assign n v) = n"
| "setting_name (Switch n) = n"

text \<open>What a setting stores, if the parser takes it.\<close>

fun setting_value :: "(string \<Rightarrow> rat result) \<Rightarrow> arg_spec \<Rightarrow> setting \<Rightarrow> arg_value option" where
  "setting_value F specs (Assign n v) =
     (case map_of specs n of
        None \<Rightarrow> None
      | Some k \<Rightarrow> if k = Help_option \<or> k = Flag_option then None else arg_convert F k v)"
| "setting_value F specs (Switch n) = (if map_of specs n = Some Flag_option then Some Is_set else None)"

text \<open>Long options without \<open>=\<close> in their names, and none twice.\<close>

definition specs_ok :: "arg_spec \<Rightarrow> bool" where
  "specs_ok specs \<longleftrightarrow>
     list_all (\<lambda>(n, k). starts_with n ''--'' \<and> 2 < length n \<and> CHR ''='' \<notin> set n \<and> n \<noteq> ''--help'') specs \<and>
     distinct (map fst specs)"

lemma specs_ok_name:
  assumes "specs_ok specs" "map_of specs n = Some k"
  obtains m where "n = CHR ''-'' # CHR ''-'' # m" "m \<noteq> []" "CHR ''='' \<notin> set n"
    "map_of (help_options @ specs) n = Some k"
proof -
  from assms have n: "starts_with n ''--''" "2 < length n" "CHR ''='' \<notin> set n" "n \<noteq> ''--help''"
    by (auto simp: specs_ok_def list_all_iff dest!: map_of_SomeD)
  then obtain m where m: "n = CHR ''-'' # CHR ''-'' # m" "m \<noteq> []"
    by (cases n; cases "tl n") (auto simp: starts_with_def)
  moreover have "map_of (help_options @ specs) n = Some k"
    using assms(2) n(4) m(1) by (auto simp: help_options_def)
  ultimately show thesis using that n(3) by blast
qed

lemma no_eq_name: "specs_ok specs \<Longrightarrow> CHR ''='' \<in> set w \<Longrightarrow> map_of (help_options @ specs) w = None"
  by (auto simp: specs_ok_def list_all_iff help_options_def map_of_eq_None_iff map_add_None)

lemma eq_split:
  assumes "CHR ''='' \<notin> set n"
  shows "before_eq (n @ CHR ''='' # v) = n" "after_eq (n @ CHR ''='' # v) = Some v"
  using assms by (simp_all add: before_eq_def after_eq_def takeWhile_append takeWhile_eq_all_conv dropWhile_append)

lemma setting_word_of:
  assumes "specs_ok specs" "setting_value F specs x = Some v"
  shows "\<exists>k t. arg_word_of (help_options @ specs) (setting_word x) = Some (Option (setting_name x) k t) \<and>
    setting_word x \<noteq> ''--'' \<and>
    parse_words F (Option (setting_name x) k t # ws) s = parse_words F ws (store (setting_name x) v s)"
proof (cases x)
  case (Assign n t)
  with assms(2) obtain k where k: "map_of specs n = Some k" "k \<noteq> Help_option" "k \<noteq> Flag_option"
    "arg_convert F k t = Some v"
    by (auto split: option.splits if_splits)
  obtain m where m: "n = CHR ''-'' # CHR ''-'' # m" "m \<noteq> []" "CHR ''='' \<notin> set n"
    "map_of (help_options @ specs) n = Some k"
    using specs_ok_name [OF assms(1) k(1)] .
  have none: "map_of (help_options @ specs) (n @ CHR ''='' # t) = None" using no_eq_name [OF assms(1)] by simp
  have "arg_word_of (help_options @ specs) (n @ CHR ''='' # t) = Some (Option n k (Some t))"
    unfolding arg_word_of_def none eq_split [OF m(3)] m(4) using m(1) by simp
  moreover have "parse_words F (Option n k (Some t) # ws) s = parse_words F ws (store n v s)"
    using k by (cases k) simp_all
  ultimately show ?thesis using Assign m(1) by auto
next
  case (Switch n)
  with assms(2) have k: "map_of specs n = Some Flag_option" "v = Is_set" by (auto split: if_splits)
  obtain m where m: "n = CHR ''-'' # CHR ''-'' # m" "m \<noteq> []" "CHR ''='' \<notin> set n"
    "map_of (help_options @ specs) n = Some Flag_option"
    using specs_ok_name [OF assms(1) k(1)] .
  then have "arg_word_of (help_options @ specs) n = Some (Option n Flag_option None)"
    unfolding arg_word_of_def by simp
  then show ?thesis using Switch k(2) m(1,2) by (intro exI [of _ Flag_option] exI [of _ None]) simp
qed

text \<open>Settings the parser takes are stored one by one.\<close>

lemma parse_settings_words:
  assumes "specs_ok specs" "list_all (\<lambda>x. setting_value F specs x \<noteq> None) xs"
  shows "\<exists>ws. arg_words (help_options @ specs) (map setting_word xs) = Some ws \<and>
    (\<forall>s. parse_words F ws s =
      parse_words F [] (s\<lparr>ps_values := rev (map (\<lambda>x. (setting_name x, the (setting_value F specs x))) xs) @ ps_values s\<rparr>))"
  using assms(2)
proof (induction xs)
  case (Cons x xs)
  then obtain v where v: "setting_value F specs x = Some v" by auto
  from Cons obtain ws where ws: "arg_words (help_options @ specs) (map setting_word xs) = Some ws"
    "\<And>s. parse_words F ws s =
      parse_words F [] (s\<lparr>ps_values := rev (map (\<lambda>x. (setting_name x, the (setting_value F specs x))) xs) @ ps_values s\<rparr>)"
    by auto
  obtain k t where kt: "arg_word_of (help_options @ specs) (setting_word x) = Some (Option (setting_name x) k t)"
    "setting_word x \<noteq> ''--''"
    "\<And>ws s. parse_words F (Option (setting_name x) k t # ws) s = parse_words F ws (store (setting_name x) v s)"
    using setting_word_of [OF assms(1) v] by (metis arg_word.inject(2) option.inject)
  have "parse_words F (Option (setting_name x) k t # ws) s =
      parse_words F [] (s\<lparr>ps_values := rev (map (\<lambda>x. (setting_name x, the (setting_value F specs x))) (x # xs)) @ ps_values s\<rparr>)" for s
    unfolding kt(3) ws(2) by (simp add: store_def v)
  with kt(1,2) ws(1) show ?case by (intro exI [of _ "Option (setting_name x) k t # ws"]) simp
qed simp

lemma parse_settings:
  assumes "specs_ok specs" "list_all (\<lambda>x. setting_value F specs x \<noteq> None) xs"
  shows "parse_args F False specs (map setting_word xs) =
    Parsed (rev (map (\<lambda>x. (setting_name x, the (setting_value F specs x))) xs)) None"
  using parse_settings_words [OF assms] by (auto simp: parse_args_def)

end
