(* ===== verification/Bench_Conditions.thy ===== *)
theory Bench_Conditions
  imports Bench Capture_Inline
begin

text \<open>
  The conditions and main programs of \<open>bench_overhead.py\<close> (one instance, gdb attached for
  the second half) and \<open>bench_overhead_inline.py\<close> (one instance per condition).
\<close>

record bench_args =
  b_name :: string
  b_reps :: int
  b_requests :: int
  b_concurrency :: int
  b_out :: string

definition bench_defaults :: "string \<Rightarrow> bench_args" where
  "bench_defaults here =
     \<lparr>b_name = ''vmibench'', b_reps = 5, b_requests = 500, b_concurrency = 5,
      b_out = here @ ''/logs/bench_overhead_result.json''\<rparr>"

section \<open>One instance, with and without gdb\<close>

definition bench_reps :: "py_host \<Rightarrow> bench_args \<Rightarrow> string \<Rightarrow> (string \<times> rat) list list io" where
  "bench_reps P args label =
     io_then (py_print (''[bench] '' @ label @ '': '' @ py_str_int (b_reps args) @ '' reps of ab -n '' @
       py_str_int (b_requests args) @ '' -c '' @ py_str_int (b_concurrency args)))
     (run_ab_reps P (b_requests args) (b_concurrency args) (b_reps args) label)"

text \<open>Attaching, measuring, and the \<open>finally\<close> clause that stops gdb.\<close>

definition monitored_reps :: "py_host \<Rightarrow> bench_args \<Rightarrow> (string \<times> rat) list list io" where
  "monitored_reps P args =
     io_then (py_print ''[bench] attaching gdbstub + monitor.py for the monitored condition'')
     (io_bind (find_instance_runtime_dir P (b_name args)) (\<lambda>runtime_dir.
     io_bind (find_free_port 1234) (\<lambda>port.
     io_bind (attach_gdbserver P (path_join runtime_dir ''mon.sock'') (int port)) (\<lambda>_.
     io_bind get_environ (\<lambda>environ.
     io_bind get_here (\<lambda>here.
     io_bind (launch_gdb_capture port (env_set ''VMI_LOG_PATH'' (here @ ''/logs/bench_monitor_capture.jsonl'') environ))
       (\<lambda>gdb_proc.
       io_then (act (Sleep 1))
       (io_finally (bench_reps P args ''monitored'')
         (io_then (py_print ''[bench] detaching gdbstub'')
           (io_bind (stop_gdb_capture gdb_proc) (\<lambda>_. io_return ())))))))))))"

definition bench_result :: "py_host \<Rightarrow> bench_args \<Rightarrow> (string \<times> rat) list list \<Rightarrow> (string \<times> rat) list list \<Rightarrow> json" where
  "bench_result P args baseline monitored =
     JObj [(''requests'', JInt (b_requests args)), (''concurrency'', JInt (b_concurrency args)),
       (''reps'', JInt (b_reps args)), (''baseline'', json_condition P baseline),
       (''monitored'', json_condition P monitored)]"

definition bench_report :: "py_host \<Rightarrow> bench_args \<Rightarrow> (string \<times> rat) list list \<Rightarrow> (string \<times> rat) list list \<Rightarrow> nat io" where
  "bench_report P args baseline monitored =
     io_then (act (Mkdir (path_parent (b_out args))))
     (io_then (act (Write_text (b_out args) (json_indent 0 (bench_result P args baseline monitored))))
     (io_then (py_print ([CHR 0x0A] @ ''[bench] wrote '' @ b_out args))
     (let b = mean_rps P baseline; m = mean_rps P monitored in
      io_then (io_when (0 < b) (py_print (''[bench] throughput change under monitoring: '' @
        host_float_fmt P ''+.1f'' (- fl64 (fl64 (100 * fl64 (b - m)) / b)) @ ''%'')))
      (io_return 0))))"

definition bench_rest :: "py_host \<Rightarrow> bench_args \<Rightarrow> bool \<Rightarrow> nat io" where
  "bench_rest P args running =
     io_then (if \<not> running then
         io_then (py_print (''[bench] starting instance '' @ py_repr_str (b_name args))) (start_instance (b_name args))
       else io_return ())
     (io_then (act (Sleep 1))
     (io_then (py_print (''[bench] warming up ('' @ py_repr_str (b_name args) @ '')''))
     (io_bind (run_ab 50 (b_concurrency args)) (\<lambda>_.
     io_bind (bench_reps P args ''baseline'') (\<lambda>baseline.
     io_then (print_summary P ''baseline (no gdbstub)'' (summarize P baseline))
     (io_bind (monitored_reps P args) (\<lambda>monitored.
     io_then (print_summary P ''monitored (VMI breakpoint active)'' (summarize P monitored))
     (io_then (if \<not> running then
         io_then (py_print (''[bench] stopping/removing instance '' @ py_repr_str (b_name args)))
           (stop_and_remove (b_name args))
       else io_return ())
     (bench_report P args baseline monitored)))))))))"

definition bench_main :: "py_host \<Rightarrow> bench_args \<Rightarrow> nat io" where
  "bench_main P args = io_bind (instance_is_running (b_name args)) (bench_rest P args)"

section \<open>One instance per condition\<close>

record bench3_args =
  c_reps :: int
  c_requests :: int
  c_concurrency :: int
  c_qemu :: string
  c_out :: string

definition bench3_defaults :: "string \<Rightarrow> bench3_args" where
  "bench3_defaults here =
     \<lparr>c_reps = 3, c_requests = 200, c_concurrency = 5, c_qemu = DEFAULT_QEMU,
      c_out = here @ ''/logs/bench_overhead_inline_result.json''\<rparr>"

definition bench3_reps :: "py_host \<Rightarrow> bench3_args \<Rightarrow> string \<Rightarrow> (string \<times> rat) list list io" where
  "bench3_reps P args label =
     io_bind (run_ab 50 (c_concurrency args)) (\<lambda>_.
     io_then (py_print (''[bench3] '' @ label @ '': '' @ py_str_int (c_reps args) @ '' reps of ab -n '' @
       py_str_int (c_requests args) @ '' -c '' @ py_str_int (c_concurrency args)))
     (run_ab_reps P (c_requests args) (c_concurrency args) (c_reps args) label))"

definition condition_env :: "string \<Rightarrow> string \<Rightarrow> int \<Rightarrow> bool \<Rightarrow> (string \<times> string) list" where
  "condition_env here name addr monitor_enabled =
     (if monitor_enabled
      then [(''VMI_MONITOR_ADDR'', py_hex addr),
            (''VMI_MONITOR_LOG'', here @ ''/logs/bench_inline_'' @ name @ ''.jsonl'')]
      else [])"

definition run_condition_custom_qemu ::
    "py_host \<Rightarrow> string \<Rightarrow> string \<Rightarrow> string \<Rightarrow> int \<Rightarrow> bool \<Rightarrow> bench3_args \<Rightarrow> (string \<times> rat) list list io" where
  "run_condition_custom_qemu P label name qemu_path addr monitor_enabled args =
     io_bind get_here (\<lambda>here.
     io_then (py_print (''[bench3] starting '' @ label @ '' instance '' @ py_repr_str name @
       '' (custom qemu, monitor='' @ (if monitor_enabled then ''ON'' else ''off'') @ '')''))
     (io_then (kraft_run name (Some qemu_path) (condition_env here name addr monitor_enabled))
     (io_finally (bench3_reps P args label) (stop_and_remove name))))"

text \<open>The condition with stock QEMU and an external gdb.\<close>

definition gdb_reps :: "py_host \<Rightarrow> bench3_args \<Rightarrow> string \<Rightarrow> (string \<times> rat) list list io" where
  "gdb_reps P args name =
     io_bind (find_instance_runtime_dir P name) (\<lambda>runtime_dir.
     io_bind (find_free_port 1234) (\<lambda>port.
     io_bind (attach_gdbserver P (path_join runtime_dir ''mon.sock'') (int port)) (\<lambda>_.
     io_bind get_environ (\<lambda>environ.
     io_bind get_here (\<lambda>here.
     io_bind (launch_gdb_capture port (env_set ''VMI_LOG_PATH'' (here @ ''/logs/bench_inline_gdb.jsonl'') environ))
       (\<lambda>gdb_proc.
       io_then (act (Sleep 1))
       (io_finally (bench3_reps P args ''gdb_rsp'')
         (io_bind (stop_gdb_capture gdb_proc) (\<lambda>_. io_return ())))))))))"

definition run_condition_gdb :: "py_host \<Rightarrow> bench3_args \<Rightarrow> (string \<times> rat) list list io" where
  "run_condition_gdb P args =
     io_then (py_print (''[bench3] starting gdb_rsp instance '' @ py_repr_str ''vmibench3gdb'' @
       '' (stock qemu + external gdb)''))
     (io_then (kraft_run ''vmibench3gdb'' None [])
     (io_finally (gdb_reps P args ''vmibench3gdb'') (stop_and_remove ''vmibench3gdb'')))"

definition versus :: "py_host \<Rightarrow> rat \<Rightarrow> rat \<Rightarrow> string" where
  "versus P a b = ''('' @ host_float_fmt P ''+.1f'' (fl64 (fl64 (- 100 * fl64 (a - b)) / a)) @ ''% vs A)''"

text \<open>The percentages divide by the baseline's throughput without a test for zero.\<close>

definition bench3_report ::
    "py_host \<Rightarrow> bench3_args \<Rightarrow> (string \<times> rat) list list \<Rightarrow> (string \<times> rat) list list \<Rightarrow>
     (string \<times> rat) list list \<Rightarrow> nat io" where
  "bench3_report P args base inl gdb =
     io_then (act (Mkdir (path_parent (c_out args))))
     (io_then (act (Write_text (c_out args) (json_indent 0 (JObj
        [(''requests'', JInt (c_requests args)), (''concurrency'', JInt (c_concurrency args)),
         (''reps'', JInt (c_reps args)), (''baseline_custom'', json_condition P base),
         (''inline'', json_condition P inl), (''gdb_rsp'', json_condition P gdb)]))))
     (io_then (py_print ([CHR 0x0A] @ ''[bench3] wrote '' @ c_out args))
     (let a = mean_rps P base; b = mean_rps P inl; c = mean_rps P gdb in
      io_then (py_print ([CHR 0x0A] @ ''=== Summary ===''))
      (io_then (py_print (''A. baseline_custom : '' @ host_float_fmt P ''9.1f'' a @ '' req/s''))
      (if a = 0 then io_raise ZeroDivisionError
       else
         io_then (py_print (''B. inline monitor  : '' @ host_float_fmt P ''9.1f'' b @ '' req/s '' @ versus P a b))
         (io_then (py_print (''C. gdb/RSP monitor : '' @ host_float_fmt P ''9.1f'' c @ '' req/s '' @ versus P a c))
         (io_return 0)))))))"

definition bench3_rest :: "py_host \<Rightarrow> bench3_args \<Rightarrow> nat io" where
  "bench3_rest P args =
     io_bind resolve_syscall_addr (\<lambda>addr.
     io_then (py_print (''[bench3] _ukplat_syscall = '' @ py_hex addr))
     (io_bind (run_condition_custom_qemu P ''baseline_custom'' ''vmibench3base'' (c_qemu args) addr False args) (\<lambda>base.
     io_then (print_summary P ''A. baseline_custom (custom qemu, monitor disabled)'' (summarize P base))
     (io_bind (run_condition_custom_qemu P ''inline'' ''vmibench3inline'' (c_qemu args) addr True args) (\<lambda>inl.
     io_then (print_summary P ''B. inline (custom qemu, VMI monitor active, no gdb)'' (summarize P inl))
     (io_bind (run_condition_gdb P args) (\<lambda>gdb.
     io_then (print_summary P ''C. gdb_rsp (stock qemu + external gdb/RSP, existing Phase 1-4 tool)'' (summarize P gdb))
     (bench3_report P args base inl gdb))))))))"

definition bench3_main :: "py_host \<Rightarrow> bench3_args \<Rightarrow> nat io" where
  "bench3_main P args =
     io_bind (act_bool (Is_file (c_qemu args))) (\<lambda>there.
       if \<not> there then
         io_then (py_print_err (''ERROR: --qemu path does not exist: '' @ c_qemu args)) (io_return 1)
       else bench3_rest P args)"

section \<open>Repetitions\<close>

lemma parse_ab_keys: "parse_ab pats s = Inr r \<Longrightarrow> map fst r = map fst pats"
  by (induction pats arbitrary: r) (auto simp: bind_result_Inr_iff split: option.splits)

lemma one_rep_result:
  "\<exists>r h'. one_rep P requests concurrency reps label i w h = Some (r, h') \<and>
    (\<forall>v. r = Inr v \<longrightarrow> (\<forall>x. v = Some x \<longrightarrow> map fst x = map fst AB_PATTERNS)) \<and>
    (\<forall>e. r = Inl e \<longrightarrow> rep_error P (ab_cmd requests concurrency) e = None \<or> print_failed w h' e)"
proof -
  obtain r1 h1 where run: "run_ab requests concurrency w h = Some (r1, h1)"
    "\<And>x. r1 = Inr x \<Longrightarrow> map fst x = map fst AB_PATTERNS"
  proof -
    have "\<exists>r1 h1. run_ab requests concurrency w h = Some (r1, h1) \<and> (\<forall>x. r1 = Inr x \<longrightarrow> map fst x = map fst AB_PATTERNS)"
      by (auto simp: run_ab_def io_bind_def subprocess_run_def Let_def io_lift_def parse_ab_keys split: sum.splits)
    with that show ?thesis by blast
  qed
  show ?thesis
  proof (cases r1)
    case (Inr x)
    with run show ?thesis by (simp add: one_rep_def io_catch_def io_bind_def io_return_def)
  next
    case (Inl e)
    show ?thesis
    proof (cases "rep_error P (ab_cmd requests concurrency) e")
      case None
      with Inl run(1) show ?thesis by (simp add: one_rep_def io_catch_def io_bind_def io_raise_def)
    next
      case (Some msg)
      let ?s = "''[bench] WARNING: '' @ label @ '' rep '' @ py_str_int (int i + 1) @ ''/'' @ py_str_int reps @
        '' failed, skipping: '' @ msg"
      from Inl Some run(1) have "one_rep P requests concurrency reps label i w h =
          io_then (py_print ?s) (io_return None) w h1"
        by (simp add: one_rep_def io_catch_def io_bind_def)
      then show ?thesis
        by (cases rule: py_print_cases [of ?s w h1]) (auto simp: io_then_def io_bind_def io_return_def)
    qed
  qed
qed

lemma io_map_result:
  assumes "\<And>i h. \<exists>r h'. f i w h = Some (r, h') \<and> (\<forall>x. r = Inr x \<longrightarrow> Q x) \<and> (\<forall>e. r = Inl e \<longrightarrow> E h' e)"
  shows "\<exists>r h'. io_map f js w h = Some (r, h') \<and>
    (\<forall>xs. r = Inr xs \<longrightarrow> length xs = length js \<and> list_all Q xs) \<and> (\<forall>e. r = Inl e \<longrightarrow> E h' e)"
proof (induction js arbitrary: h)
  case Nil
  then show ?case by (simp add: io_return_def)
next
  case (Cons i js)
  from assms obtain r1 h1 where 1: "f i w h = Some (r1, h1)" "\<And>x. r1 = Inr x \<Longrightarrow> Q x" "\<And>e. r1 = Inl e \<Longrightarrow> E h1 e" by blast
  from Cons.IH obtain r2 h2 where 2: "io_map f js w h1 = Some (r2, h2)"
    "\<And>xs. r2 = Inr xs \<Longrightarrow> length xs = length js \<and> list_all Q xs" "\<And>e. r2 = Inl e \<Longrightarrow> E h2 e" by blast
  show ?case
    using 1 2 by (cases r1; cases r2) (auto simp: io_bind_def io_return_def)
qed

lemma length_somes: "length (somes xs) \<le> length xs"
  by (induction xs) (auto simp: somes_def split: option.split)

lemma somes_all: "list_all (\<lambda>v. \<forall>x. v = Some x \<longrightarrow> Q x) xs \<Longrightarrow> list_all Q (somes xs)"
  by (induction xs) (auto simp: somes_def split: option.split)

text \<open>
  C36: repeating a measurement. \<open>run_ab_reps\<close> always comes back. What it returns is at
  least one and at most \<open>reps\<close> results, each with exactly the six figures of
  \<open>AB_PATTERNS\<close>; it raises its own error when no repetition succeeded, and otherwise
  only lets an exception through that a failed repetition is not allowed to raise or that
  one of its own messages raised when printed.
\<close>

theorem run_ab_reps_result:
  "\<exists>r h'. run_ab_reps P requests concurrency reps label w h = Some (r, h') \<and>
    (\<forall>rs. r = Inr rs \<longrightarrow> rs \<noteq> [] \<and> int (length rs) \<le> reps \<and>
      list_all (\<lambda>x. map fst x = map fst AB_PATTERNS) rs) \<and>
    (\<forall>e. r = Inl e \<longrightarrow> e = RuntimeError (''all '' @ py_str_int reps @ '' reps of '' @ py_repr_str label @
        '' failed -- nothing to report'') \<or> rep_error P (ab_cmd requests concurrency) e = None \<or> print_failed w h' e)"
proof -
  obtain r h' where run: "io_map (one_rep P requests concurrency reps label) [0..<nat reps] w h = Some (r, h')"
    "\<And>xs. r = Inr xs \<Longrightarrow> length xs = nat reps \<and> list_all (\<lambda>v. \<forall>x. v = Some x \<longrightarrow> map fst x = map fst AB_PATTERNS) xs"
    "\<And>e. r = Inl e \<Longrightarrow> rep_error P (ab_cmd requests concurrency) e = None \<or> print_failed w h' e"
    using io_map_result [where f = "one_rep P requests concurrency reps label" and w = w and js = "[0..<nat reps]"
        and h = h and Q = "\<lambda>v. \<forall>x. v = Some x \<longrightarrow> map fst x = map fst AB_PATTERNS"
        and E = "\<lambda>h' e. rep_error P (ab_cmd requests concurrency) e = None \<or> print_failed w h' e", OF one_rep_result]
    by auto
  show ?thesis
  proof (cases r)
    case (Inl e)
    with run(1,3) show ?thesis by (simp add: run_ab_reps_def io_bind_def)
  next
    case (Inr xs)
    from run(2) [OF Inr] have xs: "length (somes xs) \<le> nat reps"
      "list_all (\<lambda>x. map fst x = map fst AB_PATTERNS) (somes xs)"
      using length_somes [of xs] somes_all by auto
    show ?thesis
    proof (cases "somes xs = []")
      case True
      with run(1) Inr show ?thesis by (simp add: run_ab_reps_def io_bind_def Let_def io_raise_def)
    next
      case False
      then have "0 < length (somes xs)" by simp
      with xs(1) have "int (length (somes xs)) \<le> reps" by linarith
      let ?s = "''[bench] '' @ label @ '': '' @ py_str_int (int (length (somes xs))) @ ''/'' @ py_str_int reps @
        '' reps succeeded''"
      have "run_ab_reps P requests concurrency reps label w h =
          io_then (io_when (int (length (somes xs)) < reps) (py_print ?s)) (io_return (somes xs)) w h'"
        using False run(1) Inr by (simp add: run_ab_reps_def io_bind_def Let_def)
      then show ?thesis
        using False xs(2) \<open>int (length (somes xs)) \<le> reps\<close>
        by (cases rule: py_print_cases [of ?s w h']) (auto simp: io_then_def io_bind_def io_when_def io_return_def)
    qed
  qed
qed

theorem run_ab_reps_result_witness:
  "\<exists>h'. run_ab_reps hmp_host 500 5 0 ''baseline'' null_world [] =
     Some (Inl (RuntimeError (''all '' @ py_str_int 0 @ '' reps of '' @ py_repr_str ''baseline'' @
       '' failed -- nothing to report'')), h')"
proof -
  have "rep_error hmp_host (ab_cmd 500 5) e \<noteq> None"
    if "run_ab_reps hmp_host 500 5 0 ''baseline'' null_world [] = Some (Inl e, h')" for e h'
    using that by (auto simp: run_ab_reps_def somes_def io_bind_def io_return_def io_raise_def Let_def rep_error_def)
  moreover obtain r h' where "run_ab_reps hmp_host 500 5 0 ''baseline'' null_world [] = Some (r, h')"
    "\<And>rs. r = Inr rs \<Longrightarrow> rs \<noteq> [] \<and> int (length rs) \<le> 0"
    "\<And>e. r = Inl e \<Longrightarrow> e = RuntimeError (''all '' @ py_str_int 0 @ '' reps of '' @ py_repr_str ''baseline'' @
        '' failed -- nothing to report'') \<or> rep_error hmp_host (ab_cmd 500 5) e = None \<or> print_failed null_world h' e"
    using run_ab_reps_result [of hmp_host 500 5 0 "''baseline''" null_world "[]"] by blast
  moreover have "\<not> print_failed null_world h' e" for h' e by (simp add: print_failed_def null_world_def)
  ultimately show ?thesis by (cases r) fastforce+
qed

section \<open>Commands that change instances\<close>

text \<open>
  The commands of \<open>L\<close>, which come in threes, in order: all when the program returns. When
  it raises, some first ones have been issued; a group of three that has been begun is
  complete, or the run has ended in the last command issued (or in the pause after a start).
\<close>

definition ended_in :: "trace \<Rightarrow> string list \<Rightarrow> bool" where
  "ended_in h c \<longleftrightarrow> (\<exists>k d env as. h = k @ Run c d env # as \<and> as \<in> {[], [Sleep BOOT_SETTLE_S]})"

lemma ended_in_last [simp]:
  "ended_in (k @ [Run c d env]) c" "ended_in (k @ [Run c d env, Sleep BOOT_SETTLE_S]) c"
  unfolding ended_in_def by blast+

definition begun_in_order :: "string list list \<Rightarrow> string list list \<Rightarrow> trace \<Rightarrow> bool" where
  "begun_in_order L cs h \<longleftrightarrow> prefix cs L \<and> (length cs mod 3 \<noteq> 0 \<longrightarrow> ended_in h (last cs))"

definition in_order :: "'a io \<Rightarrow> string list list \<Rightarrow> bool" where
  "in_order m L \<longleftrightarrow> 3 dvd length L \<and> (\<forall>w h r h'. m w h = Some (r, h') \<longrightarrow>
     (\<exists>cs. life h' = life h @ cs \<and> (case r of Inr _ \<Rightarrow> cs = L | Inl _ \<Rightarrow> begun_in_order L cs h')))"

lemma in_orderD:
  "in_order m L \<Longrightarrow> m w h = Some (r, h') \<Longrightarrow>
   \<exists>cs. life h' = life h @ cs \<and> (case r of Inr _ \<Rightarrow> cs = L | Inl _ \<Rightarrow> begun_in_order L cs h')"
  by (simp add: in_order_def)

lemma in_order_lifeless: "lifeless m \<Longrightarrow> in_order m []"
  by (auto simp: in_order_def begun_in_order_def dest!: life_quiet split: sum.split)

lemma in_order_bind:
  assumes m: "in_order m L1" and f: "\<And>x. in_order (f x) L2"
  shows "in_order (io_bind m f) (L1 @ L2)"
  unfolding in_order_def
proof (intro conjI allI impI)
  have threes: "3 dvd length L1" "3 dvd length L2" using m f by (simp_all add: in_order_def)
  then show "3 dvd length (L1 @ L2)" by simp
  fix w h r h'
  assume "io_bind m f w h = Some (r, h')"
  then consider e where "m w h = Some (Inl e, h')" "r = Inl e"
    | x h1 where "m w h = Some (Inr x, h1)" "f x w h1 = Some (r, h')" by (auto simp: io_bind_Some)
  then show "\<exists>cs. life h' = life h @ cs \<and> (case r of Inr _ \<Rightarrow> cs = L1 @ L2 | Inl _ \<Rightarrow> begun_in_order (L1 @ L2) cs h')"
  proof cases
    case 1
    with in_orderD [OF m 1(1)] show ?thesis by (auto simp: begun_in_order_def prefix_prefix)
  next
    case (2 x h1)
    from in_orderD [OF m 2(1)] have "life h1 = life h @ L1" by simp
    moreover obtain cs where "life h' = life h1 @ cs" "case r of Inr _ \<Rightarrow> cs = L2 | Inl _ \<Rightarrow> begun_in_order L2 cs h'"
      using in_orderD [OF f 2(2)] by blast
    moreover have "(length L1 + length cs) mod 3 = length cs mod 3" using threes(1) by (auto elim: dvdE)
    ultimately show ?thesis
      by (intro exI [of _ "L1 @ cs"]) (cases "cs = []"; auto simp: begun_in_order_def split: sum.splits)
  qed
qed

lemma in_order_before:
  "lifeless m \<Longrightarrow> (\<And>x. in_order (f x) L) \<Longrightarrow> in_order (io_bind m f) L"
  "lifeless n \<Longrightarrow> in_order k L \<Longrightarrow> in_order (io_then n k) L"
  using in_order_bind [OF in_order_lifeless, of m f L] in_order_bind [OF in_order_lifeless, of n "\<lambda>_. k" L]
  by (simp_all add: io_then_def)

lemma kraft_run_ends:
  assumes "kraft_run name q extra w h = Some (r, h')"
  shows "ended_in h' (run_cmd 8080 name (if q = Some [] then None else q))"
  using assms
  by (auto simp: kraft_run_def io_bind_Some io_then_Some get_project_def get_environ_def act_def
      dest!: run_checked_issued split: if_splits)

text \<open>\<open>kraft_run; try: body finally: stop_and_remove\<close>\<close>

lemma in_order_bracket:
  assumes body: "lifeless body"
  shows "in_order (io_then (kraft_run name q extra) (io_finally body (stop_and_remove name)))
    [run_cmd 8080 name (if q = Some [] then None else q), stop_cmd name, rm_cmd name]"
  (is "in_order ?m [?run, _, _]")
  unfolding in_order_def
proof (intro conjI allI impI)
  fix w h r h'
  assume "?m w h = Some (r, h')"
  then consider e where "kraft_run name q extra w h = Some (Inl e, h')" "r = Inl e"
    | h1 where "kraft_run name q extra w h = Some (Inr (), h1)" "io_finally body (stop_and_remove name) w h1 = Some (r, h')"
    by (auto simp: io_then_Some)
  then show "\<exists>cs. life h' = life h @ cs \<and> (case r of Inr _ \<Rightarrow> cs = [?run, stop_cmd name, rm_cmd name]
      | Inl _ \<Rightarrow> begun_in_order [?run, stop_cmd name, rm_cmd name] cs h')"
  proof cases
    case 1
    with kraft_run_life [OF 1(1)] kraft_run_ends [OF 1(1)] show ?thesis
      by (intro exI [of _ "[?run]"]) (simp add: begun_in_order_def)
  next
    case (2 h1)
    from 2(2) obtain r1 h2 r2 where b: "body w h1 = Some (r1, h2)" "stop_and_remove name w h2 = Some (r2, h')"
      "r = (case r2 of Inl e \<Rightarrow> Inl e | Inr _ \<Rightarrow> r1)" by (rule io_finally_Some)
    have "life h2 = life h @ [?run]" using life_quiet [OF body b(1)] kraft_run_life [OF 2(1)] by simp
    with stop_and_remove_ends [OF b(2)] b(3) show ?thesis
      by (elim disjE conjE) (auto simp: begun_in_order_def split: sum.splits)
  qed
qed (simp add: numeral_3_eq_3)

lemma bench_parts_lifeless [io_rules]:
  "lifeless (run_ab requests concurrency)" "lifeless (run_ab_reps P requests concurrency reps label)"
  "lifeless (print_summary P label summary)" "lifeless (bench3_reps P a3 label)" "lifeless (gdb_reps P a3 name)"
  "lifeless (bench3_report P a3 base inl gdb)"
proof -
  show run: "lifeless (run_ab requests concurrency)" for requests concurrency
    by (auto simp: run_ab_def ab_cmd_def intro!: io_rules)
  then have "lifeless (one_rep P requests concurrency reps label i)" for P requests concurrency reps label i
    by (auto simp: one_rep_def intro!: io_rules)
  then show reps: "lifeless (run_ab_reps P requests concurrency reps label)" for P requests concurrency reps label
    by (auto simp: run_ab_reps_def Let_def intro!: io_rules)
  show "lifeless (print_summary P label summary)"
    by (auto simp: print_summary_def intro!: io_rules)
  show r3: "lifeless (bench3_reps P a3 label)" for P a3 label
    by (auto simp: bench3_reps_def intro!: io_rules run reps)
  then show "lifeless (gdb_reps P a3 name)"
    by (auto simp: gdb_reps_def intro!: io_rules)
  show "lifeless (bench3_report P a3 base inl gdb)"
    by (auto simp: bench3_report_def Let_def intro!: io_rules)
qed

lemma condition_in_order:
  "in_order (run_condition_custom_qemu P label name q addr on a3)
    [run_cmd 8080 name (if q = [] then None else Some q), stop_cmd name, rm_cmd name]"
  "in_order (run_condition_gdb P a3)
    [run_cmd 8080 ''vmibench3gdb'' None, stop_cmd ''vmibench3gdb'', rm_cmd ''vmibench3gdb'']"
proof -
  show "in_order (run_condition_custom_qemu P label name q addr on a3)
    [run_cmd 8080 name (if q = [] then None else Some q), stop_cmd name, rm_cmd name]"
    unfolding run_condition_custom_qemu_def
  proof (rule in_order_before(1) [OF io_only_leaf(6)], rule in_order_before(2))
    show "in_order (io_then (kraft_run name (Some q) (condition_env here name addr on))
        (io_finally (bench3_reps P a3 label) (stop_and_remove name)))
      [run_cmd 8080 name (if q = [] then None else Some q), stop_cmd name, rm_cmd name]" for here
      using in_order_bracket [OF bench_parts_lifeless(4), of name "Some q"] by simp
  qed (intro io_rules, simp)
  show "in_order (run_condition_gdb P a3)
    [run_cmd 8080 ''vmibench3gdb'' None, stop_cmd ''vmibench3gdb'', rm_cmd ''vmibench3gdb'']"
    unfolding run_condition_gdb_def
    by (rule in_order_before(2))
      (intro io_rules, simp, use in_order_bracket [OF bench_parts_lifeless(5), of "''vmibench3gdb''" None] in simp)
qed

definition condition_cmds :: "string \<Rightarrow> string option \<Rightarrow> string list list" where
  "condition_cmds name q = [run_cmd 8080 name q, stop_cmd name, rm_cmd name]"

lemma in_order_summary: "in_order k L \<Longrightarrow> in_order (io_then (print_summary P label summary) k) L"
  by (rule in_order_before(2) [OF bench_parts_lifeless(3)])

lemma bench3_rest_in_order:
  "in_order (bench3_rest P args)
    (condition_cmds ''vmibench3base'' (given (Some (c_qemu args))) @
     condition_cmds ''vmibench3inline'' (given (Some (c_qemu args))) @ condition_cmds ''vmibench3gdb'' None)"
proof -
  let ?q = "given (Some (c_qemu args))"
  have custom: "in_order (run_condition_custom_qemu P label name (c_qemu args) addr on args) (condition_cmds name ?q)"
    for label name addr on
    using condition_in_order(1) [of P label name "c_qemu args" addr on args]
    by (simp add: condition_cmds_def given_def)
  have gdb: "in_order (run_condition_gdb P args) (condition_cmds ''vmibench3gdb'' None)"
    using condition_in_order(2) by (simp add: condition_cmds_def)
  have "in_order (bench3_report P args base inl g) []" for base inl g
    by (rule in_order_lifeless [OF bench_parts_lifeless(6)])
  then have 3: "in_order (io_bind (run_condition_gdb P args) (\<lambda>g.
      io_then (print_summary P l (summarize P g)) (bench3_report P args base inl g))) (condition_cmds ''vmibench3gdb'' None)"
    for base inl l
    using in_order_bind [OF gdb in_order_summary] by fastforce
  have 2: "in_order (io_bind (run_condition_custom_qemu P ''inline'' ''vmibench3inline'' (c_qemu args) addr True args)
      (\<lambda>inl. io_then (print_summary P l1 (summarize P inl)) (io_bind (run_condition_gdb P args) (\<lambda>g.
        io_then (print_summary P l2 (summarize P g)) (bench3_report P args base inl g)))))
      (condition_cmds ''vmibench3inline'' ?q @ condition_cmds ''vmibench3gdb'' None)" for addr l1 l2 base
    by (rule in_order_bind [OF custom in_order_summary [OF 3]])
  show ?thesis
    unfolding bench3_rest_def
    by (rule in_order_before(1) [OF lifeless_tools(9)], rule in_order_before(2))
      (intro io_rules, simp, rule in_order_bind [OF custom in_order_summary [OF 2]])
qed

lemma bench3_rest_value: "bench3_rest P args w h = Some (Inr n, h') \<Longrightarrow> n = 0"
  by (auto simp: bench3_rest_def bench3_report_def Let_def io_bind_Some io_then_Some io_return_def io_raise_def
      split: if_splits)

text \<open>
  C35: three conditions, three instances. If QEMU is missing the benchmark touches nothing and
  ends with 1. Otherwise it starts, stops and removes one instance per condition, each before
  the next is started; when it returns 0 all nine commands have been issued. When it raises,
  the first ones of them have, and an instance it has started is stopped and removed whatever
  went wrong in the measurement: it is left behind only if the run ended in the start of the
  instance (or the pause after it), or in the command that was to stop it.
\<close>

theorem bench3_instances:
  assumes "bench3_main P args w h = Some (r, h')"
  shows "\<exists>cs. life h' = life h @ cs \<and>
    prefix cs (condition_cmds ''vmibench3base'' (given (Some (c_qemu args))) @
      condition_cmds ''vmibench3inline'' (given (Some (c_qemu args))) @ condition_cmds ''vmibench3gdb'' None) \<and>
    (length cs mod 3 \<noteq> 0 \<longrightarrow> (\<exists>e. r = Inl e) \<and> ended_in h' (last cs)) \<and>
    (r = Inr 0 \<longrightarrow> length cs = 9) \<and> (\<forall>n. r = Inr n \<longrightarrow> n \<le> 1) \<and>
    (w_bool w (h @ [Is_file (c_qemu args)]) = Inr False \<longrightarrow> cs = [] \<and> (r = Inr 1 \<or> (\<exists>e. r = Inl e \<and> w_unit w h' = Inl e))) \<and>
    (r = Inr 1 \<longrightarrow> cs = [])"
proof -
  let ?h1 = "h @ [Is_file (c_qemu args)]"
  let ?L = "condition_cmds ''vmibench3base'' (given (Some (c_qemu args))) @
      condition_cmds ''vmibench3inline'' (given (Some (c_qemu args))) @ condition_cmds ''vmibench3gdb'' None"
  have main: "bench3_main P args w h = (case w_bool w ?h1 of Inl e \<Rightarrow> Some (Inl e, ?h1)
      | Inr there \<Rightarrow> if there then bench3_rest P args w ?h1
          else io_then (py_print_err (''ERROR: --qemu path does not exist: '' @ c_qemu args)) (io_return 1) w ?h1)"
    by (simp add: bench3_main_def io_bind_def act_bool_def split: sum.split)
  consider e where "w_bool w ?h1 = Inl e" | "w_bool w ?h1 = Inr False" | "w_bool w ?h1 = Inr True"
    by (metis (full_types) sum.exhaust_sel)
  then show ?thesis
  proof cases
    case 1
    with assms main show ?thesis by auto
  next
    case 2
    with assms main have "io_then (py_print_err (''ERROR: --qemu path does not exist: '' @ c_qemu args)) (io_return 1) w ?h1 =
        Some (r, h')" by simp
    then have "h' = ?h1 @ [Print_err (''ERROR: --qemu path does not exist: '' @ c_qemu args)] \<and>
        (r = Inr 1 \<or> (\<exists>e. r = Inl e \<and> w_unit w h' = Inl e))"
      by (auto simp: io_then_Some py_print_err_def act_def io_return_def)
    with 2 show ?thesis by (intro exI [of _ "[]"]) auto
  next
    case 3
    with assms main have run: "bench3_rest P args w ?h1 = Some (r, h')" by simp
    have nine: "length ?L = 9" by (simp add: condition_cmds_def)
    obtain cs where "life h' = life ?h1 @ cs" and res: "case r of Inr _ \<Rightarrow> cs = ?L | Inl _ \<Rightarrow> begun_in_order ?L cs h'"
      using in_orderD [OF bench3_rest_in_order run] by blast
    then have cs: "life h' = life h @ cs" by simp
    show ?thesis
    proof (cases r)
      case (Inl e)
      with cs res 3 show ?thesis by (intro exI [of _ cs]) (simp add: begun_in_order_def)
    next
      case (Inr n)
      with bench3_rest_value [where w = w and h = ?h1 and h' = h'] run have "n = 0" by simp
      with Inr cs res 3 nine show ?thesis by (intro exI [of _ cs]) simp
    qed
  qed
qed

definition demo_bench3 :: bench3_args where
  "demo_bench3 = \<lparr>c_reps = 3, c_requests = 200, c_concurrency = 5, c_qemu = ''/opt/qemu'', c_out = ''out.json''\<rparr>"

text \<open>The hook address is found, but \<open>ab\<close> is not installed.\<close>

definition no_ab_world :: world where
  "no_ab_world = null_world\<lparr>w_run := (\<lambda>h. case last h of
     Run (prog # args) d env \<Rightarrow>
       if prog = ''nm'' then Inr (0, ''10 T _ukplat_syscall'') else if prog = ''ab'' then Inl FileNotFoundError else Inr (0, [])
   | _ \<Rightarrow> Inr (0, []))\<rparr>"

lemma no_ab_address: "find_symbol dbg (splitlines ''10 T _ukplat_syscall'') = Inr 0x10"
proof -
  have "splitlines ''10 T _ukplat_syscall'' = [''10 T _ukplat_syscall'']"
    by (simp add: splitlines.simps line_end_def after_line_end_def Let_def)
  moreover have "ends_with ''10 T _ukplat_syscall'' '' T _ukplat_syscall''" by code_simp
  moreover have "split_ws ''10 T _ukplat_syscall'' = [''10'', ''T'', ''_ukplat_syscall'']" by code_simp
  moreover have "py_int 16 ''10'' = Inr 0x10" by code_simp
  ultimately show ?thesis by simp
qed

lemma no_ab_run:
  "\<exists>h'. bench3_main hmp_host demo_bench3 no_ab_world [] = Some (Inl FileNotFoundError, h') \<and>
     life h' = condition_cmds ''vmibench3base'' (Some ''/opt/qemu'')"
proof -
  let ?w = no_ab_world
  have w: "w_unit ?w h = Inr ()" "w_bool ?w h = Inr True" for h by (simp_all add: no_ab_world_def null_world_def)
  have run: "w_run ?w (h @ [Run (prog # args) d env]) =
      (if prog = ''nm'' then Inr (0, ''10 T _ukplat_syscall'') else if prog = ''ab'' then Inl FileNotFoundError else Inr (0, []))"
    for h prog args d env by (simp add: no_ab_world_def)
  have prints: "py_print s ?w h = Some (Inr (), h @ [Print s])" for s h by (simp add: py_print_def act_def w)
  have nm: "\<exists>h'. resolve_syscall_addr ?w h = Some (Inr 0x10, h') \<and> life h' = life h" for h
    by (simp add: resolve_syscall_addr_def io_bind_def get_project_def subprocess_run_def run no_ab_address io_lift_def
        life_argv_def)
  have start: "\<exists>h'. kraft_run name q extra ?w h = Some (Inr (), h') \<and>
      life h' = life h @ [run_cmd 8080 name (if q = Some [] then None else q)]" for name q extra h
  proof -
    have "\<exists>h'. kraft_run name q extra ?w h = Some (Inr (), h')"
      by (simp add: kraft_run_def io_bind_def io_then_def get_environ_def get_project_def run_checked_def run_cmd_def
          subprocess_run_def run [simplified] io_return_def act_def w)
    then show ?thesis using kraft_run_life by blast
  qed
  have ab: "\<exists>h'. bench3_reps P a l ?w h = Some (Inl FileNotFoundError, h') \<and> life h' = life h" for P a l h
    by (simp add: bench3_reps_def run_ab_def ab_cmd_def io_bind_def subprocess_run_def run life_argv_def)
  have stop: "\<exists>h'. stop_and_remove name ?w h = Some (Inr (), h') \<and> life h' = life h @ [stop_cmd name, rm_cmd name]" for name h
    by (simp add: stop_and_remove_def run_ignoring_def stop_cmd_def rm_cmd_def io_then_def io_bind_def subprocess_run_def
        run [simplified] io_return_def life_argv_def)
  have there: "act_bool (Is_file q) ?w [] = Some (Inr True, [Is_file q])" for q by (simp add: act_bool_def w)
  have cond: "\<exists>h'. run_condition_custom_qemu P l name q addr False a ?w h = Some (Inl FileNotFoundError, h') \<and>
      life h' = life h @ condition_cmds name (given (Some q))" for P l name q addr a h
  proof -
    let ?h1 = "h @ [Print (''[bench3] starting '' @ l @ '' instance '' @ py_repr_str name @
       '' (custom qemu, monitor='' @ ''off'' @ '')'')]"
    obtain h2 where 2: "kraft_run name (Some q) (condition_env (w_here ?w) name addr False) ?w ?h1 = Some (Inr (), h2)"
      "life h2 = life h @ [run_cmd 8080 name (given (Some q))]"
      using start [of name "Some q" "condition_env (w_here ?w) name addr False" ?h1] by (auto simp: given_def)
    obtain h3 where 3: "bench3_reps P a l ?w h2 = Some (Inl FileNotFoundError, h3)" "life h3 = life h2"
      using ab by blast
    obtain h4 where 4: "stop_and_remove name ?w h3 = Some (Inr (), h4)" "life h4 = life h3 @ [stop_cmd name, rm_cmd name]"
      using stop by blast
    have "run_condition_custom_qemu P l name q addr False a ?w h = Some (Inl FileNotFoundError, h4)"
      unfolding run_condition_custom_qemu_def io_bind_def [of get_here] get_here_def
      using 2(1) 3(1) 4(1) by (simp add: io_then_def io_bind_def prints io_finally_def)
    then show ?thesis using 2(2) 3(2) 4(2) by (simp add: condition_cmds_def)
  qed
  obtain h2 where 2: "resolve_syscall_addr ?w [Is_file ''/opt/qemu''] = Some (Inr 0x10, h2)" "life h2 = []"
    using nm [of "[Is_file ''/opt/qemu'']"] by auto
  let ?h3 = "h2 @ [Print (''[bench3] _ukplat_syscall = '' @ py_hex 0x10)]"
  obtain h4 where 4: "run_condition_custom_qemu hmp_host ''baseline_custom'' ''vmibench3base'' ''/opt/qemu'' 0x10 False
      demo_bench3 ?w ?h3 = Some (Inl FileNotFoundError, h4)"
    "life h4 = life ?h3 @ condition_cmds ''vmibench3base'' (given (Some ''/opt/qemu''))"
    using cond by blast
  have q: "c_qemu demo_bench3 = ''/opt/qemu''" by (simp add: demo_bench3_def)
  have "bench3_main hmp_host demo_bench3 ?w [] = Some (Inl FileNotFoundError, h4)"
    unfolding bench3_main_def bench3_rest_def q
    using 2(1) 4(1) by (simp add: io_bind_def io_then_def there prints)
  with 4(2) 2(2) show ?thesis by (simp add: given_def)
qed

theorem bench3_instances_witness:
  "\<exists>h'. life h' = condition_cmds ''vmibench3base'' (Some ''/opt/qemu'') \<and>
     bench3_main hmp_host demo_bench3 no_ab_world [] = Some (Inl FileNotFoundError, h') \<and>
     prefix (life h') (condition_cmds ''vmibench3base'' (Some ''/opt/qemu'') @
       condition_cmds ''vmibench3inline'' (Some ''/opt/qemu'') @ condition_cmds ''vmibench3gdb'' None)"
proof -
  obtain h' where run: "bench3_main hmp_host demo_bench3 no_ab_world [] = Some (Inl FileNotFoundError, h')"
    "life h' = condition_cmds ''vmibench3base'' (Some ''/opt/qemu'')"
    using no_ab_run by blast
  from bench3_instances [OF run(1)] run show ?thesis by (intro exI [of _ h']) (auto simp: demo_bench3_def given_def)
qed

section \<open>The environment of a condition\<close>

text \<open>
  The instance of the first condition gets the caller's environment as it is, so a
  \<open>VMI_MONITOR_ADDR\<close> set there enables the monitor in the condition that is meant to
  run without it; \<open>VMI_MONITOR_RET_ADDR\<close> is inherited in both conditions.
\<close>

lemma bench3_environment:
  assumes "kraft_run name (Some q) (condition_env here name addr on) w h = Some (r, h')"
  shows "\<exists>env. Run (run_cmd 8080 name (given (Some q))) (Some (w_project w)) (Some env) \<in> set h' \<and>
    env ''VMI_MONITOR_ADDR'' = (if on then Some (py_hex addr) else w_environ w ''VMI_MONITOR_ADDR'') \<and>
    env ''VMI_MONITOR_RET_ADDR'' = w_environ w ''VMI_MONITOR_RET_ADDR''"
proof -
  let ?env = "foldl (\<lambda>env (k, v). env_set k v env) (w_environ w) (condition_env here name addr on)"
  have "Run (run_cmd 8080 name (given (Some q))) (Some (w_project w)) (Some ?env) \<in> set h'"
    using assms
    by (auto simp: kraft_run_def given_def run_checked_def io_bind_Some io_then_Some get_environ_def
        get_project_def subprocess_run_def Let_def io_return_def act_def split: sum.splits if_splits)
  moreover have "?env ''VMI_MONITOR_ADDR'' = (if on then Some (py_hex addr) else w_environ w ''VMI_MONITOR_ADDR'')"
    "?env ''VMI_MONITOR_RET_ADDR'' = w_environ w ''VMI_MONITOR_RET_ADDR''"
    by (simp_all add: condition_env_def env_set_def)
  ultimately show ?thesis by blast
qed

end
