(* ===== verification/Capture_From_Boot.thy ===== *)
theory Capture_From_Boot
  imports Run_Capture
begin

text \<open>
  \<open>run_capture_from_boot.py\<close>: gdb is prepared first, then the instance is started in the
  background and its monitor socket is awaited by loops that poll without sleeping until a
  deadline. \<open>pick\<close> is the element \<open>next(iter(_))\<close> yields of the set of new
  directories.
\<close>

section \<open>Waiting\<close>

text \<open>
  \<open>while time.monotonic() < deadline: ...\<close> followed by \<open>raise TimeoutError\<close>: the
  probe yields a value to return or \<open>None\<close> to go on.
\<close>

partial_function (option) poll_until :: "rat \<Rightarrow> string \<Rightarrow> 'a option io \<Rightarrow> 'a io" where
  "poll_until deadline msg probe w h =
     io_bind (act_time Monotonic) (\<lambda>t.
       if t < deadline then
         io_bind probe (\<lambda>r. case r of Some x \<Rightarrow> io_return x | None \<Rightarrow> poll_until deadline msg probe)
       else io_raise (TimeoutError msg)) w h"

definition with_timeout :: "rat \<Rightarrow> string \<Rightarrow> 'a option io \<Rightarrow> 'a io" where
  "with_timeout timeout msg probe = io_bind (act_time Monotonic) (\<lambda>t. poll_until (t + timeout) msg probe)"

definition new_dir_probe :: "(string list \<Rightarrow> string) \<Rightarrow> string \<Rightarrow> string list \<Rightarrow> string option io" where
  "new_dir_probe pick dir before =
     io_bind (act_names (Listdir dir)) (\<lambda>now.
       (let diff = filter (\<lambda>x. x \<notin> set before) now in
        io_return (if diff \<noteq> [] then Some (path_join dir (pick diff)) else None)))"

definition wait_for_new_runtime_dir :: "(string list \<Rightarrow> string) \<Rightarrow> string list \<Rightarrow> string io" where
  "wait_for_new_runtime_dir pick before =
     io_bind get_home (\<lambda>home.
       with_timeout 60 ''no new kraftkit runtime dir appeared in time''
         (new_dir_probe pick (kraftkit_runtime_dir home) before))"

definition path_probe :: "string \<Rightarrow> unit option io" where
  "path_probe path = io_bind (act_bool (Exists path)) (\<lambda>e. io_return (if e then Some () else None))"

definition wait_for_path :: "string \<Rightarrow> unit io" where
  "wait_for_path path = with_timeout 60 (path @ '' did not appear in time'') (path_probe path)"

definition connect_probe :: "string \<Rightarrow> unit option io" where
  "connect_probe path =
     io_catch (io_then (act (Sock_connect path)) (io_return (Some ())))
       (\<lambda>e. if e = FileNotFoundError \<or> e = ConnectionRefusedError then io_return None else io_raise e)"

definition connect_hmp :: "string \<Rightarrow> unit io" where
  "connect_hmp path = with_timeout 60 (''could not connect to '' @ path @ '' in time'') (connect_probe path)"

section \<open>The main program\<close>

definition boot_cmd :: "string \<Rightarrow> string list" where
  "boot_cmd name = [''kraft'', ''run'', ''-d'', ''--name'', name, ''.'']"

definition boot_tag :: string where
  "boot_tag = ''[run_capture_from_boot]''"

definition boot_defaults :: "string \<Rightarrow> capture_args" where
  "boot_defaults here =
     \<lparr>a_name = ''vmibootcapture'', a_duration = 15, a_log = here @ ''/logs/capture_from_boot.jsonl'',
      a_include = [], a_exclude = [], a_max_events = None\<rparr>"

text \<open>From the start of gdb to the listing taken before the instance is started.\<close>

definition boot_prepare :: "capture_args \<Rightarrow> (nat \<times> string list) io" where
  "boot_prepare args =
     io_bind get_environ (\<lambda>environ.
     io_then (py_print (boot_tag @ '' pre-loading gdb symbols + arming pending breakpoint (no target yet)''))
     (io_bind (launch_gdb_preloaded (capture_env args environ)) (\<lambda>gdb_proc.
     io_then (act (Sleep (3 / 2)))
     (io_bind get_home (\<lambda>home.
      io_bind (act_names (Listdir (kraftkit_runtime_dir home))) (\<lambda>before.
      io_then (py_print (boot_tag @ '' starting instance '' @ py_repr_str (a_name args) @
        '' (kraftkit launches it paused via qemu -S)''))
      (io_return (gdb_proc, before))))))))"

text \<open>The race: find the socket, open the stub, hand it to gdb.\<close>

definition boot_attach :: "py_host \<Rightarrow> (string list \<Rightarrow> string) \<Rightarrow> nat \<Rightarrow> string list \<Rightarrow> unit io" where
  "boot_attach P pick gdb_proc before =
     io_bind (wait_for_new_runtime_dir pick before) (\<lambda>runtime_dir.
     (let mon_sock = path_join runtime_dir ''mon.sock'' in
      io_then (wait_for_path mon_sock)
      (io_bind (act_time Perf_counter) (\<lambda>t_mon.
      io_then (connect_hmp mon_sock)
      (io_bind recv_until_prompt (\<lambda>_.
      io_bind (find_free_port 1234) (\<lambda>port.
      io_bind (hmp_command P (gdbserver_cmd (int port))) (\<lambda>reply.
      io_bind (act_time Perf_counter) (\<lambda>t_gdbserver.
      io_then (py_print (boot_tag @ '' gdbserver armed on 127.0.0.1:'' @ py_str_int (int port) @ '' ('' @
        host_float_fmt P ''.4f'' (fl64 (t_gdbserver - t_mon)) @ ''s after mon.sock appeared) -- '' @ py_repr_str reply))
      (io_then (attach_preloaded_gdb gdb_proc port)
      (io_bind (act_time Perf_counter) (\<lambda>t_attach.
      io_then (py_print (boot_tag @ '' target remote + continue sent ('' @
        host_float_fmt P ''.4f'' (fl64 (t_attach - t_mon)) @ ''s after mon.sock appeared)''))
      (act Sock_close)))))))))))))"

definition boot_report :: "capture_args \<Rightarrow> nat io" where
  "boot_report args =
     io_bind (count_lines (a_log args) 0) (\<lambda>n_events.
     io_then (py_print (boot_tag @ '' captured '' @ py_str_int (int n_events) @ '' events -> '' @ a_log args))
     (io_then (io_when (n_events = 0) (py_print (boot_tag @
        '' WARNING: 0 events despite the guest booting '' @
        ''successfully -- this is the known, unresolved breakpoint-insertion '' @
        ''limitation documented in this script'' @ [CHR 0x27] @ ''s module docstring, not '' @
        ''necessarily a new bug. Use run_capture.py for a capture that '' @
        ''actually works (attach-after-boot).'')))
     (io_return 0)))"

definition boot_main :: "py_host \<Rightarrow> (string list \<Rightarrow> string) \<Rightarrow> capture_args \<Rightarrow> nat io" where
  "boot_main P pick args =
     io_bind (boot_prepare args) (\<lambda>x.
     io_bind get_project (\<lambda>d.
     io_bind (popen (boot_cmd (a_name args)) (Some d) None) (\<lambda>kraft_proc.
     io_then (boot_attach P pick (fst x) (snd x))
     (io_then (act (Proc_wait kraft_proc (Some 60)))
     (io_then (wait_duration P boot_tag (a_duration args) (fst x))
     (io_then (py_print (boot_tag @ '' stopping/removing instance '' @ py_repr_str (a_name args)))
     (io_then (stop_and_remove (a_name args))
     (boot_report args))))))))"

section \<open>The waiting loops end\<close>

lemma poll_until_returns:
  assumes tick: "ticking eps w"
    and probe: "\<And>h. \<exists>r as. probe w h = Some (r, h @ as)"
  shows "nat \<lceil>deadline / eps\<rceil> - readings h \<le> n \<Longrightarrow> \<exists>r h'. poll_until deadline msg probe w h = Some (r, h') \<and>
    (\<forall>x. r = Inr x \<longrightarrow> (\<exists>k. probe w k = Some (Inr (Some x), h'))) \<and>
    (r = Inl (TimeoutError msg) \<longrightarrow> deadline \<le> w_time w h' \<or> (\<exists>k. probe w k = Some (Inl (TimeoutError msg), h')))"
proof (induction n arbitrary: h rule: less_induct)
  case (less n)
  let ?h1 = "h @ [Monotonic]"
  note unfold = poll_until.simps [of deadline msg probe w h]
  obtain r as where p: "probe w ?h1 = Some (r, ?h1 @ as)" using probe by blast
  show ?case
  proof (cases "w_time w ?h1 < deadline")
    case False
    then show ?thesis by (simp add: unfold io_bind_def act_time_def io_raise_def)
  next
    case early: True
    show ?thesis
    proof (cases "r = Inr None")
      case False
      with p early show ?thesis
        by (cases r) (auto simp: unfold io_bind_def act_time_def io_return_def split: option.split)
    next
      case True
      have "readings h < nat \<lceil>deadline / eps\<rceil>" using ticking_early [OF tick early] .
      then have "nat \<lceil>deadline / eps\<rceil> - readings (?h1 @ as) < n" using less.prems by simp
      from less.IH [OF this order_refl] p early True show ?thesis
        by (simp add: unfold io_bind_def act_time_def)
    qed
  qed
qed

lemma probes_total:
  "\<exists>r as. new_dir_probe pick dir before w h = Some (r, h @ as)" "\<exists>r as. path_probe path w h = Some (r, h @ as)"
  "\<exists>r as. connect_probe path w h = Some (r, h @ as)"
  by (auto simp: new_dir_probe_def path_probe_def connect_probe_def Let_def io_defs split: sum.split)

lemma with_timeout_returns:
  assumes "ticking eps w" "\<And>h. \<exists>r as. probe w h = Some (r, h @ as)"
  shows "\<exists>r h'. with_timeout t msg probe w h = Some (r, h') \<and>
    (\<forall>x. r = Inr x \<longrightarrow> (\<exists>k. probe w k = Some (Inr (Some x), h')))"
  using poll_until_returns [where probe = probe and deadline = "w_time w (h @ [Monotonic]) + t" and msg = msg
      and h = "h @ [Monotonic]", OF assms order_refl]
  by (auto simp: with_timeout_def io_bind_def act_time_def)

lemma with_timeout_post:
  assumes "ticking eps w" "\<And>h. \<exists>r as. probe w h = Some (r, h @ as)"
    and "\<And>k x h'. probe w k = Some (Inr (Some x), h') \<Longrightarrow> Q x h'"
  shows "\<exists>r h'. with_timeout t msg probe w h = Some (r, h') \<and> (\<forall>x. r = Inr x \<longrightarrow> Q x h')"
proof -
  obtain r h' where "with_timeout t msg probe w h = Some (r, h')"
    "\<forall>x. r = Inr x \<longrightarrow> (\<exists>k. probe w k = Some (Inr (Some x), h'))"
    using with_timeout_returns [where probe = probe, OF assms(1,2)] by blast
  with assms(3) show ?thesis by blast
qed

lemma probe_hits:
  "path_probe path w k = Some (Inr (Some u), h') \<Longrightarrow> \<exists>k. h' = k @ [Exists path] \<and> w_bool w h' = Inr True"
  "connect_probe path w k = Some (Inr (Some u), h') \<Longrightarrow> \<exists>k. h' = k @ [Sock_connect path] \<and> w_unit w h' = Inr ()"
  "new_dir_probe pick dir before w k = Some (Inr (Some p), h') \<Longrightarrow>
   \<exists>names. w_names w h' = Inr names \<and> filter (\<lambda>x. x \<notin> set before) names \<noteq> [] \<and>
     p = path_join dir (pick (filter (\<lambda>x. x \<notin> set before) names))"
  by (auto simp: path_probe_def connect_probe_def new_dir_probe_def io_defs Let_def split: if_splits sum.splits)

text \<open>
  C34: the polling loops end. With a clock that advances by some fixed amount at every
  reading, the three loops that poll without sleeping come back; \<open>wait_for_path\<close> returns
  normally only when the path has been seen, \<open>connect_hmp\<close> only when it has connected,
  and \<open>wait_for_new_runtime_dir\<close> only with a directory that was not there before.
\<close>

theorem boot_waits_end:
  assumes "ticking eps w" and "\<And>xs. xs \<noteq> [] \<Longrightarrow> pick xs \<in> set xs"
  shows "(\<exists>r h'. wait_for_path path w h = Some (r, h') \<and>
      (r = Inr () \<longrightarrow> (\<exists>k. h' = k @ [Exists path] \<and> w_bool w h' = Inr True))) \<and>
    (\<exists>r h'. connect_hmp path w h = Some (r, h') \<and>
      (r = Inr () \<longrightarrow> (\<exists>k. h' = k @ [Sock_connect path] \<and> w_unit w h' = Inr ()))) \<and>
    (\<exists>r h'. wait_for_new_runtime_dir pick before w h = Some (r, h') \<and>
      (\<forall>p. r = Inr p \<longrightarrow> (\<exists>x names. w_names w h' = Inr names \<and> x \<in> set names \<and> x \<notin> set before \<and>
        p = path_join (kraftkit_runtime_dir (w_home w)) x)))"
proof (intro conjI)
  show "\<exists>r h'. wait_for_path path w h = Some (r, h') \<and>
      (r = Inr () \<longrightarrow> (\<exists>k. h' = k @ [Exists path] \<and> w_bool w h' = Inr True))"
    unfolding wait_for_path_def
    using with_timeout_post [where probe = "path_probe path" and
        Q = "\<lambda>x h'. \<exists>k. h' = k @ [Exists path] \<and> w_bool w h' = Inr True", OF assms(1) probes_total(2) probe_hits(1)]
    by auto
  show "\<exists>r h'. connect_hmp path w h = Some (r, h') \<and>
      (r = Inr () \<longrightarrow> (\<exists>k. h' = k @ [Sock_connect path] \<and> w_unit w h' = Inr ()))"
    unfolding connect_hmp_def
    using with_timeout_post [where probe = "connect_probe path" and
        Q = "\<lambda>x h'. \<exists>k. h' = k @ [Sock_connect path] \<and> w_unit w h' = Inr ()", OF assms(1) probes_total(3) probe_hits(2)]
    by auto
  let ?dir = "kraftkit_runtime_dir (w_home w)"
  let ?Q = "\<lambda>p h'. \<exists>x names. w_names w h' = Inr names \<and> x \<in> set names \<and> x \<notin> set before \<and> p = path_join ?dir x"
  have Q: "?Q p h'" if "new_dir_probe pick ?dir before w k = Some (Inr (Some p), h')" for k p h'
  proof -
    from probe_hits(3) [OF that] obtain names where names: "w_names w h' = Inr names"
      "filter (\<lambda>x. x \<notin> set before) names \<noteq> []"
      "p = path_join ?dir (pick (filter (\<lambda>x. x \<notin> set before) names))" by blast
    from assms(2) [OF names(2)] names show ?thesis by auto
  qed
  have "wait_for_new_runtime_dir pick before w h =
      with_timeout 60 ''no new kraftkit runtime dir appeared in time'' (new_dir_probe pick ?dir before) w h"
    by (simp add: wait_for_new_runtime_dir_def io_bind_def get_home_def)
  with with_timeout_post [where probe = "new_dir_probe pick ?dir before" and Q = ?Q, OF assms(1) probes_total(1) Q]
  show "\<exists>r h'. wait_for_new_runtime_dir pick before w h = Some (r, h') \<and> (\<forall>p. r = Inr p \<longrightarrow> ?Q p h')" by simp
qed

definition tick_world :: world where
  "tick_world = \<lparr>w_unit = (\<lambda>h. Inr ()), w_run = (\<lambda>h. Inr (0, ''null'')), w_text = (\<lambda>h. Inr []),
     w_bool = (\<lambda>h. Inr True), w_names = (\<lambda>h. Inr [''vm1'', ''vm2'']), w_time = (\<lambda>h. of_nat (readings h)),
     w_environ = (\<lambda>x. None), w_resolve = (\<lambda>x. x), w_here = ''/w'', w_project = ''/'', w_home = ''/root''\<rparr>"

theorem boot_waits_end_witness:
  "\<exists>r h'. wait_for_new_runtime_dir hd [''vm1''] tick_world [] = Some (r, h')"
proof -
  have "ticking 1 tick_world" by (simp add: ticking_def tick_world_def)
  moreover have "hd xs \<in> set xs" if "xs \<noteq> []" for xs :: "string list" using that by simp
  ultimately show ?thesis using boot_waits_end [of 1 tick_world hd] by blast
qed

section \<open>Commands that change instances\<close>

lemma poll_until_only [io_rules]:
  assumes "A Monotonic" "io_only A probe"
  shows "io_only A (poll_until deadline msg probe)"
  unfolding io_only_def
proof (intro allI impI)
  fix w h r h'
  let ?R = "\<lambda>d m p w h y. p = probe \<longrightarrow> (\<exists>as. snd y = h @ as \<and> list_all A as)"
  assume run: "poll_until deadline msg probe w h = Some (r, h')"
  have "?R deadline msg probe w h (r, h')"
  proof (rule poll_until.raw_induct [where P = ?R, OF _ run])
    fix f d m p w h and y :: "'a result \<times> trace"
    assume IH: "\<And>d m p w h y. f d m p w h = Some y \<Longrightarrow> ?R d m p w h y"
      and body: "io_bind (act_time Monotonic) (\<lambda>t.
       if t < d then io_bind p (\<lambda>r. case r of Some x \<Rightarrow> io_return x | None \<Rightarrow> f d m p)
       else io_raise (TimeoutError m)) w h = Some y"
    have f: "io_only A (f d m probe)" unfolding io_only_def using IH by fastforce
    have "io_only A (io_bind (act_time Monotonic) (\<lambda>t.
       if t < d then io_bind probe (\<lambda>r. case r of Some x \<Rightarrow> io_return x | None \<Rightarrow> f d m probe)
       else io_raise (TimeoutError m)))"
      by (intro io_rules f assms)
    with body show "?R d m p w h y" by (cases y) (auto dest: io_onlyD)
  qed
  then show "\<exists>as. h' = h @ as \<and> list_all A as" by simp
qed

lemma boot_parts_lifeless [io_rules]:
  "lifeless (boot_prepare args)" "lifeless (boot_attach P pick p before)" "lifeless (boot_report args)"
  by (auto simp: boot_prepare_def boot_attach_def boot_report_def Let_def wait_for_new_runtime_dir_def
      wait_for_path_def connect_hmp_def with_timeout_def new_dir_probe_def path_probe_def connect_probe_def
      intro!: io_rules)

lemma popen_issues: "life_argv argv \<Longrightarrow> issues (popen argv cwd env) {[argv]} {[argv]}"
  by (auto simp: issues_def popen_def Let_def life_argvs_def split: sum.splits)

text \<open>
  One instance, started and removed. \<open>run_capture_from_boot.py\<close> starts its own
  instance, without publishing a port, after gdb has been prepared, and issues, in this
  order, at most the command that stops it and the one that removes it; all three when the
  script ends normally.
\<close>

lemma boot_main_instances:
  assumes "boot_main P pick args w h = Some (r, h')"
  shows "\<exists>cs. life h' = life h @ cs \<and>
    prefix cs [boot_cmd (a_name args), stop_cmd (a_name args), rm_cmd (a_name args)] \<and>
    (\<forall>n. r = Inr n \<longrightarrow> length cs = 3) \<and> ''-p'' \<notin> set (boot_cmd (a_name args)) - {a_name args}"
proof -
  have "issues (boot_main P pick args) {[boot_cmd (a_name args), stop_cmd (a_name args), rm_cmd (a_name args)]}
     {[], [boot_cmd (a_name args)], [boot_cmd (a_name args), stop_cmd (a_name args)],
      [boot_cmd (a_name args), stop_cmd (a_name args), rm_cmd (a_name args)]}"
    unfolding boot_main_def
    by (rule issues_mono, rule issues_bind [OF issues_lifeless issues_bind [OF issues_lifeless
          issues_bind [OF popen_issues issues_then [OF issues_lifeless issues_then [OF issues_lifeless
          issues_then [OF issues_lifeless issues_then [OF issues_lifeless issues_then [OF stop_and_remove_issues
          issues_lifeless]]]]]]]])
      (auto intro!: io_rules simp: boot_cmd_def life_argv_def)
  from issuesD [OF this assms] show ?thesis by (fastforce simp: boot_cmd_def split: sum.splits)
qed

text \<open>A run in which no runtime directory appears before the deadline.\<close>

definition late_world :: world where
  "late_world = tick_world\<lparr>w_names := (\<lambda>h. Inr []), w_time := (\<lambda>h. 100 * of_nat (readings h))\<rparr>"

lemma late_world_simps [simp]:
  "w_unit late_world h = Inr ()" "w_names late_world h = Inr []" "w_time late_world h = 100 * of_nat (readings h)"
  "w_environ late_world = (\<lambda>x. None)" "w_project late_world = ''/''" "w_here late_world = ''/w''"
  "w_home late_world = ''/root''"
  by (simp_all add: late_world_def tick_world_def)

lemma late_prepare:
  "\<exists>p h'. boot_prepare demo_args late_world [] = Some (Inr (p, []), h') \<and> readings h' = 0"
  by (simp add: boot_prepare_def launch_gdb_preloaded_def popen_gdb_def popen_def Let_def io_bind_def io_then_def
      get_environ_def get_project_def get_here_def get_home_def py_print_def act_def act_names_def io_return_def
      readings_def)

lemma late_attach:
  "readings h = 0 \<Longrightarrow> \<exists>h'. boot_attach P hd p [] late_world h =
     Some (Inl (TimeoutError ''no new kraftkit runtime dir appeared in time''), h')"
  by (simp add: boot_attach_def wait_for_new_runtime_dir_def with_timeout_def poll_until.simps new_dir_probe_def
      io_bind_def get_home_def act_time_def act_names_def io_return_def io_raise_def Let_def)

text \<open>
  An instance left behind: the command that starts it has been issued when the wait for its
  directory times out, and nothing stops it.
\<close>

lemma boot_leaves_instance:
  "\<exists>h'. boot_main hmp_host hd demo_args late_world [] =
      Some (Inl (TimeoutError ''no new kraftkit runtime dir appeared in time''), h') \<and>
    life h' = [boot_cmd ''vmicapture'']"
proof -
  obtain p h1 where 1: "boot_prepare demo_args late_world [] = Some (Inr (p, []), h1)" "readings h1 = 0"
    using late_prepare by blast
  let ?h2 = "h1 @ [Popen (boot_cmd (a_name demo_args)) (Some ''/'') None]"
  have 2: "popen (boot_cmd (a_name demo_args)) (Some ''/'') None late_world h1 = Some (Inr (length h1), ?h2)"
    by (simp add: popen_def)
  have "readings ?h2 = 0" using 1(2) by (simp add: readings_def)
  then obtain h3 where 3: "boot_attach hmp_host hd p [] late_world ?h2 =
      Some (Inl (TimeoutError ''no new kraftkit runtime dir appeared in time''), h3)" using late_attach by blast
  have run: "boot_main hmp_host hd demo_args late_world [] =
      Some (Inl (TimeoutError ''no new kraftkit runtime dir appeared in time''), h3)"
    using 1(1) 2 3 by (simp add: boot_main_def io_bind_def io_then_def get_project_def)
  have "lifeless (boot_prepare demo_args)" "lifeless (boot_attach hmp_host hd p [])" by (intro io_rules)+
  from life_quiet [OF this(1) 1(1)] life_quiet [OF this(2) 3] have "life h3 = [boot_cmd ''vmicapture'']"
    by (simp add: demo_args_def boot_cmd_def life_argv_def life_argvs_def)
  with run show ?thesis by blast
qed

end
