(* ===== verification/Command_Lines.thy ===== *)
theory Command_Lines
  imports Arg_Parse Bench_Conditions Capture_From_Boot Strace_Validate
begin

text \<open>
  The tools from their command lines on: the parser each \<open>main\<close> builds, the record its
  \<open>args\<close> is, and the whole program. Usage and help texts, which \<open>argparse\<close> lays out,
  are arguments.
\<close>

section \<open>The parsers\<close>

definition inline_options :: arg_spec where
  "inline_options = [(''--name'', Text_option), (''--duration'', Float_option), (''--log'', Text_option),
     (''--qemu'', Text_option), (''--addr'', Text_option), (''--ret-addr'', Text_option), (''--no-ret'', Flag_option),
     (''--port'', Int_option), (''--quiet'', Flag_option), (''--show-after-ready'', Flag_option)]"

definition inline_args_of :: "string \<Rightarrow> (string \<times> arg_value) list \<Rightarrow> inline_args" where
  "inline_args_of here vs =
     (let d = inline_defaults here in
      \<lparr>i_name = or_default (text_value vs ''--name'') (i_name d), i_duration = float_value vs ''--duration'',
       i_log = or_default (text_value vs ''--log'') (i_log d), i_qemu = or_default (text_value vs ''--qemu'') (i_qemu d),
       i_addr = text_value vs ''--addr'', i_ret_addr = text_value vs ''--ret-addr'', i_no_ret = is_set vs ''--no-ret'',
       i_port = or_default (int_value vs ''--port'') (i_port d), i_quiet = is_set vs ''--quiet'',
       i_show_after_ready = is_set vs ''--show-after-ready''\<rparr>)"

definition inline_program :: "py_host \<Rightarrow> string \<Rightarrow> string \<Rightarrow> string list \<Rightarrow> nat io" where
  "inline_program P usage help argv =
     io_bind get_here (\<lambda>here.
       with_arguments usage help (parse_args (host_read_float P) False inline_options argv)
         (\<lambda>vs pos. inline_main P (inline_args_of here vs)))"

text \<open>\<open>run_capture.py\<close> and \<open>run_capture_from_boot.py\<close> have the same options with other defaults.\<close>

definition capture_options :: arg_spec where
  "capture_options = [(''--name'', Text_option), (''--duration'', Float_option), (''--log'', Text_option),
     (''--include'', Text_option), (''--exclude'', Text_option), (''--max-events'', Int_option)]"

definition capture_args_of :: "capture_args \<Rightarrow> (string \<times> arg_value) list \<Rightarrow> capture_args" where
  "capture_args_of d vs =
     \<lparr>a_name = or_default (text_value vs ''--name'') (a_name d),
      a_duration = or_default (float_value vs ''--duration'') (a_duration d),
      a_log = or_default (text_value vs ''--log'') (a_log d),
      a_include = or_default (text_value vs ''--include'') (a_include d),
      a_exclude = or_default (text_value vs ''--exclude'') (a_exclude d),
      a_max_events = (case int_value vs ''--max-events'' of Some n \<Rightarrow> Some n | None \<Rightarrow> a_max_events d)\<rparr>"

definition capture_program :: "py_host \<Rightarrow> string \<Rightarrow> string \<Rightarrow> string list \<Rightarrow> nat io" where
  "capture_program P usage help argv =
     io_bind get_here (\<lambda>here.
       with_arguments usage help (parse_args (host_read_float P) False capture_options argv)
         (\<lambda>vs pos. run_capture_main P (capture_args_of (run_capture_defaults here) vs)))"

definition boot_program ::
    "py_host \<Rightarrow> (string list \<Rightarrow> string) \<Rightarrow> string \<Rightarrow> string \<Rightarrow> string list \<Rightarrow> nat io" where
  "boot_program P pick usage help argv =
     io_bind get_here (\<lambda>here.
       with_arguments usage help (parse_args (host_read_float P) False capture_options argv)
         (\<lambda>vs pos. boot_main P pick (capture_args_of (boot_defaults here) vs)))"

definition attach_options :: arg_spec where
  "attach_options = [(''--port'', Int_option)]"

definition attach_program :: "py_host \<Rightarrow> string \<Rightarrow> string \<Rightarrow> string list \<Rightarrow> nat io" where
  "attach_program P usage help argv =
     with_arguments usage help (parse_args (host_read_float P) True attach_options argv)
       (\<lambda>vs pos. attach_main P (or_default pos []) (int_value vs ''--port''))"

definition bench_options :: arg_spec where
  "bench_options = [(''--name'', Text_option), (''--reps'', Int_option), (''--requests'', Int_option),
     (''--concurrency'', Int_option), (''--out'', Text_option)]"

definition bench_args_of :: "string \<Rightarrow> (string \<times> arg_value) list \<Rightarrow> bench_args" where
  "bench_args_of here vs =
     (let d = bench_defaults here in
      \<lparr>b_name = or_default (text_value vs ''--name'') (b_name d), b_reps = or_default (int_value vs ''--reps'') (b_reps d),
       b_requests = or_default (int_value vs ''--requests'') (b_requests d),
       b_concurrency = or_default (int_value vs ''--concurrency'') (b_concurrency d),
       b_out = or_default (text_value vs ''--out'') (b_out d)\<rparr>)"

definition bench_program :: "py_host \<Rightarrow> string \<Rightarrow> string \<Rightarrow> string list \<Rightarrow> nat io" where
  "bench_program P usage help argv =
     io_bind get_here (\<lambda>here.
       with_arguments usage help (parse_args (host_read_float P) False bench_options argv)
         (\<lambda>vs pos. bench_main P (bench_args_of here vs)))"

definition bench3_options :: arg_spec where
  "bench3_options = [(''--reps'', Int_option), (''--requests'', Int_option), (''--concurrency'', Int_option),
     (''--qemu'', Text_option), (''--out'', Text_option)]"

definition bench3_args_of :: "string \<Rightarrow> (string \<times> arg_value) list \<Rightarrow> bench3_args" where
  "bench3_args_of here vs =
     (let d = bench3_defaults here in
      \<lparr>c_reps = or_default (int_value vs ''--reps'') (c_reps d),
       c_requests = or_default (int_value vs ''--requests'') (c_requests d),
       c_concurrency = or_default (int_value vs ''--concurrency'') (c_concurrency d),
       c_qemu = or_default (text_value vs ''--qemu'') (c_qemu d), c_out = or_default (text_value vs ''--out'') (c_out d)\<rparr>)"

definition bench3_program :: "py_host \<Rightarrow> string \<Rightarrow> string \<Rightarrow> string list \<Rightarrow> nat io" where
  "bench3_program P usage help argv =
     io_bind get_here (\<lambda>here.
       with_arguments usage help (parse_args (host_read_float P) False bench3_options argv)
         (\<lambda>vs pos. bench3_main P (bench3_args_of here vs)))"

definition validate_options :: arg_spec where
  "validate_options = [(''--vmi'', Text_option), (''--strace'', Text_option)]"

definition validate_program :: "py_host \<Rightarrow> string \<Rightarrow> string \<Rightarrow> string list \<Rightarrow> nat io" where
  "validate_program P usage help argv =
     with_arguments usage help (parse_args (host_read_float P) False validate_options argv)
       (\<lambda>vs pos. validate_main P (or_default (text_value vs ''--vmi'') (fst validate_defaults))
          (or_default (text_value vs ''--strace'') (snd validate_defaults)))"

lemma options_ok:
  "specs_ok inline_options" "specs_ok capture_options" "specs_ok attach_options" "specs_ok bench_options"
  "specs_ok bench3_options" "specs_ok validate_options"
  by code_simp+

section \<open>Writing a command line\<close>

definition optional :: "string \<Rightarrow> string option \<Rightarrow> setting list" where
  "optional n v = (case v of Some t \<Rightarrow> [Assign n t] | None \<Rightarrow> [])"

definition switch :: "string \<Rightarrow> bool \<Rightarrow> setting list" where
  "switch n b = (if b then [Switch n] else [])"

definition inline_settings :: "py_host \<Rightarrow> inline_args \<Rightarrow> setting list" where
  "inline_settings P args =
     [Assign ''--name'' (i_name args), Assign ''--log'' (i_log args), Assign ''--qemu'' (i_qemu args),
      Assign ''--port'' (py_str_int (i_port args))] @
     optional ''--duration'' (map_option (host_float_str P) (i_duration args)) @
     optional ''--addr'' (i_addr args) @ optional ''--ret-addr'' (i_ret_addr args) @
     switch ''--no-ret'' (i_no_ret args) @ switch ''--quiet'' (i_quiet args) @
     switch ''--show-after-ready'' (i_show_after_ready args)"

definition capture_settings :: "py_host \<Rightarrow> capture_args \<Rightarrow> setting list" where
  "capture_settings P args =
     [Assign ''--name'' (a_name args), Assign ''--duration'' (host_float_str P (a_duration args)),
      Assign ''--log'' (a_log args), Assign ''--include'' (a_include args), Assign ''--exclude'' (a_exclude args)] @
     optional ''--max-events'' (map_option py_str_int (a_max_events args))"

lemma get_here_bind: "io_bind get_here f w h = f (w_here w) w h"
  by (simp add: io_bind_def get_here_def)

text \<open>What a written command line stores, looked up by name.\<close>

definition stored :: "(string \<Rightarrow> rat result) \<Rightarrow> arg_spec \<Rightarrow> setting list \<Rightarrow> (string \<times> arg_value) list" where
  "stored F specs xs = rev (map (\<lambda>x. (setting_name x, the (setting_value F specs x))) xs)"

lemma stored_lookup:
  "map_of (stored F specs []) n = None"
  "map_of (stored F specs (x # xs)) n =
     (case map_of (stored F specs xs) n of Some v \<Rightarrow> Some v
      | None \<Rightarrow> if n = setting_name x then Some (the (setting_value F specs x)) else None)"
  "map_of (stored F specs (xs @ ys)) n =
     (case map_of (stored F specs ys) n of Some v \<Rightarrow> Some v | None \<Rightarrow> map_of (stored F specs xs) n)"
  "map_of (stored F specs (optional k v)) n =
     (if n = k then map_option (\<lambda>t. the (setting_value F specs (Assign k t))) v else None)"
  "map_of (stored F specs (switch k b)) n =
     (if n = k \<and> b then Some (the (setting_value F specs (Switch k))) else None)"
  by (auto simp: stored_def optional_def switch_def map_add_def split: option.split)

lemma all_optional:
  "list_all Q (optional n v) \<longleftrightarrow> (\<forall>t. v = Some t \<longrightarrow> Q (Assign n t))" "list_all Q (switch n b) \<longleftrightarrow> (b \<longrightarrow> Q (Switch n))"
  by (simp_all add: optional_def switch_def split: option.split)

lemma inline_kinds:
  "map_of inline_options ''--name'' = Some Text_option" "map_of inline_options ''--duration'' = Some Float_option"
  "map_of inline_options ''--log'' = Some Text_option" "map_of inline_options ''--qemu'' = Some Text_option"
  "map_of inline_options ''--addr'' = Some Text_option" "map_of inline_options ''--ret-addr'' = Some Text_option"
  "map_of inline_options ''--no-ret'' = Some Flag_option" "map_of inline_options ''--port'' = Some Int_option"
  "map_of inline_options ''--quiet'' = Some Flag_option" "map_of inline_options ''--show-after-ready'' = Some Flag_option"
  by (simp_all add: inline_options_def)

lemma capture_kinds:
  "map_of capture_options ''--name'' = Some Text_option" "map_of capture_options ''--duration'' = Some Float_option"
  "map_of capture_options ''--log'' = Some Text_option" "map_of capture_options ''--include'' = Some Text_option"
  "map_of capture_options ''--exclude'' = Some Text_option" "map_of capture_options ''--max-events'' = Some Int_option"
  by (simp_all add: capture_options_def)

lemmas stored_values = text_value_def int_value_def float_value_def is_set_def stored_lookup arg_convert_def py_int_str

lemma inline_parsed:
  assumes "\<And>d. i_duration args = Some d \<Longrightarrow> host_read_float P (host_float_str P d) = Inr d"
  shows "inline_program P usage help (map setting_word (inline_settings P args)) w h = inline_main P args w h"
proof -
  let ?F = "host_read_float P" and ?xs = "inline_settings P args"
  let ?vs = "stored ?F inline_options ?xs"
  have taken: "list_all (\<lambda>x. setting_value ?F inline_options x \<noteq> None) ?xs"
    using assms
    by (auto simp: inline_settings_def all_optional inline_kinds arg_convert_def py_int_str)
  have vals: "text_value ?vs ''--name'' = Some (i_name args)" "text_value ?vs ''--log'' = Some (i_log args)"
    "text_value ?vs ''--qemu'' = Some (i_qemu args)" "int_value ?vs ''--port'' = Some (i_port args)"
    "is_set ?vs ''--no-ret'' = i_no_ret args" "is_set ?vs ''--quiet'' = i_quiet args"
    "is_set ?vs ''--show-after-ready'' = i_show_after_ready args"
    by (simp_all add: inline_settings_def stored_values inline_kinds)
  have opts: "text_value ?vs ''--addr'' = i_addr args" "text_value ?vs ''--ret-addr'' = i_ret_addr args"
    by (simp_all add: inline_settings_def stored_values inline_kinds split: option.split)
  have "float_value ?vs ''--duration'' = i_duration args"
    using assms by (cases "i_duration args") (simp_all add: inline_settings_def stored_values inline_kinds)
  with vals opts have "inline_args_of (w_here w) ?vs = args"
    by (cases args) (simp add: inline_args_of_def Let_def or_default_def)
  then show ?thesis
    by (simp add: inline_program_def get_here_bind with_arguments_def parse_settings [OF options_ok(1) taken]
        flip: stored_def)
qed

lemma capture_parsed:
  assumes "host_read_float P (host_float_str P (a_duration args)) = Inr (a_duration args)"
  shows "capture_program P usage help (map setting_word (capture_settings P args)) w h = run_capture_main P args w h"
proof -
  let ?F = "host_read_float P" and ?xs = "capture_settings P args"
  let ?vs = "stored ?F capture_options ?xs"
  have taken: "list_all (\<lambda>x. setting_value ?F capture_options x \<noteq> None) ?xs"
    using assms
    by (auto simp: capture_settings_def all_optional capture_kinds arg_convert_def py_int_str)
  have "text_value ?vs ''--name'' = Some (a_name args)" "text_value ?vs ''--log'' = Some (a_log args)"
    "text_value ?vs ''--include'' = Some (a_include args)" "text_value ?vs ''--exclude'' = Some (a_exclude args)"
    "float_value ?vs ''--duration'' = Some (a_duration args)" "int_value ?vs ''--max-events'' = a_max_events args"
    using assms
    by (simp_all add: capture_settings_def stored_values capture_kinds split: option.split)
  then have "capture_args_of (run_capture_defaults (w_here w)) ?vs = args"
    by (cases args) (simp add: capture_args_of_def or_default_def run_capture_defaults_def split: option.split)
  then show ?thesis
    by (simp add: capture_program_def get_here_bind with_arguments_def parse_settings [OF options_ok(2) taken]
        flip: stored_def)
qed

section \<open>Programs\<close>

text \<open>
  C9: command lines round-trip. A command line that names every option with \<open>=\<close>, in
  whatever values (texts that begin with a dash or are empty included), is parsed as exactly
  those values, provided the host reads the durations it prints back as the same number.
\<close>

theorem command_lines_round_trip:
  assumes "\<And>d. i_duration iargs = Some d \<Longrightarrow> host_read_float P (host_float_str P d) = Inr d"
    and "host_read_float P (host_float_str P (a_duration cargs)) = Inr (a_duration cargs)"
  shows "inline_program P usage help (map setting_word (inline_settings P iargs)) w h = inline_main P iargs w h \<and>
    capture_program P usage help (map setting_word (capture_settings P cargs)) w h = run_capture_main P cargs w h"
  using inline_parsed [OF assms(1)] capture_parsed [OF assms(2)] by blast

definition float_host :: py_host where
  "float_host = hmp_host\<lparr>host_float_str := (\<lambda>x. if x = 30 then ''30.0'' else ''15.0''),
     host_read_float := (\<lambda>s. if s = ''30.0'' then Inr 30 else if s = ''15.0'' then Inr 15 else Inl ValueError)\<rparr>"

lemma float_host_reads:
  "host_read_float float_host (host_float_str float_host 30) = Inr 30"
  "host_read_float float_host (host_float_str float_host 15) = Inr 15"
  by (simp_all add: float_host_def)

theorem command_lines_round_trip_witness:
  "\<exists>r h'. capture_program float_host [] [] [''--name=vmicapture'', ''--duration=30.0'', ''--log=capture.jsonl'',
      ''--include='', ''--exclude=''] null_world [] = Some (r, h')"
proof -
  have "i_duration demo_inline = Some 15" "a_duration demo_args = 30" by (simp_all add: demo_inline_def demo_args_def)
  then have "capture_program float_host [] [] (map setting_word (capture_settings float_host demo_args)) null_world [] =
      run_capture_main float_host demo_args null_world []"
    using command_lines_round_trip [of demo_inline float_host demo_args "[]" "[]" null_world "[]"] float_host_reads by simp
  moreover have "map setting_word (capture_settings float_host demo_args) = [''--name=vmicapture'', ''--duration=30.0'',
      ''--log=capture.jsonl'', ''--include='', ''--exclude='']"
    by (simp add: capture_settings_def optional_def float_host_def demo_args_def)
  moreover have "\<exists>r h'. run_capture_main float_host demo_args null_world [] = Some (r, h')" by (rule null_run)
  ultimately show ?thesis by simp
qed

text \<open>
  C33: the tool only touches instances it started, and says why it stops. Whatever the command
  line of \<open>run_capture_inline.py\<close>: if it is refused, the usage is printed and the exit
  status is 2; if it asks for help, the help is printed and the status is 0. Otherwise the
  only commands that change instances are, in this order, the one that starts its own
  instance, the one that stops it and the one that removes it, all three when it ends with 0.
  A QEMU path that is no file, and an instance of that name that already runs, are refused
  with their messages and status 1; none of the three commands is then issued, and none is
  ever issued unless both checks have passed.
\<close>

theorem inline_program_instances:
  assumes "inline_program P usage help argv w h = Some (r, h')"
  shows "\<exists>cs. life h' = life h @ cs \<and>
    (case parse_args (host_read_float P) False inline_options argv of
       Usage_error \<Rightarrow> cs = [] \<and> refused w 2 usage r h'
     | Help_shown \<Rightarrow> cs = [] \<and> h' = h @ [Print help] \<and> r = (case w_unit w h' of Inl e \<Rightarrow> Inl e | Inr _ \<Rightarrow> Inr 0)
     | Parsed vs pos \<Rightarrow>
         (let args = inline_args_of (w_here w) vs in
          prefix cs [run_cmd (i_port args) (i_name args) (Some (i_qemu args)), stop_cmd (i_name args), rm_cmd (i_name args)] \<and>
          (r = Inr 0 \<longrightarrow> length cs = 3) \<and> (r = Inr 1 \<longrightarrow> cs = []) \<and> (\<forall>n. r = Inr n \<longrightarrow> n \<le> 1) \<and>
          (w_bool w (h @ [Is_file (i_qemu args)]) = Inr False \<longrightarrow> cs = [] \<and> refused w 1 (missing_text args) r h') \<and>
          (\<forall>h4. checks_done args w h True h4 \<longrightarrow> cs = [] \<and> refused w 1 (running_text args) r h') \<and>
          (cs \<noteq> [] \<longrightarrow> (\<exists>h4. checks_done args w h False h4))))"
proof (cases "parse_args (host_read_float P) False inline_options argv")
  case (Parsed vs pos)
  let ?args = "inline_args_of (w_here w) vs"
  from assms Parsed have run: "inline_main P ?args w h = Some (r, h')"
    by (simp add: inline_program_def get_here_bind with_arguments_def)
  obtain cs where cs: "life h' = life h @ cs"
    "prefix cs [run_cmd (i_port ?args) (i_name ?args) (Some (i_qemu ?args)), stop_cmd (i_name ?args), rm_cmd (i_name ?args)]"
    "r = Inr 0 \<longrightarrow> length cs = 3" "r = Inr 1 \<longrightarrow> cs = []" "\<forall>n. r = Inr n \<longrightarrow> n \<le> 1"
    "cs \<noteq> [] \<longrightarrow> (\<exists>h4. checks_done ?args w h False h4)"
    using inline_main_instances [OF run] by blast
  have none: "cs = []" if "life h' = life h" using that cs(1) by simp
  note refuses = inline_main_refuses [OF run]
  show ?thesis
    unfolding Parsed parse_end.case Let_def
    by (rule exI [of _ cs], intro conjI impI allI)
      (use cs none refuses in blast)+
next
  case Usage_error
  with assms have "io_then (py_print_err usage) (io_return 2) w h = Some (r, h')"
    by (simp add: inline_program_def get_here_bind with_arguments_def)
  from refusal [OF this] Usage_error show ?thesis by simp
next
  case Help_shown
  with assms have "h' = h @ [Print help] \<and> r = (case w_unit w h' of Inl e \<Rightarrow> Inl e | Inr _ \<Rightarrow> Inr 0)"
    by (auto simp: inline_program_def get_here_bind with_arguments_def io_then_Some py_print_def act_def io_return_def)
  with Help_shown show ?thesis by (simp add: life_action_def)
qed

text \<open>A binary that is not there.\<close>

definition no_qemu_world :: world where
  "no_qemu_world = null_world\<lparr>w_bool := (\<lambda>h. Inr (last h \<noteq> Is_file ''/nowhere''))\<rparr>"

theorem inline_program_instances_witness:
  "\<exists>h'. inline_program hmp_host ''usage'' ''help'' [''--qemu=/nowhere''] no_qemu_world [] = Some (Inr 1, h') \<and> life h' = []"
proof -
  have parsed: "parse_args (host_read_float hmp_host) False inline_options [''--qemu=/nowhere''] =
      Parsed [(''--qemu'', Text_value ''/nowhere'')] None" by code_simp
  let ?args = "inline_args_of (w_here no_qemu_world) [(''--qemu'', Text_value ''/nowhere'')]"
  have q: "i_qemu ?args = ''/nowhere''" by (simp add: inline_args_of_def Let_def text_value_def or_default_def)
  have "inline_program hmp_host ''usage'' ''help'' [''--qemu=/nowhere''] no_qemu_world [] = inline_main hmp_host ?args no_qemu_world []"
    by (simp add: inline_program_def get_here_bind with_arguments_def parsed)
  moreover have "act_bool (Is_file (i_qemu ?args)) no_qemu_world [] = Some (Inr False, [Is_file ''/nowhere''])"
    unfolding q by (simp add: act_bool_def no_qemu_world_def)
  moreover have "py_print_err s no_qemu_world h = Some (Inr (), h @ [Print_err s])" for s h
    by (simp add: py_print_err_def act_def no_qemu_world_def null_world_def)
  ultimately have "\<exists>h'. inline_program hmp_host ''usage'' ''help'' [''--qemu=/nowhere''] no_qemu_world [] = Some (Inr 1, h')"
    by (simp add: inline_main_def io_bind_def io_then_def io_return_def)
  then obtain h' where run: "inline_program hmp_host ''usage'' ''help'' [''--qemu=/nowhere''] no_qemu_world [] = Some (Inr 1, h')"
    by blast
  from inline_program_instances [OF run] run parsed show ?thesis by (auto simp: Let_def)
qed

end
