(* ===== verification/Spec2Isabelle.thy ===== *)
theory Spec2Isabelle
  imports Ground_Truth Gdb_Start Gdb_Relay Command_Lines
begin

text \<open>
  A verification development for the syscall monitor of this repository: a patch to QEMU
  that records a unikernel's system calls from outside the guest, and the Python tools that
  start it, capture with gdb instead, show captures, measure the overhead and compare a
  capture with the guest's own strace output.

  \<^bold>\<open>The parts and how they meet.\<close>
  The patched QEMU (\<open>qemu_patch/target/i386/kvm/vmi-syscall-monitor.c\<close>, called from
  \<open>kvm_handle_debug\<close> and \<open>fw_cfg_dma_transfer\<close>) reads its hook addresses from
  environment variables, plants \<open>int3\<close> at the guest kernel's syscall entry and return,
  pairs entries with returns in a table of 64 pending calls and appends one JSON line per call
  to the capture file. \<open>run_capture_inline.py\<close> resolves the addresses, starts that QEMU
  through \<open>kraft\<close>, waits for the arm message in the debug log and follows the capture
  file. \<open>run_capture.py\<close> and \<open>run_capture_from_boot.py\<close> attach gdb instead
  (\<open>attach_gdbstub.py\<close>, \<open>gdb_session.py\<close>), which runs \<open>monitor.py\<close>.
  \<open>bench_overhead.py\<close> and \<open>bench_overhead_inline.py\<close> run \<open>ab\<close> against an
  instance with and without monitoring; \<open>validate_strace.py\<close> aligns the names of a
  capture with those of the strace log.

  \<^bold>\<open>Theories, bottom up.\<close>
  \<^item> \<open>Prelude\<close>: words, exceptions, results (\<open>Inl\<close> an exception), list facts.
    \<open>Py_Text\<close>, \<open>Py_Float\<close>, \<open>Json\<close>, \<open>Py_Value\<close>: what the sources use of
    Python's strings, \<open>int\<close>, \<open>hex\<close>, floats (as the rational numbers of IEEE
    doubles), \<open>json\<close>, and of C's \<open>strtoull\<close> and \<open>printf\<close>. \<open>Recorder\<close>:
    the interface of a component that appends to a log.
  \<^item> \<open>Syscall_Table\<close>: \<open>syscall_table.py\<close> and \<open>vmi-syscall-table.h\<close> with the
    binary search, and the interface \<open>name_table\<close> of the event writers.
  \<^item> \<open>Gdb_Monitor\<close>: \<open>monitor.py\<close>; the record \<open>gdb_monitor\<close> holds the state of
    \<open>SyscallBreakpoint\<close>, \<open>gdb_hit\<close> one hit of a session.
  \<^item> \<open>Vmi_State\<close> (the static variables of the C monitor as the record \<open>vmi\<close>, KVM as the
    record \<open>kvm\<close> of functions), \<open>Vmi_Log\<close> (\<open>vmi_write_event\<close>),
    \<open>Vmi_Pending\<close> (entry and return handlers, flush), \<open>Pending_Refine\<close> (the queue
    they implement), \<open>Vmi_Monitor\<close> (arming, boot hook, run-state handler, start-up,
    step-over), \<open>Kvm_Dispatch\<close> (the patched QEMU functions, the step relation
    \<open>vmi_reach\<close> of everything QEMU may call, its invariant), \<open>Vmi_Properties\<close>.
  \<^item> \<open>Py_IO\<close>: the Python tools as programs over actions (subprocess, files, sockets,
    clock, sleep, terminal, child processes); a run is the list of actions done, the world
    answers each one depending on all before it; \<open>None\<close> is a run that does not come back.
    \<open>Kraft\<close>: instances and hook addresses, the calculus \<open>issues\<close> of the commands a
    program issues, the interface \<open>starter\<close>. \<open>Hmp\<close>: \<open>attach_gdbstub.py\<close>.
    \<open>Gdb_Session\<close> and \<open>Gdb_Relay\<close>: \<open>gdb_session.py\<close>, the second one its relay
    thread as a transition system. \<open>Run_Capture\<close>: \<open>run_capture.py\<close>.
    \<open>Live_View\<close>, \<open>Live_View_Proofs\<close> and \<open>Capture_Inline\<close>:
    \<open>run_capture_inline.py\<close>. \<open>Capture_From_Boot\<close>:
    \<open>run_capture_from_boot.py\<close>. \<open>Bench\<close> and \<open>Bench_Conditions\<close>: the two
    benchmarks. \<open>Difflib\<close> (what is used of \<open>difflib\<close>), \<open>Difflib_Proofs\<close> and
    \<open>Strace_Validate\<close>: \<open>validate_strace.py\<close>.
    \<open>Arg_Parse\<close> (what the tools use of \<open>argparse\<close>) and \<open>Command_Lines\<close>: the
    seven parsers and the tools from their command lines on.
  \<^item> \<open>Gdb_Start\<close>: the start of \<open>monitor.py\<close> inside gdb, with the environment that
    \<open>run_capture.py\<close> makes.
  \<^item> \<open>Capture_Chain\<close>, \<open>Machine_Capture\<close>, \<open>Event_Schema\<close>, \<open>Ground_Truth\<close> and this theory: what
    passes between the C and the Python part. \<open>Machine_Capture\<close> follows a QEMU process
    from its start to the shutdown and reduces its capture to the run of the traps it
    claimed; \<open>Event_Schema\<close> is the type of an event document, \<open>Ground_Truth\<close> the
    comparison of a capture with the guest's console log.

  \<^bold>\<open>What the theorems show.\<close>
  For the C monitor: returns are paired with their calls, no call is lost, duplicated or mixed
  up, the table refines a queue; in every reachable state no null pointer is used; step-overs
  end, retries end after 100 attempts, the boot hook arms what it says, a disabled monitor
  leaves QEMU as it was; every line is one JSON document. For the gdb script: the log is
  exactly the filtered hits up to the limit. For the tools: which instances they start, stop
  and remove on every path (one they started is left only if the command that started or the
  one that was stopping it ended the run), that their waiting loops end, the live view's even
  on a file that grows for ever, what they show, what they send to the monitor socket, what a
  benchmark returns, that the longest match \<open>validate_strace.py\<close> reports is one and that the
  differences it reports turn the capture into the strace log. Across the border: whatever QEMU calls in
  whatever order, the capture file left at shutdown is read back by the Python readers without
  loss, both back ends write well-typed events and a well-typed event never makes a reader
  raise, command lines are parsed as what was written and the addresses and options on them
  reach the monitors, both back ends write a call alike unless gdb reads a shown argument as
  negative, a faithful console log is reported as
  a full match, and one with earlier and later calls as a single run that is the whole capture.
  The relay thread of the gdb session loses nothing and ends. Theorems about
  flaws of the code state what it does: the instances left behind by an exception or by a
  terminal that is gone, a log name without a directory, the arm message of a failed attempt,
  a fallback without a timer, a second vCPU at a hook, a failing removal, truncated numbers
  and milliseconds, the baseline's inherited environment, a diff that misses what the longest
  match found.

  \<^bold>\<open>Bounds and loops.\<close>
  Registers, addresses and the sequence counter are 64-bit words; runs are assumed to have
  fewer than \<open>2 ^ 64\<close> entries (\<open>seq_room\<close>). C loops over the table are folds over
  its 64 indices; the flush terminates because each round frees a slot. Python loops that may
  wait for ever are \<open>partial_function\<close>s; that they return is proved from a clock that
  runs while the process sleeps (\<open>clock_runs\<close>) or advances with every reading
  (\<open>ticking\<close>). \<open>json_loads\<close> recurses with the length of its input as fuel, which
  \<open>json_fuel_le\<close> shows to be enough for what the tools write.

  \<^bold>\<open>Not modelled.\<close>
  KVM, guest memory, QEMU's timers and main loop (parameters with named laws); gdb, kraft,
  \<open>nm\<close>, \<open>objdump\<close> and \<open>ab\<close> (answers of the world); how
  \<open>argparse\<close> lays out usage and help, and versions of it other than Python
  3.11.10's; time zones, \<open>strerror\<close>, the reading of a \<open>--duration\<close> and
  the formatting of floats, \<open>statistics.stdev\<close> and the decoding of bytes (the
  record \<open>py_host\<close>); durations that are infinite or not a number; the
  normalisation of \<open>pathlib\<close> beyond joining; Ctrl-C at points other than the
  calls that sleep, read, print or wait; the buffering of the terminal; characters beyond
  U+00FF; the change to \<open>meson.build\<close>.
\<close>

section \<open>The two capture back ends describe a syscall alike\<close>

text \<open>
  For every syscall number below \<open>2^31\<close> the QEMU-side binary search over the C table, with
  its fallback, gives the name and the argument count the Python table and its fallback give.
\<close>

lemma names_agree:
  assumes "unat w < 2 ^ 31"
  shows "describe c_table_get c_udec w = describe py_table_get py_str_int (int (unat w))"
proof -
  have "uint w < 2 ^ 31" using assms by (metis int_nat_eq of_nat_less_iff of_nat_numeral of_nat_power uint_nat)
  then have "signed_take_bit 31 (uint w) = uint w"
    by (intro signed_take_bit_int_eq_self) (simp_all add: order_trans [OF _ uint_ge_0])
  then have "sint (ucast w :: 32 word) = int (unat w)" by (simp add: signed_ucast_eq)
  then show ?thesis
    by (simp add: describe_def c_table_get_eq c_int_of_u64_def c_texts split: option.split)
qed

text \<open>
  A reading of a 64-bit register by gdb: an integer that stands for the word, unsigned or
  signed, whichever type gdb gives the register.
\<close>

definition reads_word :: "int \<Rightarrow> u64 \<Rightarrow> bool" where
  "reads_word i w \<longleftrightarrow> i = uint w \<or> i = sint w"

definition gdb_reads :: "(string \<Rightarrow> int) \<Rightarrow> cpu_env \<Rightarrow> bool" where
  "gdb_reads read env \<longleftrightarrow>
     list_all (\<lambda>(n, r). reads_word (read n) (env_regs env r))
       [(''rax'', R_EAX), (''rdi'', R_EDI), (''rsi'', R_ESI), (''rdx'', R_EDX), (''r10'', R_10), (''r8'', R_8), (''r9'', R_9)]"

lemma reads_unsigned: "reads_word i w \<Longrightarrow> 0 \<le> i \<Longrightarrow> i = int (unat w)"
proof -
  assume read: "reads_word i w" and pos: "0 \<le> i"
  have "uint w = sint w" if "0 \<le> sint w"
  proof -
    have "sint w < 2 ^ 64" using sint_lt [of w] by simp
    then have "take_bit 64 (sint w) = sint w" using that by (intro take_bit_int_eq_self) simp_all
    then show ?thesis by (simp add: uint_sint)
  qed
  with read pos show "i = int (unat w)" by (auto simp: reads_word_def)
qed

lemma reads_small: "reads_word i w \<Longrightarrow> unat w < 2 ^ 63 \<Longrightarrow> i = int (unat w)"
proof -
  assume "reads_word i w" and small: "unat w < 2 ^ 63"
  have "uint w < 2 ^ 63" using small by (metis int_nat_eq of_nat_less_iff of_nat_numeral of_nat_power uint_nat)
  then have "sint w = uint w" by (simp add: sint_uint signed_take_bit_int_eq_self order_trans [OF _ uint_ge_0])
  with \<open>reads_word i w\<close> show "i = int (unat w)" by (auto simp: reads_word_def)
qed

lemma hex_reading:
  assumes "reads_word i w"
  shows "py_hex i = hex0x w \<longleftrightarrow> 0 \<le> i"
proof (cases "0 \<le> i")
  case True
  with reads_unsigned [OF assms] show ?thesis by (simp add: py_hex_def hex0x_def c_hex_def)
next
  case False
  then show ?thesis by (simp add: py_hex_def hex0x_def)
qed

lemma hex_readings:
  "list_all2 (\<lambda>r w. reads_word (read r) w) rs ws \<Longrightarrow>
   map (\<lambda>r. py_hex (read r)) rs = map hex0x ws \<longleftrightarrow> (\<forall>r \<in> set rs. 0 \<le> read r)"
  by (induction rule: list_all2_induct) (simp_all add: hex_reading)

text \<open>
  C13: when the two back ends agree on a call. At a hit with the same registers and a number
  below \<open>2^31\<close>, \<open>monitor.py\<close> and \<open>vmi_write_event\<close> (whatever becomes of the call later)
  write the same number and the same name; and they write the same arguments, as many and in
  the same order and notation, exactly if gdb reads none of the arguments shown as negative.
\<close>

theorem backends_agree:
  assumes "gdb_reads (h_reg t) env" "unat (env_regs env R_EAX) < 2 ^ 31"
  shows "\<exists>evt. gdb_event t = JObj evt \<and>
    (let c = vmi_event_json ename (pending_event rip (entry_call cs env tv sq) what);
         shown = take (snd (describe c_table_get c_udec (env_regs env R_EAX))) arg_regs in
     jget evt ''num'' = jget c ''num'' \<and> jget evt ''syscall'' = jget c ''syscall'' \<and>
     (jget evt ''args'' = jget c ''args'' \<longleftrightarrow> (\<forall>r \<in> set shown. 0 \<le> h_reg t r)))"
proof -
  let ?w = "env_regs env R_EAX" and ?e = "pending_event rip (entry_call cs env tv sq) what"
  obtain name n where d: "describe c_table_get c_udec ?w = (name, n)" by fastforce
  have rax: "h_reg t ''rax'' = int (unat ?w)"
    using assms by (intro reads_small) (simp_all add: gdb_reads_def)
  have dp: "describe py_table_get py_str_int (h_reg t ''rax'') = (name, n)"
    using names_agree [OF assms(2)] d rax by simp
  have "list_all2 (\<lambda>r w. reads_word (h_reg t r) w) arg_regs (vmi_read_args env)"
    using assms(1) by (simp add: gdb_reads_def arg_regs_def vmi_read_args_def)
  then have "list_all2 (\<lambda>r w. reads_word (h_reg t r) w) (take n arg_regs) (take n (vmi_read_args env))"
    by (rule list_all2_takeI)
  note args = hex_readings [OF this]
  have "jget (vmi_event_json ename ?e) ''num'' = Some (JInt (int (unat ?w)))"
    by (simp add: vmi_event_json_def jget_def kind_json_def split_beta pending_event_def entry_call_def split: VmiRetKind.split option.split)
  moreover have "event_name ?e = name" "event_args ?e = map hex0x (take n (vmi_read_args env))"
    by (simp_all add: event_name_def event_args_def pending_event_def entry_call_def d)
  moreover define evt where "evt = [(''ts'', JDec (fst (h_ts t)) (snd (h_ts t))), (''num'', JInt (h_reg t ''rax'')),
     (''syscall'', JStr name), (''args'', JArr (map JStr (map (\<lambda>r. py_hex (h_reg t r)) (take n arg_regs)))),
     (''handler_latency_ns'', JInt (py_round (fl64 (fl64 (h_exit t - h_enter t) * 10 ^ 9))))]"
  moreover have "gdb_event t = JObj evt" by (simp add: gdb_event_def Let_def dp evt_def comp_def)
  moreover have "jget evt ''num'' = Some (JInt (h_reg t ''rax''))" "jget evt ''syscall'' = Some (JStr name)"
    "jget evt ''args'' = Some (JArr (map JStr (map (\<lambda>r. py_hex (h_reg t r)) (take n arg_regs))))"
    by (simp_all add: evt_def jget_def)
  moreover have "map JStr xs = map JStr ys \<longleftrightarrow> xs = ys" for xs ys by (simp add: inj_map_eq_map inj_def)
  ultimately show ?thesis using args d by (intro exI [of _ evt]) (simp add: rax del: map_map)
qed

definition write_hit :: hit where
  "write_hit = \<lparr>h_reg = (\<lambda>r. if r = ''rax'' then 1 else 7), h_ts = (17917705114, 1), h_enter = 0, h_exit = 0\<rparr>"

theorem backends_agree_witness:
  "\<exists>evt. gdb_event write_hit = JObj evt \<and>
     jget evt ''args'' = jget (vmi_event_json sample_ename
       (pending_event 0x101000 (entry_call 0 (sample_env 0x7f00 1) (sample_time 0) 0) VMI_RET_NONE)) ''args''"
proof -
  have "gdb_reads (h_reg write_hit) (sample_env 0x7f00 1)"
    by (simp add: gdb_reads_def reads_word_def write_hit_def sample_env_def)
  moreover have "unat (env_regs (sample_env 0x7f00 1) R_EAX) < 2 ^ 31" by (simp add: sample_env_def)
  moreover have "0 \<le> h_reg write_hit r" for r by (simp add: write_hit_def)
  ultimately show ?thesis
    using backends_agree [of write_hit "sample_env 0x7f00 1", where ename = sample_ename and rip = "0x101000" and cs = 0
      and tv = "sample_time 0" and sq = 0 and what = VMI_RET_NONE]
    by (auto simp: Let_def)
qed

text \<open>
  Where they differ. An argument with its top bit set is shown with a sign by
  \<open>monitor.py\<close> if gdb reads the register as signed; and the C lookup takes the number as an \<open>int\<close>, so a number
  whose low 32 bits are a known one is named after that one, where \<open>monitor.py\<close> shows
  the number.
\<close>

lemma negative_argument:
  "reads_word (- 1) (0xffffffffffffffff :: u64)" "py_hex (- 1) = ''-0x1''"
  "hex0x (0xffffffffffffffff :: u64) = ''0xffffffffffffffff''"
proof -
  have "nat_digits 16 1 = ''1''" by code_simp
  then show "py_hex (- 1) = ''-0x1''" by (simp add: py_hex_def)
  have "digit_char 15 = CHR ''f''" by code_simp
  then have "nat_digits 16 0xffffffffffffffff = ''ffffffffffffffff''" by (simp add: nat_digits.simps)
  then show "hex0x (0xffffffffffffffff :: u64) = ''0xffffffffffffffff''" by (simp add: hex0x_def c_hex_def)
qed (simp add: reads_word_def)

lemma name_of_large_number:
  "describe c_table_get c_udec 0x100000001 = (''write'', 3)"
  "describe py_table_get py_str_int 0x100000001 = (''syscall_'' @ py_str_int 0x100000001, 6)"
proof -
  have "c_int_of_u64 0x100000001 = 1" by (simp add: c_int_of_u64_def)
  moreover have "py_table_get 1 = Some (''write'', 3)" "py_table_get 0x100000001 = None" by code_simp+
  ultimately show "describe c_table_get c_udec 0x100000001 = (''write'', 3)"
    "describe py_table_get py_str_int 0x100000001 = (''syscall_'' @ py_str_int 0x100000001, 6)"
    by (simp_all add: describe_def c_table_get_eq)
qed

section \<open>From the guest's system calls to the readers of the capture file\<close>

text \<open>
  C29: the arm message of the debug log. \<open>run_capture_inline.py\<close> reports the breakpoint as
  armed when it finds the marker in the debug log. A successful attempt to arm always writes
  it; but so does an attempt that verifies the entry hook and then fails at the return hook,
  although the monitor takes the entry hook out again and counts the attempt as failed.
\<close>

theorem arm_marker:
  assumes "vmi_debug_fp s = Some l" "snd (vmi_arm_addr K cs (vmi_addr s) tag s)"
  shows "arm_marked (debug_file (fst (vmi_arm_once K cs tag s))) \<and>
    (snd (vmi_arm_once K cs tag s) \<longleftrightarrow> vmi_ret_addr s = 0 \<or>
      snd (vmi_arm_addr K cs (vmi_ret_addr s) tag (fst (vmi_arm_addr K cs (vmi_addr s) tag s))))"
proof -
  let ?m = "tagged tag (''readback=0xcc confirmed at '' @ hex0x (vmi_addr s))"
  obtain ls where "vmi_debug_fp (fst (vmi_arm_once K cs tag s)) = Some (l @ ?m # ls)"
    using arm_once_debug [OF assms] by blast
  then have "debug_file (fst (vmi_arm_once K cs tag s)) =
      concat (map (\<lambda>m. m @ nl) l) @ ?m @ (nl @ concat (map (\<lambda>m. m @ nl) ls))"
    by (simp add: debug_file_def)
  with assms(2) show ?thesis by (simp only: arm_marked_verified arm_once_result simp_thms)
qed

theorem arm_marker_witness:
  "arm_marked (debug_file (fst (vmi_arm_once one_hook_kvm 0 ''arm'' (sample_vmi\<lparr>vmi_debug_fp := Some []\<rparr>)))) \<and>
   \<not> snd (vmi_arm_once one_hook_kvm 0 ''arm'' (sample_vmi\<lparr>vmi_debug_fp := Some []\<rparr>))"
  using arm_marker [of "sample_vmi\<lparr>vmi_debug_fp := Some []\<rparr>" "[]" one_hook_kvm 0 "''arm''"]
  by (simp add: one_hook_kvm_def vmi_arm_addr_def sample_vmi_def Let_def case_prod_beta kvm_insert_breakpoint_def
      kvm_remove_breakpoint_def)

section \<open>From the command line to the monitors\<close>

text \<open>The monitor, started with the environment of \<open>run_capture_inline.py\<close>.\<close>

lemma monitor_env_hooks:
  assumes "addr_ok addr" "addr \<noteq> 0" "\<And>a. ret = Some a \<Longrightarrow> addr_ok a \<and> a \<noteq> addr" "opens logp = None"
  shows "hooks (vmi_monitor_init (qemu_env opens (monitor_env addr ret logp environ)) (vmi_zero k)) =
    (True, word_of_int addr, (case ret of None \<Rightarrow> 0 | Some a \<Rightarrow> word_of_int a), True)"
proof -
  have addr: "c_strtoull (py_hex addr) = word_of_int addr" "(word_of_int addr :: u64) \<noteq> 0"
    using assms(1,2) c_strtoull_py_hex word_of_addr_inj [of addr 0] by (simp_all add: addr_ok_def)
  have ret: "c_strtoull (py_hex a) = word_of_int a" "(word_of_int a :: u64) \<noteq> word_of_int addr" if "ret = Some a" for a
    using assms(1,3) that c_strtoull_py_hex word_of_addr_inj [of a addr] by (simp_all add: addr_ok_def)
  show ?thesis
    using vmi_monitor_init_cases(3) [of "qemu_env opens (monitor_env addr ret logp environ)" "py_hex addr" "vmi_zero k"]
      addr ret assms(4)
    by (auto simp: qemu_env_def init_ret_addr_def Let_def vmi_zero_def split: option.splits)
qed

text \<open>
  C8: the hook addresses given reach QEMU. Run \<open>run_capture_inline.py\<close> with a command line
  that names an entry address and a return address (or \<open>--no-ret\<close>) and lets it come to the
  point where it changes an instance: then it has started the patched QEMU, under the name,
  the port and the binary given, with an environment in which \<open>vmi_monitor_init\<close> enables
  the monitor at exactly these addresses (without a return hook after \<open>--no-ret\<close>, whatever
  the caller's environment says), provided the log file can be opened.
\<close>

theorem command_line_reaches_qemu:
  assumes "inline_program P usage help (map setting_word (inline_settings P args)) w h = Some (r, h')"
    and "i_addr args = Some (py_hex addr)" "i_no_ret args \<or> i_ret_addr args = Some (py_hex ra)"
    and "addr_ok addr" "addr \<noteq> 0" "addr_ok ra" "ra \<noteq> addr"
    and "\<And>d. i_duration args = Some d \<Longrightarrow> host_read_float P (host_float_str P d) = Inr d"
    and "opens (w_resolve w (i_log args)) = None" "life h' \<noteq> life h"
  shows "\<exists>env. Run (run_cmd (i_port args) (i_name args) (Some (i_qemu args))) (Some (w_project w)) (Some env) \<in> set h' \<and>
    hooks (vmi_monitor_init (qemu_env opens env) (vmi_zero k)) =
      (True, word_of_int addr, if i_no_ret args then 0 else word_of_int ra, True)"
proof -
  have "inline_main P args w h = Some (r, h')" using assms(1) inline_parsed [OF assms(8)] by simp
  with assms(10) obtain a ret k1 k2 h1 where phases: "hook_addresses args w k1 = Some (Inr (a, ret), k2)"
    "life h1 = life h" "inline_session P args a ret w h1 = Some (r, h')"
    using inline_main_phases by blast
  have "(a, ret) = (addr, if i_no_ret args then None else Some ra)"
    using assms(3,4,6) by (intro hook_addresses_given [OF phases(1) assms(2)]) (auto simp: addr_ok_def)
  with inline_session_env [OF phases(3)] phases(2) assms(10)
  have "Run (run_cmd (i_port args) (i_name args) (Some (i_qemu args))) (Some (w_project w))
      (Some (monitor_env addr (if i_no_ret args then None else Some ra) (w_resolve w (i_log args)) (w_environ w))) \<in> set h'"
    by simp
  moreover have "hooks (vmi_monitor_init (qemu_env opens (monitor_env addr (if i_no_ret args then None else Some ra)
      (w_resolve w (i_log args)) (w_environ w))) (vmi_zero k)) =
      (True, word_of_int addr, if i_no_ret args then 0 else word_of_int ra, True)"
    using monitor_env_hooks [of addr "if i_no_ret args then None else Some ra" opens "w_resolve w (i_log args)"] assms(4-7,9)
    by (cases "i_no_ret args") simp_all
  ultimately show ?thesis by blast
qed

theorem command_line_reaches_qemu_witness:
  "\<exists>env. hooks (vmi_monitor_init (qemu_env (\<lambda>p. None) env) (vmi_zero ())) = (True, 0x101000, 0x101080, True)"
proof -
  let ?w = "inline_world armed_text (\<lambda>h. Inr ())"
  have reads: "\<And>d. i_duration demo_inline = Some d \<Longrightarrow>
      host_read_float float_host (host_float_str float_host d) = Inr d"
    by (simp add: demo_inline_def float_host_def)
  obtain h' where main: "inline_main float_host demo_inline ?w [] = Some (Inr 0, h')" using inline_main_run by blast
  then have run: "inline_program float_host [] [] (map setting_word (inline_settings float_host demo_inline)) ?w [] =
      Some (Inr 0, h')"
    using inline_parsed [OF reads] by simp
  have "life h' \<noteq> []" using inline_main_instances [OF main] by auto
  with command_line_reaches_qemu [OF run, where addr = "0x101000" and ra = "0x101080" and opens = "\<lambda>p. None" and k = "()"] reads
  show ?thesis by (auto simp: addr_ok_def demo_inline_def)
qed

end
